(* ===== verification/Prelude.thy ===== *)
theory Prelude
  imports Main "HOL-Library.Word" "HOL-Library.List_Lexorder"
begin

text \<open>
  Shared vocabulary of the development: the result type that carries Python exceptions,
  the types of Python strings and byte strings, association lists that behave like Python
  dictionaries, and the codec interface that the byte-level components implement.

  \<^item> A Python \<^verbatim>\<open>str\<close> is a list of code points (\<open>pystr\<close>); \<open>lit\<close> turns an ASCII literal into one.
  \<^item> A Python \<^verbatim>\<open>bytes\<close> is a list of 8-bit words (\<open>bytes\<close>).
  \<^item> A raise is the left injection of \<open>exn + 'a\<close>; \<open>bindr\<close> sequences fallible calls, \<open>eachr\<close>
    is a loop whose body may raise.
  \<^item> A Python \<^verbatim>\<open>dict\<close> is an association list in insertion order with distinct keys.
\<close>

section \<open>Collections of facts\<close>

named_theorems res_simps \<open>when a composed fallible call succeeds\<close>
named_theorems dict_simps \<open>lookup and membership after a dictionary update\<close>

section \<open>Strings and bytes\<close>

type_synonym pystr = "nat list"
type_synonym byte = "8 word"
type_synonym bytes = "byte list"

definition lit :: "string \<Rightarrow> pystr" where
  "lit s = map of_char s"

abbreviation ch :: "char \<Rightarrow> nat" where
  "ch c \<equiv> of_char c"

definition asc :: "string \<Rightarrow> bytes" where
  "asc s = map of_char s"

lemma lit_inj [simp]: "lit a = lit b \<longleftrightarrow> a = b"
  by (simp add: lit_def inj_on_def inj_map_eq_map)

lemma length_lit [simp]: "length (lit a) = length a"
  by (simp add: lit_def)

lemma lit_Nil [simp]: "lit [] = []"
  by (simp add: lit_def)

lemma lit_Cons: "lit (c # s) = of_char c # lit s"
  by (simp add: lit_def)

lemma lit_append: "lit (a @ b) = lit a @ lit b"
  by (simp add: lit_def)

section \<open>Exceptions and fallible computations\<close>

text \<open>
  The exception classes the modelled files raise or let escape. \<open>SppError\<close> and
  \<open>UnsupportedError\<close> carry stage and reason, \<open>JsonInputError\<close> the reason; the free-text
  \<^verbatim>\<open>detail\<close> of the latter never reaches a verdict and is left out.
\<close>

datatype exn =
    JsonInputError string
  | SppError string string
  | UnsupportedError string string
  | JcsError string
  | BadCursor string
  | ValueError string
  | UnicodeEncodeError
  | UnicodeDecodeError
  | OverflowError
  | KeyError pystr
  | IndexError
  | ZeroDivisionError
  | ConfigError string
  | SystemExit string
  | TypeError
  | AttributeError
  | AssertionError

type_synonym 'a res = "exn + 'a"

definition bindr :: "'e + 'a \<Rightarrow> ('a \<Rightarrow> 'e + 'b) \<Rightarrow> 'e + 'b" where
  "bindr m f = (case m of Inl e \<Rightarrow> Inl e | Inr x \<Rightarrow> f x)"

lemma bindr_simps [simp]:
  "bindr (Inl e) f = Inl e"
  "bindr (Inr x) f = f x"
  by (simp_all add: bindr_def)

lemma bindr_Inr: "bindr m Inr = m"
  by (cases m) simp_all

lemma bindr_cong [fundef_cong]:
  "m = m' \<Longrightarrow> (\<And>x. m' = Inr x \<Longrightarrow> f x = f' x) \<Longrightarrow> bindr m f = bindr m' f'"
  by (cases m') auto

lemma bindr_eq_Inr [res_simps]: "bindr m f = Inr y \<longleftrightarrow> (\<exists>x. m = Inr x \<and> f x = Inr y)"
  by (cases m) auto

lemma bindr_eq_Inl: "bindr m f = Inl e \<longleftrightarrow> m = Inl e \<or> (\<exists>x. m = Inr x \<and> f x = Inl e)"
  by (cases m) auto

lemma bindr_assoc: "bindr (bindr m f) g = bindr m (\<lambda>x. bindr (f x) g)"
  by (cases m) auto

lemma if_Inl_eq_Inr [res_simps]: "(if b then Inl e else m) = Inr y \<longleftrightarrow> \<not> b \<and> m = Inr y"
  by auto

text \<open>A \<^verbatim>\<open>for\<close> loop over a list whose body only raises or continues.\<close>

primrec eachr :: "('a \<Rightarrow> 'e + unit) \<Rightarrow> 'a list \<Rightarrow> 'e + unit" where
  "eachr f [] = Inr ()"
| "eachr f (x # xs) = bindr (f x) (\<lambda>_. eachr f xs)"

lemma eachr_eq_Inr [res_simps]: "eachr f xs = Inr u \<longleftrightarrow> (\<forall>x\<in>set xs. f x = Inr ())"
  by (induction xs) (auto simp: bindr_eq_Inr)

text \<open>A comprehension whose element expression may raise, and \<^verbatim>\<open>sep.join\<close>.\<close>

primrec mapr :: "('a \<Rightarrow> 'e + 'b) \<Rightarrow> 'a list \<Rightarrow> 'e + 'b list" where
  "mapr f [] = Inr []"
| "mapr f (x # xs) = bindr (f x) (\<lambda>y. bindr (mapr f xs) (\<lambda>ys. Inr (y # ys)))"

lemma mapr_cong [fundef_cong]:
  "xs = ys \<Longrightarrow> (\<And>x. x \<in> set ys \<Longrightarrow> f x = g x) \<Longrightarrow> mapr f xs = mapr g ys"
  by (induction ys arbitrary: xs) auto

lemma mapr_eq_Inr [res_simps]: "mapr f xs = Inr ys \<longleftrightarrow> list_all2 (\<lambda>x y. f x = Inr y) xs ys"
proof (induction xs arbitrary: ys)
  case Nil
  then show ?case by auto
next
  case (Cons x xs)
  then show ?case by (cases ys) (auto simp: bindr_eq_Inr)
qed

fun join :: "'a list \<Rightarrow> 'a list list \<Rightarrow> 'a list" where
  "join sep [] = []"
| "join sep [x] = x"
| "join sep (x # y # xs) = x @ sep @ join sep (y # xs)"

lemma join_Cons: "join sep (x # xs) = x @ concat (map (\<lambda>y. sep @ y) xs)"
  by (induction xs arbitrary: x) auto

section \<open>Dictionaries as association lists in insertion order\<close>

type_synonym 'v pydict = "(pystr \<times> 'v) list"

definition dhas :: "('k \<times> 'v) list \<Rightarrow> 'k \<Rightarrow> bool" where
  "dhas d k = (k \<in> set (map fst d))"

abbreviation dget :: "('k \<times> 'v) list \<Rightarrow> 'k \<Rightarrow> 'v option" where
  "dget d k \<equiv> map_of d k"

text \<open>\<^verbatim>\<open>d[k] = v\<close>: an existing key keeps its position, a new one goes to the end.\<close>

primrec dset :: "('k \<times> 'v) list \<Rightarrow> 'k \<Rightarrow> 'v \<Rightarrow> ('k \<times> 'v) list" where
  "dset [] k v = [(k, v)]"
| "dset (p # d) k v = (if fst p = k then (k, v) # d else p # dset d k v)"

definition wf_dict :: "('k \<times> 'v) list \<Rightarrow> bool" where
  "wf_dict d = distinct (map fst d)"

lemma dhas_iff_dget: "dhas d k \<longleftrightarrow> dget d k \<noteq> None"
  by (simp add: dhas_def map_of_eq_None_iff)

lemma dget_dset [dict_simps]: "dget (dset d k v) k' = (if k' = k then Some v else dget d k')"
  by (induction d) auto

lemma set_keys_dset: "set (map fst (dset d k v)) = insert k (set (map fst d))"
  by (induction d) auto

lemma dhas_dset [dict_simps]: "dhas (dset d k v) k' \<longleftrightarrow> k' = k \<or> dhas d k'"
  using set_keys_dset [of d k v] by (auto simp: dhas_def)

lemma wf_dset: "wf_dict d \<Longrightarrow> wf_dict (dset d k v)"
proof (induction d)
  case Nil
  then show ?case by (simp add: wf_dict_def)
next
  case (Cons p d)
  then show ?case using set_keys_dset [of d k v] by (auto simp: wf_dict_def)
qed

lemma dset_append: "\<not> dhas d k \<Longrightarrow> dset d k v = d @ [(k, v)]"
  by (induction d) (auto simp: dhas_def)

lemma wf_filter: "wf_dict d \<Longrightarrow> wf_dict (filter Q d)"
  by (simp add: wf_dict_def distinct_map_filter)

lemma dget_filter_key:
  "dget (filter (\<lambda>p. Q (fst p)) d) k = (if Q k then dget d k else None)"
  by (induction d) auto

lemma dhas_filter_key: "dhas (filter (\<lambda>p. Q (fst p)) d) k \<longleftrightarrow> dhas d k \<and> Q k"
  by (auto simp: dhas_def)

section \<open>Codecs\<close>

text \<open>
  The contract of an encoder/decoder pair. A \<open>codec\<close> decodes what it encodes; a
  \<open>strict_codec\<close> accepts nothing but encodings, so a decoded value determines its input.
  UTF-8, hexadecimal, little-endian integers and pagination cursors are instances.
\<close>

locale codec =
  fixes enc :: "'a \<Rightarrow> 'b" and dec :: "'b \<Rightarrow> 'e + 'a" and ok :: "'a \<Rightarrow> bool"
  assumes dec_enc: "ok x \<Longrightarrow> dec (enc x) = Inr x"
begin

lemma enc_inj: "ok x \<Longrightarrow> ok y \<Longrightarrow> enc x = enc y \<Longrightarrow> x = y"
  by (metis dec_enc sum.inject(2))

lemma enc_eq_iff: "ok x \<Longrightarrow> ok y \<Longrightarrow> enc x = enc y \<longleftrightarrow> x = y"
  using enc_inj by blast

end

locale strict_codec = codec enc dec ok
  for enc :: "'a \<Rightarrow> 'b" and dec :: "'b \<Rightarrow> 'e + 'a" and ok :: "'a \<Rightarrow> bool" +
  assumes dec_strict: "dec b = Inr x \<Longrightarrow> ok x \<and> enc x = b"
begin

lemma dec_eq_iff: "dec b = Inr x \<longleftrightarrow> ok x \<and> enc x = b"
  by (metis dec_strict dec_enc)

lemma dec_inj: "dec b = Inr x \<Longrightarrow> dec b' = Inr x \<Longrightarrow> b = b'"
  by (metis dec_strict)

end

section \<open>Lists\<close>

lemma dropWhile_length_le [simp]: "length (dropWhile P xs) \<le> length xs"
  by (induction xs) auto

lemma dropWhile_append_stop:
  "list_all P xs \<Longrightarrow> (ys = [] \<or> \<not> P (hd ys)) \<Longrightarrow> dropWhile P (xs @ ys) = ys"
  by (induction xs) (auto simp: dropWhile_eq_self_iff)

lemma takeWhile_append_stop:
  "list_all P xs \<Longrightarrow> (ys = [] \<or> \<not> P (hd ys)) \<Longrightarrow> takeWhile P (xs @ ys) = xs"
proof (induction xs)
  case Nil
  then show ?case by (cases ys) auto
qed auto

lemma take_diff_append: "take (length (xs @ ys) - length ys) (xs @ ys) = xs"
  by simp

end
