(* ===== verification/Py_Numerals.thy ===== *)
theory Py_Numerals
  imports Prelude
begin

text \<open>
  Positional numerals as the Python built-ins print and read them: \<^verbatim>\<open>str(n)\<close>, \<^verbatim>\<open>f"{n:064x}"\<close>,
  \<^verbatim>\<open>int(s)\<close> and \<^verbatim>\<open>int(s, 16)\<close>; byte strings as hexadecimal (\<^verbatim>\<open>bytes.hex\<close>, \<^verbatim>\<open>bytes.fromhex\<close>)
  and as integers (\<^verbatim>\<open>int.from_bytes\<close>, \<^verbatim>\<open>int.to_bytes\<close>).
\<close>

section \<open>Digits in a base\<close>

fun to_digits :: "nat \<Rightarrow> nat \<Rightarrow> nat list" where
  "to_digits b n = (if b < 2 \<or> n < b then [n] else to_digits b (n div b) @ [n mod b])"

declare to_digits.simps [simp del]

definition of_digits :: "nat \<Rightarrow> nat list \<Rightarrow> nat" where
  "of_digits b ds = foldl (\<lambda>acc d. acc * b + d) 0 ds"

lemma of_digits_Nil [simp]: "of_digits b [] = 0"
  by (simp add: of_digits_def)

lemma of_digits_snoc [simp]: "of_digits b (ds @ [d]) = of_digits b ds * b + d"
  by (simp add: of_digits_def)

lemma of_digits_single [simp]: "of_digits b [d] = d"
  by (simp add: of_digits_def)

lemma of_digits_append: "of_digits b (xs @ ys) = of_digits b xs * b ^ length ys + of_digits b ys"
proof (induction ys rule: rev_induct)
  case (snoc y ys)
  have "of_digits b (xs @ ys @ [y]) = of_digits b (xs @ ys) * b + y"
    using of_digits_snoc [of b "xs @ ys" y] by simp
  then show ?case using snoc by (simp add: algebra_simps)
qed simp

lemma of_digits_Cons: "of_digits b (d # ds) = d * b ^ length ds + of_digits b ds"
  using of_digits_append [of b "[d]" ds] by simp

lemma of_digits_zeros [simp]: "of_digits b (replicate n 0 @ ds) = of_digits b ds"
  by (induction n) (simp_all add: of_digits_Cons)

lemma of_digits_append_zeros: "of_digits b (ds @ replicate n 0) = of_digits b ds * b ^ n"
  using of_digits_zeros [of b n "[]"] by (simp add: of_digits_append)

lemma of_digits_less: "list_all (\<lambda>d. d < b) ds \<Longrightarrow> of_digits b ds < b ^ length ds"
proof (induction ds rule: rev_induct)
  case (snoc d ds)
  then have "of_digits b ds + 1 \<le> b ^ length ds" and "d < b" by auto
  then have "(of_digits b ds + 1) * b \<le> b ^ length ds * b" by (intro mult_right_mono) auto
  then show ?case using \<open>d < b\<close> by (simp add: algebra_simps)
qed simp

lemma of_to_digits: "of_digits b (to_digits b n) = n"
proof (induction b n rule: to_digits.induct)
  case (1 b n)
  then show ?case
    by (cases "b < 2 \<or> n < b") (simp_all add: to_digits.simps [of b n])
qed

lemma to_digits_less: "2 \<le> b \<Longrightarrow> list_all (\<lambda>d. d < b) (to_digits b n)"
proof (induction b n rule: to_digits.induct)
  case (1 b n)
  then show ?case
    by (cases "b < 2 \<or> n < b") (simp_all add: to_digits.simps [of b n])
qed

lemma to_digits_not_Nil [simp]: "to_digits b n \<noteq> []"
  by (subst to_digits.simps) simp

lemma hd_to_digits: "2 \<le> b \<Longrightarrow> hd (to_digits b n) = 0 \<longleftrightarrow> n = 0"
proof (induction b n rule: to_digits.induct)
  case (1 b n)
  show ?case
  proof (cases "b < 2 \<or> n < b")
    case True
    then show ?thesis by (simp add: to_digits.simps [of b n])
  next
    case False
    with 1 have "hd (to_digits b (n div b)) = 0 \<longleftrightarrow> n div b = 0" by simp
    moreover have "n div b \<noteq> 0" using False by (simp add: div_eq_0_iff)
    ultimately show ?thesis using False by (simp add: to_digits.simps [of b n])
  qed
qed

text \<open>A numeral without leading zero is the printed form of its value.\<close>

lemma to_of_digits:
  assumes "2 \<le> b" "list_all (\<lambda>d. d < b) ds" "ds \<noteq> []" "hd ds \<noteq> 0 \<or> length ds = 1"
  shows "to_digits b (of_digits b ds) = ds"
  using assms(2-)
proof (induction ds rule: rev_induct)
  case (snoc d ds)
  show ?case
  proof (cases "ds = []")
    case True
    then show ?thesis using snoc.prems by (simp add: to_digits.simps)
  next
    case False
    then have hd: "hd ds \<noteq> 0" using snoc.prems by (cases ds) auto
    then have "of_digits b ds \<noteq> 0"
      using False assms(1) by (cases ds) (auto simp: of_digits_Cons)
    then have "b \<le> of_digits b ds * b + d" by (cases "of_digits b ds") auto
    moreover have "(of_digits b ds * b + d) div b = of_digits b ds" "(of_digits b ds * b + d) mod b = d"
      using snoc.prems assms(1) by simp_all
    ultimately show ?thesis
      using snoc hd False assms(1) by (simp add: to_digits.simps [of b "of_digits b ds * b + d"])
  qed
qed simp

lemma length_to_digits_le:
  assumes "2 \<le> b" "n < b ^ k" "0 < k"
  shows "length (to_digits b n) \<le> k"
  using assms(2,3)
proof (induction k arbitrary: n)
  case (Suc k)
  show ?case
  proof (cases "n < b")
    case True
    then show ?thesis by (simp add: to_digits.simps [of b n])
  next
    case False
    then have "k \<noteq> 0" using Suc.prems by (cases k) auto
    moreover have "n div b < b ^ k" using Suc.prems assms(1) by (simp add: div_less_iff_less_mult mult.commute)
    ultimately have "length (to_digits b (n div b)) \<le> k" using Suc.IH by simp
    then show ?thesis using False assms(1) by (subst to_digits.simps) simp
  qed
qed simp

section \<open>Printed digits\<close>

definition dig_char :: "nat \<Rightarrow> nat" where
  "dig_char d = (if d < 10 then 48 + d else 87 + d)"

definition is_digit :: "nat \<Rightarrow> bool" where
  "is_digit c = (48 \<le> c \<and> c \<le> 57)"

definition is_lower_hex :: "nat \<Rightarrow> bool" where
  "is_lower_hex c = (is_digit c \<or> 97 \<le> c \<and> c \<le> 102)"

definition is_hex :: "nat \<Rightarrow> bool" where
  "is_hex c = (is_lower_hex c \<or> 65 \<le> c \<and> c \<le> 70)"

definition hex_val :: "nat \<Rightarrow> nat" where
  "hex_val c = (if c \<le> 57 then c - 48 else if c \<le> 70 then c - 55 else c - 87)"

lemma hex_val_dig_char [simp]: "d < 16 \<Longrightarrow> hex_val (dig_char d) = d"
  by (auto simp: hex_val_def dig_char_def)

lemma is_digit_dig_char [simp]: "d < 10 \<Longrightarrow> is_digit (dig_char d)"
  by (auto simp: is_digit_def dig_char_def)

lemma is_lower_hex_dig_char [simp]: "d < 16 \<Longrightarrow> is_lower_hex (dig_char d)"
  by (auto simp: is_lower_hex_def is_digit_def dig_char_def)

lemma hex_val_less [simp]: "is_hex c \<Longrightarrow> hex_val c < 16"
  by (auto simp: is_hex_def is_lower_hex_def is_digit_def hex_val_def)

lemma hex_val_digit [simp]: "is_digit c \<Longrightarrow> hex_val c < 10"
  by (auto simp: is_digit_def hex_val_def)

lemma dig_char_hex_val [simp]: "is_lower_hex c \<Longrightarrow> dig_char (hex_val c) = c"
  by (auto simp: is_lower_hex_def is_digit_def hex_val_def dig_char_def)

lemma digit_is_hex [simp]: "is_digit c \<Longrightarrow> is_lower_hex c" "is_lower_hex c \<Longrightarrow> is_hex c"
  by (auto simp: is_lower_hex_def is_hex_def)

text \<open>\<^verbatim>\<open>str(n)\<close> for a natural number, and the value of a digit string.\<close>

definition str_nat :: "nat \<Rightarrow> pystr" where
  "str_nat n = map dig_char (to_digits 10 n)"

definition str_int :: "int \<Rightarrow> pystr" where
  "str_int i = (if i < 0 then ch CHR ''-'' # str_nat (nat (- i)) else str_nat (nat i))"

definition nat_of_digits :: "pystr \<Rightarrow> nat" where
  "nat_of_digits s = of_digits 10 (map hex_val s)"

definition nat_of_hex :: "pystr \<Rightarrow> nat" where
  "nat_of_hex s = of_digits 16 (map hex_val s)"

lemma str_nat_digits: "list_all is_digit (str_nat n)"
  using to_digits_less [of 10 n] by (auto simp: str_nat_def list_all_iff)

lemma str_nat_not_Nil [simp]: "str_nat n \<noteq> []"
  by (simp add: str_nat_def)

lemma nat_of_str_nat [simp]: "nat_of_digits (str_nat n) = n"
proof -
  have "map (hex_val \<circ> dig_char) (to_digits 10 n) = to_digits 10 n"
    using to_digits_less [of 10 n] by (intro map_idI) (auto simp: list_all_iff)
  then show ?thesis by (simp add: nat_of_digits_def str_nat_def of_to_digits)
qed

lemma str_nat_inj: "str_nat m = str_nat n \<longleftrightarrow> m = n"
  by (metis nat_of_str_nat)

lemma hd_str_nat: "hd (str_nat n) = 48 \<longleftrightarrow> n = 0"
proof -
  have "hd (str_nat n) = dig_char (hd (to_digits 10 n))" by (simp add: str_nat_def hd_map)
  moreover have "dig_char d = 48 \<longleftrightarrow> d = 0" for d by (simp add: dig_char_def)
  ultimately show ?thesis using hd_to_digits [of 10 n] by simp
qed

lemma str_nat_zero [simp]: "str_nat 0 = [48]"
  by (simp add: str_nat_def to_digits.simps dig_char_def)

lemma length_str_nat_le: "n < 10 ^ k \<Longrightarrow> 0 < k \<Longrightarrow> length (str_nat n) \<le> k"
  using length_to_digits_le [of 10 n k] by (simp add: str_nat_def)

lemma str_nat_of_digits:
  assumes "list_all is_digit s" "s \<noteq> []" "hd s \<noteq> 48 \<or> length s = 1"
  shows "str_nat (nat_of_digits s) = s"
proof -
  have "list_all (\<lambda>d. d < 10) (map hex_val s)" using assms(1) by (auto simp: list_all_iff)
  moreover have "hd (map hex_val s) \<noteq> 0 \<or> length (map hex_val s) = 1"
    using assms by (cases s) (auto simp: hex_val_def is_digit_def)
  ultimately have "to_digits 10 (nat_of_digits s) = map hex_val s"
    using assms(2) by (simp add: nat_of_digits_def to_of_digits)
  then show ?thesis using assms(1) by (auto simp: str_nat_def list_all_iff intro!: map_idI)
qed

text \<open>\<^verbatim>\<open>f"{n:0wx}"\<close>: hexadecimal, padded on the left with zeros to width \<^verbatim>\<open>w\<close>.\<close>

definition fmt_hex :: "nat \<Rightarrow> nat \<Rightarrow> pystr" where
  "fmt_hex w n = (let ds = map dig_char (to_digits 16 n) in replicate (w - length ds) 48 @ ds)"

lemma nat_of_fmt_hex: "nat_of_hex (fmt_hex w n) = n"
proof -
  have "map (hex_val \<circ> dig_char) (to_digits 16 n) = to_digits 16 n"
    using to_digits_less [of 16 n] by (intro map_idI) (auto simp: list_all_iff)
  moreover have "hex_val 48 = 0" by (simp add: hex_val_def)
  ultimately show ?thesis by (simp add: nat_of_hex_def fmt_hex_def Let_def of_to_digits)
qed

section \<open>Bytes as hexadecimal\<close>

definition bytes_hex :: "bytes \<Rightarrow> pystr" where
  "bytes_hex bs = concat (map (\<lambda>b. [dig_char (unat b div 16), dig_char (unat b mod 16)]) bs)"

definition is_space :: "nat \<Rightarrow> bool" where
  "is_space c = (9 \<le> c \<and> c \<le> 13 \<or> c = 32)"

text \<open>\<^verbatim>\<open>bytes.fromhex\<close>: two digits per byte, ASCII white space between bytes is skipped.\<close>

fun fromhex :: "pystr \<Rightarrow> exn + bytes" where
  "fromhex [] = Inr []"
| "fromhex [a] = (if is_space a then Inr [] else Inl (ValueError ''non-hexadecimal number''))"
| "fromhex (a # b # s) =
     (if is_space a then fromhex (b # s)
      else if is_hex a \<and> is_hex b
        then bindr (fromhex s) (\<lambda>bs. Inr (of_nat (hex_val a * 16 + hex_val b) # bs))
      else Inl (ValueError ''non-hexadecimal number''))"

lemma length_bytes_hex [simp]: "length (bytes_hex bs) = 2 * length bs"
  by (induction bs) (auto simp: bytes_hex_def)

lemma bytes_hex_Cons: "bytes_hex (b # bs) = dig_char (unat b div 16) # dig_char (unat b mod 16) # bytes_hex bs"
  by (simp add: bytes_hex_def)

lemma unat_byte_less [simp]: "unat (b :: byte) < 256"
  using unsigned_less [of b, where ?'a = nat] by simp

lemma unat_byte_of_nat: "unat (of_nat n :: byte) = n mod 256"
  by (simp add: unat_of_nat)

lemma byte_of_unat_split: "of_nat (unat b div 16 * 16 + unat b mod 16) = (b :: byte)"
  by simp

lemma not_space_hex [simp]: "is_hex c \<Longrightarrow> \<not> is_space c"
  by (auto simp: is_hex_def is_lower_hex_def is_digit_def is_space_def)

lemma unat_byte_div16 [simp]: "unat (b :: byte) div 16 < 16"
  using unat_byte_less [of b] by linarith

lemma bytes_hex_lower: "list_all is_lower_hex (bytes_hex bs)"
  by (induction bs) (auto simp: bytes_hex_Cons bytes_hex_def)

lemma fromhex_bytes_hex [simp]: "fromhex (bytes_hex bs) = Inr bs"
proof (induction bs)
  case Nil
  then show ?case by (simp add: bytes_hex_def)
next
  case (Cons b bs)
  then show ?case
    by (simp add: bytes_hex_Cons del: of_nat_add of_nat_mult)
qed

text \<open>On lower-case digits of even length \<open>fromhex\<close> is total and inverted by \<open>bytes_hex\<close>.\<close>

lemma fromhex_lower:
  "list_all is_lower_hex s \<Longrightarrow> even (length s) \<Longrightarrow> \<exists>bs. fromhex s = Inr bs \<and> bytes_hex bs = s \<and> 2 * length bs = length s"
proof (induction s rule: fromhex.induct)
  case (3 a b s)
  then obtain bs where bs: "fromhex s = Inr bs" "bytes_hex bs = s" "2 * length bs = length s" by auto
  have ab: "is_hex a" "is_hex b" using 3 by auto
  define v where "v = hex_val a * 16 + hex_val b"
  have "v < 256" "v div 16 = hex_val a" "v mod 16 = hex_val b"
    using hex_val_less [OF ab(1)] hex_val_less [OF ab(2)] by (auto simp: v_def)
  then show ?case
    using bs ab 3 by (simp add: bytes_hex_Cons unat_byte_of_nat v_def [symmetric] del: of_nat_add of_nat_mult)
qed (auto simp: bytes_hex_def)

interpretation hexc: codec bytes_hex fromhex "\<lambda>_. True"
  by unfold_locales simp

section \<open>Bytes as integers\<close>

definition from_le :: "bytes \<Rightarrow> nat" where
  "from_le bs = foldr (\<lambda>b acc. unat b + 256 * acc) bs 0"

definition from_be :: "bytes \<Rightarrow> nat" where
  "from_be bs = from_le (rev bs)"

primrec to_le :: "nat \<Rightarrow> nat \<Rightarrow> bytes" where
  "to_le 0 x = []"
| "to_le (Suc n) x = of_nat x # to_le n (x div 256)"

lemma from_le_simps [simp]:
  "from_le [] = 0"
  "from_le (b # bs) = unat b + 256 * from_le bs"
  by (simp_all add: from_le_def)

lemma length_to_le [simp]: "length (to_le n x) = n"
  by (induction n arbitrary: x) auto

lemma from_le_less: "from_le bs < 256 ^ length bs"
proof (induction bs)
  case (Cons b bs)
  then have "256 * (from_le bs + 1) \<le> 256 * 256 ^ length bs" by (intro mult_left_mono) auto
  then have "256 * from_le bs + 256 \<le> 256 ^ length (b # bs)" by simp
  moreover have "unat b < 256" by (rule unat_byte_less)
  ultimately show ?case by (simp only: from_le_simps)
qed simp

lemma from_to_le: "x < 256 ^ n \<Longrightarrow> from_le (to_le n x) = x"
proof (induction n arbitrary: x)
  case (Suc n)
  then have "x div 256 < 256 ^ n" by (simp add: div_less_iff_less_mult mult.commute)
  then show ?case using Suc by (simp add: unat_byte_of_nat)
qed simp

lemma to_from_le: "to_le (length bs) (from_le bs) = bs"
proof (induction bs)
  case (Cons b bs)
  have "(unat b + 256 * from_le bs) div 256 = from_le bs"
    using unat_byte_less [of b] by simp
  moreover have "of_nat (unat b + 256 * from_le bs) = b"
    by (simp add: word_unat_eq_iff unat_byte_of_nat del: of_nat_add of_nat_mult)
  ultimately show ?case using Cons by (simp del: of_nat_add of_nat_mult)
qed simp

lemma from_le_inj: "length bs = length cs \<Longrightarrow> from_le bs = from_le cs \<Longrightarrow> bs = cs"
  by (metis to_from_le)

end
