(* ===== verification/Binary64.thy ===== *)
theory Binary64
  imports Complex_Main Py_Numerals
begin

text \<open>
  Python's \<^verbatim>\<open>float\<close> as the verifier uses it: IEEE-754 binary64 values, the correctly rounded
  conversion \<^verbatim>\<open>float(token)\<close> (round half to even, overflow to infinity), \<^verbatim>\<open>is_integer\<close>, \<^verbatim>\<open>int\<close>
  and \<^verbatim>\<open>repr\<close> (shortest decimal that reads back as the same value).

  \<open>FFin neg m e\<close> is the value \<open>(-1)^neg * m * 2^e\<close> in its unique canonical form
  (\<open>wf64\<close>: \<open>m < 2^53\<close>, and \<open>2^52 \<le> m\<close> unless \<open>e\<close> is the least exponent \<open>-1074\<close>).
\<close>

section \<open>Values\<close>

datatype binary64 = FFin bool nat int | FInf bool | FNaN

fun wf64 :: "binary64 \<Rightarrow> bool" where
  "wf64 (FFin neg m e) = (m < 2 ^ 53 \<and> - 1074 \<le> e \<and> e \<le> 971 \<and> (2 ^ 52 \<le> m \<or> e = - 1074))"
| "wf64 _ = True"

fun isfinite :: "binary64 \<Rightarrow> bool" where
  "isfinite (FFin _ _ _) = True"
| "isfinite _ = False"

fun is_zero :: "binary64 \<Rightarrow> bool" where
  "is_zero (FFin _ m _) = (m = 0)"
| "is_zero _ = False"

fun is_neg :: "binary64 \<Rightarrow> bool" where
  "is_neg (FFin neg m _) = (neg \<and> m \<noteq> 0)"
| "is_neg (FInf neg) = neg"
| "is_neg FNaN = False"

fun fabs :: "binary64 \<Rightarrow> binary64" where
  "fabs (FFin _ m e) = FFin False m e"
| "fabs (FInf _) = FInf False"
| "fabs FNaN = FNaN"

definition f64_one :: binary64 where
  "f64_one = FFin False (2 ^ 52) (- 52)"

text \<open>\<open>m * 2^e\<close> as a fraction of natural numbers.\<close>

definition num2 :: "nat \<Rightarrow> int \<Rightarrow> nat" where
  "num2 m e = (if 0 \<le> e then m * 2 ^ nat e else m)"

definition den2 :: "int \<Rightarrow> nat" where
  "den2 e = (if 0 \<le> e then 1 else 2 ^ nat (- e))"

fun is_integer :: "binary64 \<Rightarrow> bool" where
  "is_integer (FFin _ m e) = (num2 m e mod den2 e = 0)"
| "is_integer _ = False"

text \<open>\<^verbatim>\<open>int(x)\<close> of a finite value: truncation towards zero.\<close>

fun int_of_f64 :: "binary64 \<Rightarrow> int" where
  "int_of_f64 (FFin neg m e) = (let k = int (num2 m e div den2 e) in if neg then - k else k)"
| "int_of_f64 _ = 0"

section \<open>Correct rounding\<close>

fun ilog2 :: "nat \<Rightarrow> nat" where
  "ilog2 n = (if n < 2 then 0 else Suc (ilog2 (n div 2)))"

declare ilog2.simps [simp del]

text \<open>\<open>flog2 n d\<close> is the exponent \<open>E\<close> with \<open>2^E \<le> n/d < 2^(E+1)\<close>.\<close>

definition flog2 :: "nat \<Rightarrow> nat \<Rightarrow> int" where
  "flog2 n d =
     (let e = int (ilog2 n) - int (ilog2 d) in
      if d * num2 1 e \<le> n * den2 e then e else e - 1)"

definition round_half_even :: "nat \<Rightarrow> nat \<Rightarrow> nat" where
  "round_half_even n d =
     (let q = n div d; r = n mod d in
      if d < 2 * r \<or> (2 * r = d \<and> odd q) then q + 1 else q)"

definition round64 :: "bool \<Rightarrow> nat \<Rightarrow> nat \<Rightarrow> binary64" where
  "round64 neg n d =
     (if n = 0 then FFin neg 0 (- 1074)
      else let e = max (flog2 n d - 52) (- 1074);
               m = round_half_even (n * den2 e) (d * num2 1 e);
               (m', e') = (if m = 2 ^ 53 then (2 ^ 52, e + 1) else (m, e))
           in if 971 < e' then FInf neg else FFin neg m' e')"

text \<open>The decimal \<open>w * 10^t\<close> and an integer as binary64.\<close>

definition num10 :: "nat \<Rightarrow> int \<Rightarrow> nat" where
  "num10 w t = (if 0 \<le> t then w * 10 ^ nat t else w)"

definition den10 :: "int \<Rightarrow> nat" where
  "den10 t = (if 0 \<le> t then 1 else 10 ^ nat (- t))"

definition float_of_decimal :: "bool \<Rightarrow> nat \<Rightarrow> int \<Rightarrow> binary64" where
  "float_of_decimal neg w t = round64 neg (num10 w t) (den10 t)"

text \<open>\<^verbatim>\<open>float(i)\<close> for an \<^verbatim>\<open>int\<close>: raises \<^verbatim>\<open>OverflowError\<close> instead of returning infinity.\<close>

definition float_of_int :: "int \<Rightarrow> exn + binary64" where
  "float_of_int i =
     (let x = round64 (i < 0) (nat \<bar>i\<bar>) 1 in
      if isfinite x then Inr x else Inl OverflowError)"

section \<open>Reading a decimal token\<close>

text \<open>
  \<^verbatim>\<open>float(token)\<close> on a token of the JSON number grammar: sign, integer digits, optional
  fraction, optional exponent.
\<close>

definition strip_minus :: "pystr \<Rightarrow> bool \<times> pystr" where
  "strip_minus s = (case s of c # r \<Rightarrow> if c = ch CHR ''-'' then (True, r) else (False, s) | [] \<Rightarrow> (False, s))"

definition tok_frac :: "pystr \<Rightarrow> pystr \<times> pystr" where
  "tok_frac s = (case s of c # r \<Rightarrow>
     if c = ch CHR ''.'' then (takeWhile is_digit r, dropWhile is_digit r) else ([], s)
   | [] \<Rightarrow> ([], s))"

definition tok_exp :: "pystr \<Rightarrow> int" where
  "tok_exp s = (case s of [] \<Rightarrow> 0 | c # r \<Rightarrow>
     (case r of [] \<Rightarrow> 0 | d # r' \<Rightarrow>
        if d = ch CHR ''-'' then - int (nat_of_digits r')
        else if d = ch CHR ''+'' then int (nat_of_digits r')
        else int (nat_of_digits r)))"

definition py_float :: "pystr \<Rightarrow> binary64" where
  "py_float tok =
     (let (neg, body) = strip_minus tok;
          ip = takeWhile is_digit body;
          (fp, rest) = tok_frac (dropWhile is_digit body)
      in float_of_decimal neg (nat_of_digits (ip @ fp)) (tok_exp rest - int (length fp)))"

section \<open>Shortest decimal digits and repr\<close>

text \<open>\<open>flog10 n d\<close> is the exponent \<open>p\<close> with \<open>10^p \<le> n/d < 10^(p+1)\<close>.\<close>

definition flog10 :: "nat \<Rightarrow> nat \<Rightarrow> int" where
  "flog10 n d =
     (if d \<le> n then int (length (to_digits 10 (n div d))) - 1
      else - int (length (to_digits 10 ((d - 1) div n))))"

text \<open>
  The candidates with \<open>k\<close> significant digits are the neighbours \<open>s\<close> and \<open>s + 1\<close> of
  \<open>n/d * 10^t\<close>, \<open>t = k - 1 - p\<close>; one is taken if it reads back as the same value, the
  nearer one if both do.
\<close>

definition pick_digits :: "nat \<Rightarrow> int \<Rightarrow> nat \<Rightarrow> (nat \<times> int) option" where
  "pick_digits m e k =
     (let n = num2 m e; d = den2 e; t = int k - 1 - flog10 n d;
          a = n * num10 1 t; b = d * den10 t; s = a div b; r = a mod b;
          x = FFin False m e;
          lo = (float_of_decimal False s (- t) = x);
          hi = (float_of_decimal False (s + 1) (- t) = x)
      in if lo \<and> hi then
           (if 2 * r < b \<or> (2 * r = b \<and> even s) then Some (s, - t) else Some (s + 1, - t))
         else if lo then Some (s, - t)
         else if hi then Some (s + 1, - t)
         else None)"

fun shortest_from :: "nat \<Rightarrow> nat \<Rightarrow> int \<Rightarrow> nat \<Rightarrow> nat \<times> int" where
  "shortest_from 0 m e k = (num2 m e, 0)"
| "shortest_from (Suc fuel) m e k =
     (case pick_digits m e k of Some r \<Rightarrow> r | None \<Rightarrow> shortest_from fuel m e (Suc k))"

definition shortest :: "nat \<Rightarrow> int \<Rightarrow> nat \<times> int" where
  "shortest m e = shortest_from 17 m e 1"

definition rstrip0 :: "pystr \<Rightarrow> pystr" where
  "rstrip0 s = rev (dropWhile (\<lambda>c. c = ch CHR ''0'') (rev s))"

text \<open>Significant digits without trailing zeros and the exponent of the first digit.\<close>

definition repr_digits :: "nat \<Rightarrow> int \<Rightarrow> pystr \<times> int" where
  "repr_digits m e =
     (let (w, t) = shortest m e; ds = str_nat w
      in (rstrip0 ds, t + int (length ds) - 1))"

definition exp2d :: "nat \<Rightarrow> pystr" where
  "exp2d n = (let s = str_nat n in if length s < 2 then ch CHR ''0'' # s else s)"

text \<open>\<^verbatim>\<open>repr(x)\<close> of a finite positive \<open>x\<close>: fixed notation for \<open>-4 \<le> exp < 16\<close>, else scientific.\<close>

definition repr_pos :: "nat \<Rightarrow> int \<Rightarrow> pystr" where
  "repr_pos m e =
     (let (ds, p) = repr_digits m e; k = length ds in
      if - 4 \<le> p \<and> p < 16 then
        (if p < 0 then lit ''0.'' @ replicate (nat (- p - 1)) (ch CHR ''0'') @ ds
         else if int k \<le> p + 1 then ds @ replicate (nat (p + 1) - k) (ch CHR ''0'') @ lit ''.0''
         else take (nat (p + 1)) ds @ lit ''.'' @ drop (nat (p + 1)) ds)
      else
        (if k = 1 then ds else take 1 ds @ lit ''.'' @ drop 1 ds) @ lit ''e''
        @ (if p < 0 then lit ''-'' @ exp2d (nat (- p)) else lit ''+'' @ exp2d (nat p)))"

end
