(* ===== verification/Utf.thy ===== *)
theory Utf
  imports Py_Numerals
begin

text \<open>
  The two encodings the verifier uses: strict UTF-8 (\<^verbatim>\<open>bytes.decode("utf-8")\<close>,
  \<^verbatim>\<open>str.encode("utf-8")\<close>) and UTF-16-BE as the sort key of object members
  (\<^verbatim>\<open>k.encode("utf-16-be")\<close>). The decoder rejects overlong forms, surrogates and values above
  \<^verbatim>\<open>U+10FFFF\<close>; both encoders raise on surrogates.
\<close>

definition is_surrogate :: "nat \<Rightarrow> bool" where
  "is_surrogate c = (0xD800 \<le> c \<and> c \<le> 0xDFFF)"

definition scalar :: "nat \<Rightarrow> bool" where
  "scalar c = (c \<le> 0x10FFFF \<and> \<not> is_surrogate c)"

section \<open>UTF-8\<close>

definition utf8_char :: "nat \<Rightarrow> bytes" where
  "utf8_char c =
     (if c < 0x80 then [of_nat c]
      else if c < 0x800 then [of_nat (0xC0 + c div 64), of_nat (0x80 + c mod 64)]
      else if c < 0x10000 then
        [of_nat (0xE0 + c div 4096), of_nat (0x80 + c div 64 mod 64), of_nat (0x80 + c mod 64)]
      else
        [of_nat (0xF0 + c div 262144), of_nat (0x80 + c div 4096 mod 64),
         of_nat (0x80 + c div 64 mod 64), of_nat (0x80 + c mod 64)])"

definition utf8_bytes :: "pystr \<Rightarrow> bytes" where
  "utf8_bytes s = concat (map utf8_char s)"

definition utf8_encode :: "pystr \<Rightarrow> exn + bytes" where
  "utf8_encode s = (if list_all scalar s then Inr (utf8_bytes s) else Inl UnicodeEncodeError)"

definition is_cont :: "byte \<Rightarrow> bool" where
  "is_cont b = (0x80 \<le> unat b \<and> unat b < 0xC0)"

definition tail6 :: "byte \<Rightarrow> nat" where
  "tail6 b = unat b - 0x80"

definition utf8_next :: "bytes \<Rightarrow> (nat \<times> bytes) option" where
  "utf8_next bs = (case bs of [] \<Rightarrow> None | a # r \<Rightarrow>
     (let x = unat a in
      if x < 0x80 then Some (x, r)
      else if 0xC2 \<le> x \<and> x < 0xE0 then
        (case r of b # r1 \<Rightarrow>
           if is_cont b then Some ((x - 0xC0) * 64 + tail6 b, r1) else None
         | _ \<Rightarrow> None)
      else if 0xE0 \<le> x \<and> x < 0xF0 then
        (case r of b # c # r1 \<Rightarrow>
           (let cp = (x - 0xE0) * 4096 + tail6 b * 64 + tail6 c in
            if is_cont b \<and> is_cont c \<and> 0x800 \<le> cp \<and> \<not> is_surrogate cp then Some (cp, r1) else None)
         | _ \<Rightarrow> None)
      else if 0xF0 \<le> x \<and> x < 0xF5 then
        (case r of b # c # d # r1 \<Rightarrow>
           (let cp = (x - 0xF0) * 262144 + tail6 b * 4096 + tail6 c * 64 + tail6 d in
            if is_cont b \<and> is_cont c \<and> is_cont d \<and> 0x10000 \<le> cp \<and> cp \<le> 0x10FFFF
            then Some (cp, r1) else None)
         | _ \<Rightarrow> None)
      else None))"

lemma utf8_next_shorter: "utf8_next bs = Some (c, r) \<Longrightarrow> length r < length bs"
  by (auto simp: utf8_next_def Let_def split: list.splits if_splits)

function utf8_decode :: "bytes \<Rightarrow> exn + pystr" where
  "utf8_decode bs =
     (if bs = [] then Inr []
      else case utf8_next bs of
        None \<Rightarrow> Inl UnicodeDecodeError
      | Some (c, r) \<Rightarrow> bindr (utf8_decode r) (\<lambda>s. Inr (c # s)))"
  by pat_completeness auto
termination
  by (relation "measure length") (auto dest: utf8_next_shorter)

declare utf8_decode.simps [simp del]

lemma cont_byte:
  assumes "n < 64"
  shows "is_cont (of_nat (0x80 + n))" "tail6 (of_nat (0x80 + n)) = n"
  using assms by (simp_all add: is_cont_def tail6_def unat_byte_of_nat del: of_nat_add)

lemma tail6_byte:
  assumes "is_cont b"
  shows "tail6 b < 64" "of_nat (0x80 + tail6 b) = b" "0x80 + tail6 b = unat b"
  using assms by (auto simp: is_cont_def tail6_def word_unat_eq_iff unat_byte_of_nat simp del: of_nat_add)

lemma split_sextets:
  "c div 4096 * 4096 + c div 64 mod 64 * 64 + c mod 64 = (c :: nat)"
  "c div 262144 * 262144 + c div 4096 mod 64 * 4096 + c div 64 mod 64 * 64 + c mod 64 = (c :: nat)"
proof -
  have "c div 4096 = c div 64 div 64" "c div 262144 = c div 4096 div 64"
    by (simp_all flip: div_mult2_eq)
  moreover have "c div 64 = c div 64 div 64 * 64 + c div 64 mod 64"
    "c div 4096 = c div 4096 div 64 * 64 + c div 4096 mod 64" by simp_all
  moreover have "c = c div 64 * 64 + c mod 64" by simp
  ultimately show "c div 4096 * 4096 + c div 64 mod 64 * 64 + c mod 64 = c"
    "c div 262144 * 262144 + c div 4096 mod 64 * 4096 + c div 64 mod 64 * 64 + c mod 64 = c"
    by linarith+
qed

text \<open>One code point: the decoder reads back what the encoder wrote, and nothing else.\<close>

lemma utf8_next_char:
  assumes "scalar c"
  shows "utf8_next (utf8_char c @ r) = Some (c, r)"
proof -
  have m: "c div 64 mod 64 < 64" "c mod 64 < 64" "c div 4096 mod 64 < 64" by simp_all
  note cb = cont_byte [OF m(1)] cont_byte [OF m(2)] cont_byte [OF m(3)]
  consider "c < 0x80" | "0x80 \<le> c" "c < 0x800" | "0x800 \<le> c" "c < 0x10000" | "0x10000 \<le> c" "c \<le> 0x10FFFF"
    using assms by (auto simp: scalar_def) linarith
  then show ?thesis
  proof cases
    case 1
    then show ?thesis by (simp add: utf8_char_def utf8_next_def Let_def unat_byte_of_nat)
  next
    case 2
    then have "c div 64 < 32" "2 \<le> c div 64" by auto
    then show ?thesis
      using 2 cb by (simp add: utf8_char_def utf8_next_def Let_def unat_byte_of_nat del: of_nat_add)
  next
    case 3
    then have "c div 4096 < 16" by auto
    moreover have "c div 4096 * 4096 + c div 64 mod 64 * 64 + c mod 64 = c" by (rule split_sextets)
    ultimately show ?thesis
      using 3 cb assms
      by (simp add: utf8_char_def utf8_next_def Let_def unat_byte_of_nat scalar_def del: of_nat_add)
  next
    case 4
    then have "c div 262144 < 5" by auto
    moreover have "c div 262144 * 262144 + c div 4096 mod 64 * 4096 + c div 64 mod 64 * 64 + c mod 64 = c"
      by (rule split_sextets)
    ultimately show ?thesis
      using 4 cb by (simp add: utf8_char_def utf8_next_def Let_def unat_byte_of_nat del: of_nat_add)
  qed
qed

lemma sextets_div_mod:
  fixes x p q t :: nat
  assumes "p < 64" "q < 64" "t < 64"
  shows "(x * 64 + p) div 64 = x" "(x * 64 + p) mod 64 = p"
    "(x * 4096 + p * 64 + q) div 4096 = x" "(x * 4096 + p * 64 + q) div 64 mod 64 = p"
    "(x * 4096 + p * 64 + q) mod 64 = q"
    "(x * 262144 + p * 4096 + q * 64 + t) div 262144 = x"
    "(x * 262144 + p * 4096 + q * 64 + t) div 4096 mod 64 = p"
    "(x * 262144 + p * 4096 + q * 64 + t) div 64 mod 64 = q"
    "(x * 262144 + p * 4096 + q * 64 + t) mod 64 = t"
proof -
  have two: "(y * 64 + z) div 64 = y" "(y * 64 + z) mod 64 = z" if "z < 64" for y z :: nat
    using that by simp_all
  have d: "n div 4096 = n div 64 div 64" "n div 262144 = n div 64 div 64 div 64" for n :: nat
    by (simp_all flip: div_mult2_eq)
  have r: "x * 4096 + p * 64 + q = (x * 64 + p) * 64 + q"
    "x * 262144 + p * 4096 + q * 64 + t = ((x * 64 + p) * 64 + q) * 64 + t" by simp_all
  show "(x * 64 + p) div 64 = x" "(x * 64 + p) mod 64 = p"
    "(x * 4096 + p * 64 + q) div 4096 = x" "(x * 4096 + p * 64 + q) div 64 mod 64 = p"
    "(x * 4096 + p * 64 + q) mod 64 = q"
    "(x * 262144 + p * 4096 + q * 64 + t) div 262144 = x"
    "(x * 262144 + p * 4096 + q * 64 + t) div 4096 mod 64 = p"
    "(x * 262144 + p * 4096 + q * 64 + t) div 64 mod 64 = q"
    "(x * 262144 + p * 4096 + q * 64 + t) mod 64 = t"
    unfolding r d using assms by (simp_all only: two)
qed

lemma of_nat_unat_shift: "k \<le> unat b \<Longrightarrow> of_nat (k + (unat b - k)) = (b :: byte)"
  by simp

lemma utf8_next_Some:
  assumes "utf8_next bs = Some (c, r)"
  shows "scalar c \<and> bs = utf8_char c @ r"
proof -
  obtain a s where bs: "bs = a # s" using assms by (cases bs) (auto simp: utf8_next_def)
  consider "unat a < 0x80" | "0xC2 \<le> unat a" "unat a < 0xE0" | "0xE0 \<le> unat a" "unat a < 0xF0"
    | "0xF0 \<le> unat a" "unat a < 0xF5"
    using assms by (auto simp: bs utf8_next_def Let_def split: if_splits)
  then show ?thesis
  proof cases
    case 1
    then show ?thesis
      using assms by (auto simp: bs utf8_next_def Let_def utf8_char_def scalar_def is_surrogate_def)
  next
    case 2
    then obtain b where s: "s = b # r" "is_cont b" "c = (unat a - 0xC0) * 64 + tail6 b"
      using assms by (auto simp: bs utf8_next_def Let_def split: list.splits if_splits)
    note t = tail6_byte [OF s(2)]
    have "0x80 \<le> c" "c < 0x800" using 2 t(1) s(3) by auto
    then show ?thesis
      using 2 t s sextets_div_mod [OF t(1) t(1) t(1)] of_nat_unat_shift [of "0xC0" a]
      by (auto simp: bs utf8_char_def scalar_def is_surrogate_def simp del: of_nat_add)
  next
    case 3
    then obtain b d where s: "s = b # d # r" "is_cont b" "is_cont d"
        "c = (unat a - 0xE0) * 4096 + tail6 b * 64 + tail6 d" "0x800 \<le> c" "\<not> is_surrogate c"
      using assms by (auto simp: bs utf8_next_def Let_def split: list.splits if_splits)
    note t = tail6_byte [OF s(2)] tail6_byte [OF s(3)]
    have "c < 0x10000" using 3 t s(4) by auto
    then show ?thesis
      using 3 t s sextets_div_mod [OF t(1) t(4) t(4)] of_nat_unat_shift [of "0xE0" a]
      by (auto simp: bs utf8_char_def scalar_def simp del: of_nat_add)
  next
    case 4
    then obtain b d e where s: "s = b # d # e # r" "is_cont b" "is_cont d" "is_cont e"
        "c = (unat a - 0xF0) * 262144 + tail6 b * 4096 + tail6 d * 64 + tail6 e"
        "0x10000 \<le> c" "c \<le> 0x10FFFF"
      using assms by (auto simp: bs utf8_next_def Let_def split: list.splits if_splits)
    note t = tail6_byte [OF s(2)] tail6_byte [OF s(3)] tail6_byte [OF s(4)]
    show ?thesis
      using 4 t s sextets_div_mod [OF t(1) t(4) t(7)] of_nat_unat_shift [of "0xF0" a]
      by (auto simp: bs utf8_char_def scalar_def is_surrogate_def simp del: of_nat_add)
  qed
qed

text \<open>Strings: UTF-8 is a strict codec on strings of scalar values.\<close>

lemma utf8_char_not_Nil [simp]: "utf8_char c \<noteq> []"
  by (simp add: utf8_char_def)

lemma utf8_bytes_simps [simp]:
  "utf8_bytes [] = []"
  "utf8_bytes (c # s) = utf8_char c @ utf8_bytes s"
  "utf8_bytes (s @ t) = utf8_bytes s @ utf8_bytes t"
  by (simp_all add: utf8_bytes_def)

lemma utf8_decode_bytes: "list_all scalar s \<Longrightarrow> utf8_decode (utf8_bytes s) = Inr s"
proof (induction s)
  case Nil
  then show ?case by (simp add: utf8_decode.simps)
next
  case (Cons c s)
  then show ?case
    by (simp add: utf8_decode.simps [of "utf8_char c @ utf8_bytes s"] utf8_next_char)
qed

lemma utf8_decode_strict: "utf8_decode bs = Inr s \<Longrightarrow> list_all scalar s \<and> utf8_bytes s = bs"
proof (induction bs arbitrary: s rule: utf8_decode.induct)
  case (1 bs)
  show ?case
  proof (cases "bs = []")
    case True
    then show ?thesis using "1.prems" by (simp add: utf8_decode.simps)
  next
    case False
    then obtain c r where n: "utf8_next bs = Some (c, r)"
      using "1.prems" by (auto simp: utf8_decode.simps [of bs] split: option.splits)
    then obtain t where "utf8_decode r = Inr t" "s = c # t"
      using "1.prems" False by (auto simp: utf8_decode.simps [of bs] res_simps)
    then show ?thesis using "1.IH" [OF False n] utf8_next_Some [OF n] by auto
  qed
qed

interpretation utf8: strict_codec utf8_bytes utf8_decode "list_all scalar"
  by unfold_locales (simp_all add: utf8_decode_bytes utf8_decode_strict)

section \<open>UTF-16-BE\<close>

definition be16 :: "nat \<Rightarrow> bytes" where
  "be16 u = [of_nat (u div 256), of_nat (u mod 256)]"

definition utf16_units :: "nat \<Rightarrow> nat list" where
  "utf16_units c =
     (if c < 0x10000 then [c]
      else [0xD800 + (c - 0x10000) div 1024, 0xDC00 + (c - 0x10000) mod 1024])"

definition utf16be :: "pystr \<Rightarrow> bytes" where
  "utf16be s = concat (map (\<lambda>c. concat (map be16 (utf16_units c))) s)"

definition utf16be_encode :: "pystr \<Rightarrow> exn + bytes" where
  "utf16be_encode s = (if list_all scalar s then Inr (utf16be s) else Inl UnicodeEncodeError)"

section \<open>Properties\<close>

text \<open>The strict UTF-8 decoder accepts a byte string exactly when it is the encoding of a string of
  Unicode scalar values, and returns that string; overlong forms, surrogates and values past
  U+10FFFF are refused.\<close>
theorem utf8_decode_exact: "utf8_decode bs = Inr s \<longleftrightarrow> list_all scalar s \<and> utf8_bytes s = bs"
  by (rule utf8.dec_eq_iff)

end
