(* ===== verification/Pyval.thy ===== *)
theory Pyval
  imports Binary64 Utf
begin

text \<open>
  The Python objects a JSON document becomes: \<^verbatim>\<open>None\<close>, \<^verbatim>\<open>bool\<close>, \<^verbatim>\<open>int\<close>, \<^verbatim>\<open>float\<close>, \<^verbatim>\<open>str\<close>, \<^verbatim>\<open>list\<close>
  and \<^verbatim>\<open>dict\<close>. The verifier's own parser yields floats only; \<^verbatim>\<open>int\<close> occurs in values built by
  callers or read by the standard \<^verbatim>\<open>json\<close> module.
\<close>

datatype pyval =
    PNone
  | PBool bool
  | PInt int
  | PFloat binary64
  | PStr pystr
  | PList "pyval list"
  | PDict "(pystr \<times> pyval) list"

type_synonym obj = "pyval pydict"

text \<open>Every dictionary inside the value has distinct keys and every float is canonical.\<close>

fun wf_val :: "pyval \<Rightarrow> bool" where
  "wf_val (PFloat x) = wf64 x"
| "wf_val (PList vs) = list_all wf_val vs"
| "wf_val (PDict d) = (distinct (map fst d) \<and> list_all (\<lambda>p. wf_val (snd p)) d)"
| "wf_val _ = True"

text \<open>The noncharacters of \<^verbatim>\<open>json_input.NONCHARACTER\<close> and the strings I-JSON admits.\<close>

definition noncharacter :: "nat \<Rightarrow> bool" where
  "noncharacter c =
     (0xFDD0 \<le> c \<and> c \<le> 0xFDEF \<or> 0xFFFE \<le> c mod 0x10000 \<and> c \<le> 0x10FFFF)"

definition char_ok :: "nat \<Rightarrow> bool" where
  "char_ok c = (scalar c \<and> \<not> noncharacter c)"

abbreviation str_ok :: "pystr \<Rightarrow> bool" where
  "str_ok s \<equiv> list_all char_ok s"

text \<open>A float a JSON text can denote: finite and not negative zero.\<close>

definition num_ok :: "binary64 \<Rightarrow> bool" where
  "num_ok x = (wf64 x \<and> isfinite x \<and> x \<noteq> FFin True 0 (- 1074))"

text \<open>The values \<^verbatim>\<open>parse_utf8\<close> can return.\<close>

fun json_val :: "pyval \<Rightarrow> bool" where
  "json_val PNone = True"
| "json_val (PBool _) = True"
| "json_val (PInt _) = False"
| "json_val (PFloat x) = num_ok x"
| "json_val (PStr s) = str_ok s"
| "json_val (PList vs) = list_all json_val vs"
| "json_val (PDict d) =
     (distinct (map fst d) \<and> list_all (\<lambda>p. str_ok (fst p) \<and> json_val (snd p)) d)"

lemma char_ok_scalar: "char_ok c \<Longrightarrow> scalar c"
  by (simp add: char_ok_def)

lemma str_ok_scalar: "str_ok s \<Longrightarrow> list_all scalar s"
  by (auto simp: list_all_iff char_ok_def)

lemma json_val_wf: "json_val v \<Longrightarrow> wf_val v"
  by (induction v rule: json_val.induct) (auto simp: list_all_iff num_ok_def)

end
