(* ===== verification/Json_Input.thy ===== *)
theory Json_Input
  imports Pyval
begin

text \<open>
  \<^verbatim>\<open>implementations/python/json_input.py\<close>: the raw input stage. \<^verbatim>\<open>parse_utf8\<close> decodes strict UTF-8,
  rejects surrogates and noncharacters and runs an iterative JSON parser with an explicit
  stack of open containers.

  The parser object holds the text and a position \<^verbatim>\<open>i\<close>; here the position is the unread suffix
  \<^verbatim>\<open>s[i:]\<close>, so \<^verbatim>\<open>i >= n\<close> is the empty suffix and a slice \<^verbatim>\<open>s[i:i+k]\<close> is \<open>take k\<close> of it. The stack's
  top is the head of the list. One run of the body of \<^verbatim>\<open>while True\<close> is \<open>pstep\<close>; \<open>parse_loop\<close>
  iterates it and terminates because every step consumes input (\<open>pstep_consumes\<close>).
\<close>

section \<open>Characters\<close>

definition is_ws :: "nat \<Rightarrow> bool" where
  "is_ws c = (c = 32 \<or> c = 9 \<or> c = 10 \<or> c = 13)"

definition ws :: "pystr \<Rightarrow> pystr" where
  "ws s = dropWhile is_ws s"

abbreviation invalid_json :: "exn + 'a" where
  "invalid_json \<equiv> Inl (JsonInputError ''invalid-json'')"

definition check_scalars :: "pystr \<Rightarrow> exn + unit" where
  "check_scalars s =
     (if list_ex is_surrogate s then Inl (JsonInputError ''lone-surrogate'')
      else if list_ex noncharacter s then Inl (JsonInputError ''noncharacter'')
      else Inr ())"

definition hex4 :: "pystr \<Rightarrow> exn + nat" where
  "hex4 s = (let h = take 4 s in
     if length h < 4 \<or> \<not> list_all is_hex h then invalid_json else Inr (nat_of_hex h))"

section \<open>Strings\<close>

text \<open>What follows a backslash: the decoded characters and the rest.\<close>

definition unescape_u :: "pystr \<Rightarrow> exn + (pystr \<times> pystr)" where
  "unescape_u s =
     bindr (hex4 s) (\<lambda>cp.
       let s1 = drop 4 s in
       if 0xD800 \<le> cp \<and> cp \<le> 0xDBFF then
         (if take 2 s1 \<noteq> lit [CHR 0x5C, CHR ''u''] then Inl (JsonInputError ''lone-surrogate'')
          else bindr (hex4 (drop 2 s1)) (\<lambda>trail.
            if \<not> (0xDC00 \<le> trail \<and> trail \<le> 0xDFFF) then Inl (JsonInputError ''lone-surrogate'')
            else Inr ([0x10000 + (cp - 0xD800) * 1024 + (trail - 0xDC00)], drop 4 (drop 2 s1))))
       else if 0xDC00 \<le> cp \<and> cp \<le> 0xDFFF then Inl (JsonInputError ''lone-surrogate'')
       else Inr ([cp], s1))"

definition unescape :: "pystr \<Rightarrow> exn + (pystr \<times> pystr)" where
  "unescape s = (case s of [] \<Rightarrow> invalid_json | e # s1 \<Rightarrow>
     if e = 34 then Inr ([34], s1)
     else if e = 92 then Inr ([92], s1)
     else if e = ch CHR ''/'' then Inr ([ch CHR ''/''], s1)
     else if e = ch CHR ''b'' then Inr ([8], s1)
     else if e = ch CHR ''f'' then Inr ([12], s1)
     else if e = ch CHR ''n'' then Inr ([10], s1)
     else if e = ch CHR ''r'' then Inr ([13], s1)
     else if e = ch CHR ''t'' then Inr ([9], s1)
     else if e = ch CHR ''u'' then unescape_u s1
     else invalid_json)"

lemma unescape_shorter: "unescape s = Inr (x, r) \<Longrightarrow> length r < length s"
  by (auto simp: unescape_def unescape_u_def Let_def res_simps split: list.splits if_splits)

function string_loop :: "pystr \<Rightarrow> pystr \<Rightarrow> exn + (pystr \<times> pystr)" where
  "string_loop chars s = (case s of
     [] \<Rightarrow> invalid_json
   | c # s1 \<Rightarrow>
       if c = 34 then bindr (check_scalars chars) (\<lambda>_. Inr (chars, s1))
       else if c = 92 then
         bindr (unescape s1) (\<lambda>(x, s2). string_loop (chars @ x) s2)
       else if c \<le> 0x1F then invalid_json
       else string_loop (chars @ [c]) s1)"
  by pat_completeness auto
termination
  by (relation "measure (\<lambda>(chars, s). length s)") (auto dest!: unescape_shorter)

declare string_loop.simps [simp del]

lemma string_loop_simps [simp]:
  "string_loop chars [] = invalid_json"
  "string_loop chars (c # s) =
     (if c = 34 then bindr (check_scalars chars) (\<lambda>_. Inr (chars, s))
      else if c = 92 then bindr (unescape s) (\<lambda>(x, r). string_loop (chars @ x) r)
      else if c \<le> 0x1F then invalid_json
      else string_loop (chars @ [c]) s)"
  by (subst string_loop.simps, simp)+

text \<open>\<^verbatim>\<open>_string(i)\<close>: the caller has seen the opening quote, which is skipped unchecked.\<close>

definition string_tok :: "pystr \<Rightarrow> exn + (pystr \<times> pystr)" where
  "string_tok s = string_loop [] (drop 1 s)"

section \<open>Numbers\<close>

definition scan_int :: "pystr \<Rightarrow> exn + pystr" where
  "scan_int s = (case s of [] \<Rightarrow> invalid_json | c # r \<Rightarrow>
     if \<not> is_digit c then invalid_json
     else if c = 48 then Inr r else Inr (dropWhile is_digit s))"

definition scan_frac :: "pystr \<Rightarrow> exn + pystr" where
  "scan_frac s = (case s of c # r \<Rightarrow>
     if c = ch CHR ''.'' then
       (case r of [] \<Rightarrow> invalid_json | d # _ \<Rightarrow>
          if \<not> is_digit d then invalid_json else Inr (dropWhile is_digit r))
     else Inr s | [] \<Rightarrow> Inr s)"

definition skip_sign :: "pystr \<Rightarrow> pystr" where
  "skip_sign s = (case s of c # r \<Rightarrow> if c = ch CHR ''+'' \<or> c = ch CHR ''-'' then r else s | [] \<Rightarrow> s)"

definition scan_exp :: "pystr \<Rightarrow> exn + pystr" where
  "scan_exp s = (case s of c # r \<Rightarrow>
     if c = ch CHR ''e'' \<or> c = ch CHR ''E'' then
       (case skip_sign r of [] \<Rightarrow> invalid_json | d # q \<Rightarrow>
          if \<not> is_digit d then invalid_json else Inr (dropWhile is_digit (d # q)))
     else Inr s | [] \<Rightarrow> Inr s)"

definition number_tok :: "pystr \<Rightarrow> exn + (binary64 \<times> pystr)" where
  "number_tok s =
     (let s1 = snd (strip_minus s) in
      bindr (scan_int s1) (\<lambda>s2.
      bindr (scan_frac s2) (\<lambda>s3.
      bindr (scan_exp s3) (\<lambda>s4.
        let token = take (length s - length s4) s; value = py_float token in
        if \<not> isfinite value then Inl (JsonInputError ''non-finite-number'')
        else if is_zero value \<and> fst (strip_minus token) then Inl (JsonInputError ''negative-zero'')
        else Inr (value, s4)))))"

section \<open>The document machine\<close>

datatype frame = FObj obj "pystr option" | FArr "pyval list"

datatype phase = VALUE | KEY | COLON | OBJ_NEXT | ARR_NEXT

record pstate =
  rest :: pystr
  stack :: "frame list"
  phase :: phase

text \<open>One iteration either returns the document's value or continues in a new state.\<close>

type_synonym pres = "exn + (pyval + pstate)"

definition go :: "pystr \<Rightarrow> frame list \<Rightarrow> phase \<Rightarrow> pres" where
  "go s st ph = Inr (Inr \<lparr>rest = s, stack = st, phase = ph\<rparr>)"

text \<open>Deliver a completed value to the enclosing container, or finish the document.\<close>

fun deliver :: "pyval \<Rightarrow> pystr \<Rightarrow> frame list \<Rightarrow> pres" where
  "deliver v s [] = (if ws s \<noteq> [] then invalid_json else Inr (Inl v))"
| "deliver v s (FObj d None # st) = Inl AssertionError"
| "deliver v s (FObj d (Some k) # st) =
     (if dhas d k then Inl (JsonInputError ''duplicate-member-name'')
      else go s (FObj (dset d k v) (Some k) # st) OBJ_NEXT)"
| "deliver v s (FArr vs # st) = go s (FArr (vs @ [v]) # st) ARR_NEXT"

definition keyword :: "string \<Rightarrow> pyval \<Rightarrow> pystr \<Rightarrow> frame list \<Rightarrow> pres" where
  "keyword w v s st =
     (if take (length w) s \<noteq> lit w then invalid_json else deliver v (drop (length w) s) st)"

definition value_step :: "pystr \<Rightarrow> frame list \<Rightarrow> pres" where
  "value_step s0 st = (case ws s0 of [] \<Rightarrow> invalid_json | c # r \<Rightarrow>
     if c = ch CHR ''{'' then
       (case ws r of [] \<Rightarrow> invalid_json | d # q \<Rightarrow>
          if d = ch CHR ''}'' then deliver (PDict []) q st
          else if d \<noteq> 34 then invalid_json
          else go (d # q) (FObj [] None # st) KEY)
     else if c = ch CHR ''['' then
       (case ws r of [] \<Rightarrow> go [] (FArr [] # st) VALUE | d # q \<Rightarrow>
          if d = ch CHR '']'' then deliver (PList []) q st
          else go (d # q) (FArr [] # st) VALUE)
     else if c = 34 then bindr (string_tok (c # r)) (\<lambda>(x, q). deliver (PStr x) q st)
     else if c = ch CHR ''t'' then keyword ''true'' (PBool True) (c # r) st
     else if c = ch CHR ''f'' then keyword ''false'' (PBool False) (c # r) st
     else if c = ch CHR ''n'' then keyword ''null'' PNone (c # r) st
     else if c = ch CHR ''-'' \<or> is_digit c then
       bindr (number_tok (c # r)) (\<lambda>(x, q). deliver (PFloat x) q st)
     else invalid_json)"

definition key_step :: "pystr \<Rightarrow> frame list \<Rightarrow> pres" where
  "key_step s st =
     bindr (string_tok s) (\<lambda>(k, q). case st of
         FObj d _ # st' \<Rightarrow> go q (FObj d (Some k) # st') COLON
       | _ \<Rightarrow> Inl AssertionError)"

definition colon_step :: "pystr \<Rightarrow> frame list \<Rightarrow> pres" where
  "colon_step s st = (case ws s of [] \<Rightarrow> invalid_json | c # r \<Rightarrow>
     if c \<noteq> ch CHR '':'' then invalid_json else go r st VALUE)"

definition pop_frame :: "frame list \<Rightarrow> exn + (pyval \<times> frame list)" where
  "pop_frame st = (case st of [] \<Rightarrow> Inl AssertionError
     | FObj d _ # st' \<Rightarrow> Inr (PDict d, st') | FArr vs # st' \<Rightarrow> Inr (PList vs, st'))"

definition obj_next_step :: "pystr \<Rightarrow> frame list \<Rightarrow> pres" where
  "obj_next_step s st = (case ws s of [] \<Rightarrow> invalid_json | c # r \<Rightarrow>
     if c = ch CHR '','' then
       (case ws r of [] \<Rightarrow> invalid_json | d # q \<Rightarrow>
          if d \<noteq> 34 then invalid_json else go (d # q) st KEY)
     else if c = ch CHR ''}'' then
       bindr (pop_frame st) (\<lambda>(v, st'). deliver v r st')
     else invalid_json)"

definition arr_next_step :: "pystr \<Rightarrow> frame list \<Rightarrow> pres" where
  "arr_next_step s st = (case ws s of [] \<Rightarrow> invalid_json | c # r \<Rightarrow>
     if c = ch CHR '','' then go r st VALUE
     else if c = ch CHR '']'' then
       bindr (pop_frame st) (\<lambda>(v, st'). deliver v r st')
     else invalid_json)"

definition pstep :: "pstate \<Rightarrow> pres" where
  "pstep p = (case phase p of
       VALUE \<Rightarrow> value_step (rest p) (stack p)
     | KEY \<Rightarrow> key_step (rest p) (stack p)
     | COLON \<Rightarrow> colon_step (rest p) (stack p)
     | OBJ_NEXT \<Rightarrow> obj_next_step (rest p) (stack p)
     | ARR_NEXT \<Rightarrow> arr_next_step (rest p) (stack p))"

section \<open>Every step consumes input\<close>

lemma ws_shorter [simp]: "length (ws s) \<le> length s"
  by (simp add: ws_def)

lemma ws_Cons_shorter: "ws s = c # r \<Longrightarrow> length r < length s"
  using ws_shorter [of s] by simp

lemma string_loop_shorter: "string_loop chars s = Inr (x, r) \<Longrightarrow> length r < length s"
proof (induction chars s rule: string_loop.induct)
  case (1 chars s)
  show ?case
  proof (cases s)
    case Nil
    then show ?thesis using "1.prems" by simp
  next
    case (Cons c s1)
    show ?thesis
    proof (cases "c \<noteq> 34 \<and> c = 92")
      case True
      then obtain y s2 where u: "unescape s1 = Inr (y, s2)" and r: "string_loop (chars @ y) s2 = Inr (x, r)"
        using "1.prems" Cons by (auto simp: res_simps)
      have "length r < length s2" using "1.IH"(1) [OF Cons _ _ u refl r] True by simp
      then show ?thesis using unescape_shorter [OF u] Cons by simp
    next
      case False
      then show ?thesis
        using "1.prems" "1.IH"(2) [OF Cons] Cons
        by (auto simp: res_simps split: if_splits)
    qed
  qed
qed

lemma string_tok_shorter: "string_tok s = Inr (x, r) \<Longrightarrow> length r < length s"
  using string_loop_shorter [of "[]" "drop 1 s" x r] by (simp add: string_tok_def)

lemma strip_minus_shorter: "length (snd (strip_minus s)) \<le> length s"
  by (simp add: strip_minus_def split: list.splits)

lemma scan_shorter:
  "scan_int s = Inr r \<Longrightarrow> length r < length s"
  "scan_frac s = Inr r \<Longrightarrow> length r \<le> length s"
  "scan_exp s = Inr r \<Longrightarrow> length r \<le> length s"
proof -
  have dw: "length (dropWhile P q) < Suc (Suc (length q))" "length (dropWhile P q) < Suc (length q)"
    for P and q :: pystr using dropWhile_length_le [of P q] by linarith+
  show "scan_int s = Inr r \<Longrightarrow> length r < length s"
    by (auto simp: scan_int_def dw split: list.splits if_splits)
  show "scan_frac s = Inr r \<Longrightarrow> length r \<le> length s"
    by (auto simp: scan_frac_def less_imp_le dw split: list.splits if_splits)
  have sk: "length (skip_sign q) \<le> length q" for q by (simp add: skip_sign_def split: list.splits)
  show "scan_exp s = Inr r \<Longrightarrow> length r \<le> length s"
  proof (cases s)
    case (Cons c q)
    assume a: "scan_exp s = Inr r"
    show ?thesis
    proof (cases "c = ch CHR ''e'' \<or> c = ch CHR ''E''")
      case True
      then obtain d t where t: "skip_sign q = d # t" "r = dropWhile is_digit (d # t)"
        using a Cons by (cases "skip_sign q") (simp_all add: scan_exp_def split: if_splits)
      have "length r \<le> length (skip_sign q)" unfolding t by (rule dropWhile_length_le)
      then show ?thesis using sk [of q] Cons by simp
    next
      case False
      then show ?thesis using a Cons by (simp add: scan_exp_def)
    qed
  qed (simp add: scan_exp_def)
qed

lemma number_tok_shorter: "number_tok s = Inr (x, r) \<Longrightarrow> length r < length s"
proof -
  assume "number_tok s = Inr (x, r)"
  then obtain s2 s3 where "scan_int (snd (strip_minus s)) = Inr s2" "scan_frac s2 = Inr s3" "scan_exp s3 = Inr r"
    by (auto simp: number_tok_def Let_def res_simps split: if_splits)
  then show ?thesis using scan_shorter strip_minus_shorter [of s] by (meson le_less_trans less_le_trans)
qed

lemma deliver_continues: "deliver v s st = Inr (Inr p) \<Longrightarrow> rest p = s"
  by (induction v s st rule: deliver.induct) (auto simp: go_def split: if_splits)

lemma value_step_consumes: "value_step s st = Inr (Inr p) \<Longrightarrow> length (rest p) < length s"
proof -
  assume a: "value_step s st = Inr (Inr p)"
  then obtain c r where c: "ws s = c # r" by (auto simp: value_step_def split: list.splits)
  have r: "length r < length s" by (rule ws_Cons_shorter [OF c])
  have kw: "length (rest p) < length s" if "keyword w v (c' # r) st = Inr (Inr p)" "w \<noteq> []" for w v c'
    using that r by (cases w) (auto simp: keyword_def split: if_splits dest!: deliver_continues)
  have wr: "Suc (length q) < length s" if "ws r = d # q" for d q using ws_shorter [of r] r that by simp
  have tok: "length q < length s"
    if "string_tok (c' # r) = Inr (x, q) \<or> number_tok (c' # r) = Inr (y, q)" for c' x y q
    using that r string_tok_shorter [of "c' # r"] number_tok_shorter [of "c' # r"] by fastforce
  show ?thesis
    using a r
    by (auto simp: value_step_def c go_def res_simps split: if_splits list.splits
        dest!: deliver_continues wr intro: tok elim!: kw)
qed

lemma pstep_consumes: "pstep p = Inr (Inr p') \<Longrightarrow> length (rest p') < length (rest p)"
proof (cases "phase p")
  case VALUE
  then show "pstep p = Inr (Inr p') \<Longrightarrow> ?thesis" by (simp add: pstep_def value_step_consumes)
next
  case KEY
  assume a: "pstep p = Inr (Inr p')"
  then obtain k q where "string_tok (rest p) = Inr (k, q)"
      "(case stack p of FObj d _ # st' \<Rightarrow> go q (FObj d (Some k) # st') COLON | _ \<Rightarrow> Inl AssertionError) = Inr (Inr p')"
    using KEY by (auto simp: pstep_def key_step_def res_simps)
  moreover from this(2) have "rest p' = q"
    by (cases "stack p"; cases "hd (stack p)") (auto simp: go_def)
  ultimately show ?thesis using string_tok_shorter by simp
next
  case COLON
  then show "pstep p = Inr (Inr p') \<Longrightarrow> ?thesis"
    by (auto simp: pstep_def colon_step_def go_def split: list.splits if_splits dest!: ws_Cons_shorter)
next
  case OBJ_NEXT
  have "length (d # r) < length (rest p)" if "ws (rest p) = c # q" "ws q = d # r" for c q d r
    using ws_Cons_shorter [OF that(1)] ws_shorter [of q] that(2) by simp
  then show "pstep p = Inr (Inr p') \<Longrightarrow> ?thesis"
    using OBJ_NEXT
    by (auto simp: pstep_def obj_next_step_def go_def res_simps split: list.splits if_splits
        dest!: deliver_continues dest: ws_Cons_shorter)
next
  case ARR_NEXT
  then show "pstep p = Inr (Inr p') \<Longrightarrow> ?thesis"
    by (auto simp: pstep_def arr_next_step_def go_def res_simps split: list.splits if_splits
        dest!: deliver_continues ws_Cons_shorter)
qed

function parse_loop :: "pstate \<Rightarrow> exn + pyval" where
  "parse_loop p = (case pstep p of
       Inl e \<Rightarrow> Inl e
     | Inr (Inl v) \<Rightarrow> Inr v
     | Inr (Inr p') \<Rightarrow> parse_loop p')"
  by pat_completeness auto
termination
  by (relation "measure (\<lambda>p. length (rest p))") (auto dest: pstep_consumes)

declare parse_loop.simps [simp del]

definition parse_document :: "pystr \<Rightarrow> exn + pyval" where
  "parse_document s =
     (if ws s = [] then invalid_json
      else parse_loop \<lparr>rest = ws s, stack = [], phase = VALUE\<rparr>)"

definition text_char :: "nat \<Rightarrow> exn + unit" where
  "text_char c =
     (if is_surrogate c then Inl (JsonInputError ''lone-surrogate'')
      else if noncharacter c then Inl (JsonInputError ''noncharacter'')
      else Inr ())"

definition parse_utf8 :: "bytes \<Rightarrow> exn + pyval" where
  "parse_utf8 data = (case utf8_decode data of
       Inl _ \<Rightarrow> Inl (JsonInputError ''invalid-utf8'')
     | Inr text \<Rightarrow> bindr (eachr text_char text) (\<lambda>_. parse_document text))"

definition parse_object :: "bytes \<Rightarrow> exn + obj" where
  "parse_object data =
     bindr (parse_utf8 data) (\<lambda>v. case v of
         PDict d \<Rightarrow> Inr d
       | _ \<Rightarrow> Inl (JsonInputError ''not-object''))"

end
