(* ===== verification/Json_Grammar.thy ===== *)
theory Json_Grammar
  imports Json_Input
begin

text \<open>
  The JSON grammar as a recursive specification, and the refinement proof for the iterative
  parser of \<^verbatim>\<open>json_input.py\<close>. \<open>jval s v r\<close> reads: the text \<open>s\<close> starts with a value \<open>v\<close> and \<open>r\<close> is
  what follows. The explicit stack of the parser disappears: \<open>jelems\<close> and \<open>jmembers\<close> describe the
  rest of an array or object given the elements already read. Member names are unique.
  \<open>parse_document_iff\<close> states that the parser accepts exactly the documents of the grammar and
  returns the value the grammar assigns.
\<close>

section \<open>The grammar\<close>

inductive jval :: "pystr \<Rightarrow> pyval \<Rightarrow> pystr \<Rightarrow> bool"
  and jelems :: "pystr \<Rightarrow> pyval list \<Rightarrow> pyval list \<Rightarrow> pystr \<Rightarrow> bool"
  and jmembers :: "pystr \<Rightarrow> obj \<Rightarrow> obj \<Rightarrow> pystr \<Rightarrow> bool" where
  obj_empty: "ws s = ch CHR ''{'' # q \<Longrightarrow> ws q = ch CHR ''}'' # r \<Longrightarrow> jval s (PDict []) r"
| obj: "ws s = ch CHR ''{'' # q \<Longrightarrow> ws q = 34 # t \<Longrightarrow> jmembers (34 # t) [] d r \<Longrightarrow> jval s (PDict d) r"
| arr_empty: "ws s = ch CHR ''['' # q \<Longrightarrow> ws q = ch CHR '']'' # r \<Longrightarrow> jval s (PList []) r"
| arr: "ws s = ch CHR ''['' # q \<Longrightarrow> ws q = c # t \<Longrightarrow> c \<noteq> ch CHR '']'' \<Longrightarrow> jelems (c # t) [] vs r \<Longrightarrow>
    jval s (PList vs) r"
| str: "ws s = 34 # q \<Longrightarrow> string_tok (34 # q) = Inr (x, r) \<Longrightarrow> jval s (PStr x) r"
| true: "ws s = lit ''true'' @ r \<Longrightarrow> jval s (PBool True) r"
| false: "ws s = lit ''false'' @ r \<Longrightarrow> jval s (PBool False) r"
| null: "ws s = lit ''null'' @ r \<Longrightarrow> jval s PNone r"
| num: "ws s = c # q \<Longrightarrow> c = ch CHR ''-'' \<or> is_digit c \<Longrightarrow> number_tok (c # q) = Inr (x, r) \<Longrightarrow>
    jval s (PFloat x) r"
| elems_last: "jval s v q \<Longrightarrow> ws q = ch CHR '']'' # r \<Longrightarrow> jelems s vs (vs @ [v]) r"
| elems_more: "jval s v q \<Longrightarrow> ws q = ch CHR '','' # t \<Longrightarrow> jelems t (vs @ [v]) ws' r \<Longrightarrow> jelems s vs ws' r"
| members_last: "string_tok s = Inr (k, q) \<Longrightarrow> ws q = ch CHR '':'' # t \<Longrightarrow> jval t v u \<Longrightarrow> \<not> dhas d k \<Longrightarrow>
    ws u = ch CHR ''}'' # r \<Longrightarrow> jmembers s d (d @ [(k, v)]) r"
| members_more: "string_tok s = Inr (k, q) \<Longrightarrow> ws q = ch CHR '':'' # t \<Longrightarrow> jval t v u \<Longrightarrow> \<not> dhas d k \<Longrightarrow>
    ws u = ch CHR '','' # x \<Longrightarrow> ws x = 34 # y \<Longrightarrow> jmembers (34 # y) (d @ [(k, v)]) d' r \<Longrightarrow>
    jmembers s d d' r"

definition jdoc :: "pystr \<Rightarrow> pyval \<Rightarrow> bool" where
  "jdoc s v = (\<exists>r. jval s v r \<and> ws r = [])"

lemma jval_shorter:
  "jval s v r \<Longrightarrow> length r < length s"
  "jelems s vs vs' r \<Longrightarrow> length r < length s"
  "jmembers s d d' r \<Longrightarrow> length r < length s"
proof (induction rule: jval_jelems_jmembers.inducts)
  case (obj s q t d r)
  then show ?case using ws_Cons_shorter [of s] ws_Cons_shorter [of q] by fastforce
next
  case (arr s q c t vs r)
  then show ?case using ws_Cons_shorter [of s] ws_Cons_shorter [of q] by fastforce
next
  case (obj_empty s q r)
  then show ?case using ws_Cons_shorter [of s] ws_Cons_shorter [of q] by fastforce
next
  case (arr_empty s q r)
  then show ?case using ws_Cons_shorter [of s] ws_Cons_shorter [of q] by fastforce
next
  case (str s q x r)
  then show ?case using ws_shorter [of s] string_tok_shorter [of "34 # q" x r] by simp
next
  case (num s c q x r)
  then show ?case using ws_shorter [of s] number_tok_shorter [of "c # q" x r] by simp
next
  case (elems_last s v q r vs)
  then show ?case using ws_Cons_shorter [of q] by fastforce
next
  case (elems_more s v q t vs ws' r)
  then show ?case using ws_Cons_shorter [of q] by fastforce
next
  case (members_last s k q t v u d r)
  then show ?case using string_tok_shorter ws_Cons_shorter [of q] ws_Cons_shorter [of u] by fastforce
next
  case (members_more s k q t v u d x y d' r)
  then show ?case
    using string_tok_shorter [of s k q] ws_Cons_shorter [of q] ws_Cons_shorter [of u] ws_shorter [of x] by fastforce
next
  case (true s r)
  then show ?case using ws_shorter [of s] by simp
next
  case (false s r)
  then show ?case using ws_shorter [of s] by simp
next
  case (null s r)
  then show ?case using ws_shorter [of s] by simp
qed

section \<open>The parser follows the grammar\<close>

fun resume :: "pres \<Rightarrow> exn + pyval" where
  "resume (Inl e) = Inl e"
| "resume (Inr (Inl v)) = Inr v"
| "resume (Inr (Inr p)) = parse_loop p"

lemma parse_loop_resume: "parse_loop p = resume (pstep p)"
  by (subst parse_loop.simps) (auto split: sum.splits)

lemma resume_go [simp]:
  "resume (go s st VALUE) = resume (value_step s st)"
  "resume (go s st KEY) = resume (key_step s st)"
  "resume (go s st COLON) = resume (colon_step s st)"
  "resume (go s st OBJ_NEXT) = resume (obj_next_step s st)"
  "resume (go s st ARR_NEXT) = resume (arr_next_step s st)"
  by (simp_all add: go_def parse_loop_resume pstep_def)

lemma deliver_FObj [simp]:
  "\<not> dhas d k \<Longrightarrow> deliver v s (FObj d (Some k) # st) = go s (FObj (d @ [(k, v)]) (Some k) # st) OBJ_NEXT"
  by (simp add: dset_append)

lemma ws_head_not_ws: "ws s = c # r \<Longrightarrow> \<not> is_ws c"
  unfolding ws_def by (metis hd_dropWhile list.distinct(1) list.sel(1))

lemma ws_idem [simp]: "ws (ws s) = ws s"
  by (simp add: ws_def)

lemma ws_ws_Cons: "ws s = c # r \<Longrightarrow> ws (c # r) = c # r"
  using ws_idem [of s] by simp

lemma value_step_ws [simp]: "value_step (ws s) st = value_step s st"
  by (simp add: value_step_def)

text \<open>Completeness: what the grammar accepts the machine delivers.\<close>

lemma grammar_complete:
  "jval s v r \<Longrightarrow> resume (value_step s st) = resume (deliver v r st)"
  "jelems s vs vs' r \<Longrightarrow> resume (value_step s (FArr vs # st)) = resume (deliver (PList vs') r st)"
  "jmembers s d d' r \<Longrightarrow> resume (key_step s (FObj d k0 # st)) = resume (deliver (PDict d') r st)"
proof (induction arbitrary: st and st and st k0 rule: jval_jelems_jmembers.inducts)
  case (members_last s k q t v u d r)
  then show ?case
    by (simp add: key_step_def colon_step_def obj_next_step_def pop_frame_def del: deliver.simps(3))
next
  case (members_more s k q t v u d x y d' r)
  then show ?case
    by (simp add: key_step_def colon_step_def obj_next_step_def del: deliver.simps(3))
next
  case (num s c q x r)
  then have "c \<noteq> ch CHR ''{''" "c \<noteq> ch CHR ''[''" "c \<noteq> 34" "c \<noteq> ch CHR ''t''" "c \<noteq> ch CHR ''f''" "c \<noteq> ch CHR ''n''"
    by (auto simp: is_digit_def)
  then show ?case using num by (simp add: value_step_def)
qed (simp_all add: value_step_def arr_next_step_def pop_frame_def keyword_def lit_Cons)

text \<open>Soundness: where the machine succeeds, the grammar explains the value it went through.\<close>

definition sound_at :: "nat \<Rightarrow> bool" where
  "sound_at n =
     ((\<forall>s st w. length s = n \<longrightarrow> resume (value_step s st) = Inr w \<longrightarrow>
         (\<exists>v r. jval s v r \<and> resume (deliver v r st) = Inr w)) \<and>
      (\<forall>s vs st w. length s = n \<longrightarrow> resume (value_step s (FArr vs # st)) = Inr w \<longrightarrow>
         (\<exists>vs' r. jelems s vs vs' r \<and> resume (deliver (PList vs') r st) = Inr w)) \<and>
      (\<forall>s d k0 st w. length s = n \<longrightarrow> resume (key_step s (FObj d k0 # st)) = Inr w \<longrightarrow>
         (\<exists>d' r. jmembers s d d' r \<and> resume (deliver (PDict d') r st) = Inr w)))"

lemma resume_bindr_Inr: "resume (bindr m f) = Inr w \<longleftrightarrow> (\<exists>x. m = Inr x \<and> resume (f x) = Inr w)"
  by (cases m) auto

lemma deliver_FObj_Inr:
  "resume (deliver v s (FObj d (Some k) # st)) = Inr w \<Longrightarrow>
     \<not> dhas d k \<and> resume (obj_next_step s (FObj (d @ [(k, v)]) (Some k) # st)) = Inr w"
  by (cases "dhas d k") (simp_all add: dset_append)

lemma value_sound:
  assumes IH: "\<And>k. k < length s \<Longrightarrow> sound_at k" and ok: "resume (value_step s st) = Inr w"
  shows "\<exists>v r. jval s v r \<and> resume (deliver v r st) = Inr w"
proof -
  obtain c q where c: "ws s = c # q" using ok by (cases "ws s") (simp_all add: value_step_def)
  have q: "length q < length s" by (rule ws_Cons_shorter [OF c])
  have smaller: "sound_at (length t)" if "length t < length s" for t :: pystr using IH that by blast
  have kw: "\<exists>r. ws s = lit x @ r \<and> resume (deliver v r st) = Inr w" if "resume (keyword x v (c # q) st) = Inr w" for x v
  proof -
    have t: "take (length x) (c # q) = lit x" and d: "resume (deliver v (drop (length x) (c # q)) st) = Inr w"
      using that by (simp_all add: keyword_def split: if_splits)
    have "ws s = lit x @ drop (length x) (c # q)" using t c by (metis append_take_drop_id)
    then show ?thesis using d by blast
  qed
  consider "c = ch CHR ''{''" | "c = ch CHR ''[''" | "c = 34" | "c = ch CHR ''t''" | "c = ch CHR ''f''"
    | "c = ch CHR ''n''" | "c \<noteq> 34" "c = ch CHR ''-'' \<or> is_digit c"
    using ok by (simp add: value_step_def c split: if_splits)
  then show ?thesis
  proof cases
    case 1
    then obtain d t where t: "ws q = d # t" using ok by (cases "ws q") (simp_all add: value_step_def c)
    have l: "length (d # t) < length s" using ws_shorter [of q] t q by simp
    show ?thesis
    proof (cases "d = ch CHR ''}''")
      case True
      then have "jval s (PDict []) t" using 1 t c by (intro obj_empty [of s q t]) simp_all
      then show ?thesis using ok 1 t c True by (auto simp: value_step_def)
    next
      case False
      then have "d = 34" "resume (key_step (d # t) (FObj [] None # st)) = Inr w"
        using ok 1 t c by (auto simp: value_step_def split: if_splits)
      then show ?thesis using smaller [OF l] 1 t c unfolding sound_at_def by (metis obj)
    qed
  next
    case 2
    show ?thesis
    proof (cases "ws q")
      case Nil
      then have "resume (value_step [] (FArr [] # st)) = Inr w" using ok 2 c by (simp add: value_step_def [of s])
      moreover have "ws [] = []" by (simp add: ws_def)
      ultimately show ?thesis by (simp add: value_step_def)
    next
      case (Cons d t)
      have l: "length (d # t) < length s" using ws_shorter [of q] Cons q by simp
      show ?thesis
      proof (cases "d = ch CHR '']''")
        case True
        then have "jval s (PList []) t" using 2 Cons c by (intro arr_empty [of s q t]) simp_all
        then show ?thesis using ok 2 Cons c True by (auto simp: value_step_def [of s])
      next
        case False
        then have "resume (value_step (d # t) (FArr [] # st)) = Inr w"
          using ok 2 Cons c by (simp add: value_step_def [of s])
        then show ?thesis using smaller [OF l] 2 Cons c False unfolding sound_at_def by (metis arr)
      qed
    qed
  next
    case 3
    then show ?thesis using ok c by (auto simp: value_step_def resume_bindr_Inr intro: str)
  next
    case 4
    then have "resume (keyword ''true'' (PBool True) (c # q) st) = Inr w" using ok c by (simp add: value_step_def)
    then show ?thesis using kw true by blast
  next
    case 5
    then have "resume (keyword ''false'' (PBool False) (c # q) st) = Inr w" using ok c by (simp add: value_step_def)
    then show ?thesis using kw false by blast
  next
    case 6
    then have "resume (keyword ''null'' PNone (c # q) st) = Inr w" using ok c by (simp add: value_step_def)
    then show ?thesis using kw null by blast
  next
    case 7
    then have "c \<noteq> ch CHR ''{''" "c \<noteq> ch CHR ''[''" "c \<noteq> ch CHR ''t''" "c \<noteq> ch CHR ''f''" "c \<noteq> ch CHR ''n''"
      by (auto simp: is_digit_def)
    then obtain x r where "number_tok (c # q) = Inr (x, r)" "resume (deliver (PFloat x) r st) = Inr w"
      using ok c 7 by (auto simp: value_step_def resume_bindr_Inr)
    then show ?thesis using num [OF c 7(2)] by blast
  qed
qed

lemma elems_sound:
  assumes IH: "\<And>k. k < length s \<Longrightarrow> sound_at k" and ok: "resume (value_step s (FArr vs # st)) = Inr w"
  shows "\<exists>vs' r. jelems s vs vs' r \<and> resume (deliver (PList vs') r st) = Inr w"
proof -
  obtain v q where v: "jval s v q" and d: "resume (arr_next_step q (FArr (vs @ [v]) # st)) = Inr w"
    using value_sound [OF IH ok] by auto
  obtain c t where c: "ws q = c # t" using d by (cases "ws q") (simp_all add: arr_next_step_def)
  have l: "length t < length s" using jval_shorter(1) [OF v] ws_Cons_shorter [OF c] by simp
  show ?thesis
  proof (cases "c = ch CHR '',''")
    case True
    then have "resume (value_step t (FArr (vs @ [v]) # st)) = Inr w" using d c by (simp add: arr_next_step_def)
    then show ?thesis using IH [OF l] v c True unfolding sound_at_def by (metis elems_more)
  next
    case False
    then have "c = ch CHR '']''" "resume (deliver (PList (vs @ [v])) t st) = Inr w"
      using d c by (auto simp: arr_next_step_def pop_frame_def split: if_splits)
    then show ?thesis using v c by (metis elems_last)
  qed
qed

lemma members_sound:
  assumes IH: "\<And>k. k < length s \<Longrightarrow> sound_at k" and ok: "resume (key_step s (FObj d k0 # st)) = Inr w"
  shows "\<exists>d' r. jmembers s d d' r \<and> resume (deliver (PDict d') r st) = Inr w"
proof -
  obtain k q where k: "string_tok s = Inr (k, q)" and c: "resume (colon_step q (FObj d (Some k) # st)) = Inr w"
    using ok by (auto simp: key_step_def resume_bindr_Inr)
  obtain t where t: "ws q = ch CHR '':'' # t" and v: "resume (value_step t (FObj d (Some k) # st)) = Inr w"
    using c by (cases "ws q") (auto simp: colon_step_def split: if_splits)
  have lt: "length t < length s" using string_tok_shorter [OF k] ws_Cons_shorter [OF t] by simp
  obtain x u where x: "jval t x u" and dl: "resume (deliver x u (FObj d (Some k) # st)) = Inr w"
    using IH [OF lt] v unfolding sound_at_def by metis
  note nx = deliver_FObj_Inr [OF dl]
  obtain e y where e: "ws u = e # y" using nx by (cases "ws u") (simp_all add: obj_next_step_def)
  have ly: "length y < length s" using jval_shorter(1) [OF x] ws_Cons_shorter [OF e] lt by simp
  show ?thesis
  proof (cases "e = ch CHR '',''")
    case True
    then obtain z where z: "ws y = 34 # z" "resume (key_step (34 # z) (FObj (d @ [(k, x)]) (Some k) # st)) = Inr w"
      using nx e by (cases "ws y") (auto simp: obj_next_step_def split: if_splits)
    have "length (34 # z) < length s" using ws_shorter [of y] z(1) ly by simp
    then obtain d' r where "jmembers (34 # z) (d @ [(k, x)]) d' r" "resume (deliver (PDict d') r st) = Inr w"
      using IH z(2) unfolding sound_at_def by metis
    then show ?thesis using k t x nx e True z(1) by (metis members_more)
  next
    case False
    then have "e = ch CHR ''}''" "resume (deliver (PDict (d @ [(k, x)])) y st) = Inr w"
      using nx e by (auto simp: obj_next_step_def pop_frame_def split: if_splits)
    then show ?thesis using k t x nx e by (metis members_last)
  qed
qed

lemma sound_at_all: "sound_at n"
proof (induction n rule: less_induct)
  case (less n)
  then show ?case
    unfolding sound_at_def [of n] using value_sound elems_sound members_sound by blast
qed

lemma parse_document_iff: "parse_document s = Inr v \<longleftrightarrow> jdoc s v"
proof -
  have eq: "parse_document s = (if ws s = [] then invalid_json else resume (value_step s []))"
    by (simp add: parse_document_def parse_loop_resume pstep_def)
  have fin: "resume (deliver v' r []) = Inr v \<longleftrightarrow> v' = v \<and> ws r = []" for v' r by auto
  show ?thesis
  proof
    assume "parse_document s = Inr v"
    then have "resume (value_step s []) = Inr v" by (simp add: eq split: if_splits)
    then obtain v' r where "jval s v' r" "resume (deliver v' r []) = Inr v"
      using sound_at_all [of "length s"] unfolding sound_at_def by blast
    then show "jdoc s v" unfolding fin jdoc_def by blast
  next
    assume "jdoc s v"
    then obtain r where r: "jval s v r" "ws r = []" by (auto simp: jdoc_def)
    then have "resume (value_step s []) = Inr v" unfolding grammar_complete(1) [OF r(1)] fin by simp
    moreover have "ws s \<noteq> []" using calculation by (auto simp: value_step_def)
    ultimately show "parse_document s = Inr v" by (simp add: eq)
  qed
qed

section \<open>Properties\<close>

text \<open>C1: the iterative parser accepts exactly the documents of the recursive JSON grammar, with
  unique member names, and returns the value the grammar assigns to them.\<close>
theorem parser_accepts_exactly_grammar: "parse_document s = Inr v \<longleftrightarrow> jdoc s v"
  by (rule parse_document_iff)

end
