(* ===== verification/Jcs.thy ===== *)
theory Jcs
  imports Pyval "HOL-Library.Multiset"
begin

text \<open>
  \<^verbatim>\<open>implementations/python/jcs.py\<close>: RFC 8785 canonicalization. \<open>es_number\<close> is \<^verbatim>\<open>_es_number\<close>, \<open>escape_string\<close>
  is \<^verbatim>\<open>_escape_string\<close>, and \<open>canon_loop\<close> the explicit-stack loop of \<^verbatim>\<open>canonicalize\<close>; the list \<^verbatim>\<open>out\<close>
  of text pieces is their concatenation, the stack's top is the head of the list.
\<close>

section \<open>Numbers\<close>

text \<open>
  The regular expressions over \<^verbatim>\<open>repr(n)\<close>: \<open>repr_sci\<close> is \<^verbatim>\<open>_REPR_SCI.fullmatch\<close> with the groups
  lead, fraction and exponent, \<open>repr_fixed\<close> is \<^verbatim>\<open>_REPR_FIXED.fullmatch\<close> with integer part and fraction.
\<close>

definition opt_sign :: "pystr \<Rightarrow> bool \<times> pystr" where
  "opt_sign s = (case s of c # r \<Rightarrow>
       if c = ch CHR ''-'' then (True, r) else if c = ch CHR ''+'' then (False, r) else (False, s)
     | [] \<Rightarrow> (False, s))"

definition opt_frac :: "pystr \<Rightarrow> (pystr \<times> pystr) option" where
  "opt_frac s = (case s of c # r \<Rightarrow>
       if c = ch CHR ''.'' then
         (if takeWhile is_digit r = [] then None
          else Some (takeWhile is_digit r, dropWhile is_digit r))
       else Some ([], s)
     | [] \<Rightarrow> Some ([], s))"

definition repr_sci :: "pystr \<Rightarrow> (pystr \<times> pystr \<times> int) option" where
  "repr_sci s = (case snd (opt_sign s) of [] \<Rightarrow> None | d # r \<Rightarrow>
     if \<not> is_digit d then None
     else case opt_frac r of None \<Rightarrow> None | Some (fr, q) \<Rightarrow>
       (case q of [] \<Rightarrow> None | x # q1 \<Rightarrow>
          if x \<noteq> ch CHR ''e'' \<and> x \<noteq> ch CHR ''E'' then None
          else (let (neg, ds) = opt_sign q1 in
            if ds = [] \<or> \<not> list_all is_digit ds then None
            else Some ([d], fr, if neg then - int (nat_of_digits ds) else int (nat_of_digits ds)))))"

definition repr_fixed :: "pystr \<Rightarrow> (pystr \<times> pystr) option" where
  "repr_fixed s = (let b = snd (opt_sign s); ip = takeWhile is_digit b in
     if ip = [] then None
     else case opt_frac (dropWhile is_digit b) of
         Some (fr, []) \<Rightarrow> Some (ip, fr)
       | _ \<Rightarrow> None)"

definition or_zero :: "pystr \<Rightarrow> pystr" where
  "or_zero s = (if s = [] then lit ''0'' else s)"

definition zeros :: "int \<Rightarrow> pystr" where
  "zeros n = replicate (nat n) (ch CHR ''0'')"

text \<open>The layout of ES2022 Number::toString for digits and decimal exponent (\<^verbatim>\<open>n_es = exp + 1\<close>).\<close>

definition es_layout :: "pystr \<Rightarrow> int \<Rightarrow> pystr" where
  "es_layout digits ex =
     (let k = int (length digits); n_es = ex + 1 in
      if 1 \<le> n_es \<and> n_es \<le> 21 then
        (if k \<le> n_es then digits @ zeros (n_es - k)
         else take (nat n_es) digits @ lit ''.'' @ drop (nat n_es) digits)
      else if - 5 \<le> n_es \<and> n_es \<le> 0 then lit ''0.'' @ zeros (- n_es) @ digits
      else
        (let exp_show = n_es - 1;
             mant = (if k = 1 then digits else take 1 digits @ lit ''.'' @ drop 1 digits)
         in mant @ lit ''e'' @ (if 0 \<le> exp_show then lit ''+'' else []) @ str_int exp_show))"

definition es_of_repr :: "pystr \<Rightarrow> exn + pystr" where
  "es_of_repr s = (case repr_sci s of
       Some (lead, fr, ex) \<Rightarrow> Inr (es_layout (or_zero (rstrip0 (lead @ fr))) ex)
     | None \<Rightarrow> (case repr_fixed s of
           None \<Rightarrow> Inl (JcsError ''repr form'')
         | Some (ip, fr) \<Rightarrow>
             Inr (es_layout (or_zero (rstrip0 (ip @ fr))) (int (length ip) - 1))))"

text \<open>\<^verbatim>\<open>n < 1 << 53\<close> for a finite non-negative value.\<close>

fun below_safe_int :: "binary64 \<Rightarrow> bool" where
  "below_safe_int (FFin _ m e) = (num2 m e < 2 ^ 53 * den2 e)"
| "below_safe_int _ = False"

fun repr64 :: "binary64 \<Rightarrow> pystr" where
  "repr64 (FFin _ m e) = repr_pos m e"
| "repr64 (FInf _) = lit ''inf''"
| "repr64 FNaN = lit ''nan''"

definition es_number :: "binary64 \<Rightarrow> exn + pystr" where
  "es_number n =
     (if \<not> isfinite n then Inl (JcsError ''non-finite'')
      else if is_zero n then Inr (lit ''0'')
      else
        (let sign = (if is_neg n then lit ''-'' else []); a = fabs n in
         if is_integer a \<and> below_safe_int a then Inr (sign @ str_int (int_of_f64 a))
         else bindr (es_of_repr (repr64 a)) (\<lambda>body. Inr (sign @ body))))"

section \<open>Strings\<close>

definition escape_char :: "nat \<Rightarrow> pystr" where
  "escape_char c =
     (if c = 34 then [92, 34]
      else if c = 92 then [92, 92]
      else if c = 8 then [92, ch CHR ''b'']
      else if c = 12 then [92, ch CHR ''f'']
      else if c = 10 then [92, ch CHR ''n'']
      else if c = 13 then [92, ch CHR ''r'']
      else if c = 9 then [92, ch CHR ''t'']
      else if c < 0x20 then [92, ch CHR ''u''] @ fmt_hex 4 c
      else [c])"

definition escape_string :: "pystr \<Rightarrow> pystr" where
  "escape_string s = [34] @ concat (map escape_char s) @ [34]"

section \<open>Canonicalization\<close>

datatype jitem = JVal pyval | POP_ARR | POP_OBJ | COMMA | JKey pystr

text \<open>\<^verbatim>\<open>sorted(item.keys(), key=lambda k: k.encode("utf-16-be"))\<close>, with the values alongside.\<close>

definition sorted_items :: "obj \<Rightarrow> exn + obj" where
  "sorted_items d =
     (if list_all (\<lambda>p. list_all scalar (fst p)) d then Inr (sort_key (\<lambda>p. utf16be (fst p)) d)
      else Inl UnicodeEncodeError)"

text \<open>
  The push loops run from the last index down to 0 and push a comma above every element but
  the first; \<open>foldr\<close> over the enumerated list does the same.
\<close>

definition push_arr :: "pyval list \<Rightarrow> jitem list \<Rightarrow> jitem list" where
  "push_arr vs st =
     foldr (\<lambda>(idx, v) acc. (if 0 < idx then [COMMA] else []) @ JVal v # acc) (enumerate 0 vs) (POP_ARR # st)"

definition push_obj :: "obj \<Rightarrow> jitem list \<Rightarrow> jitem list" where
  "push_obj d st =
     foldr (\<lambda>(idx, (k, v)) acc. (if 0 < idx then [COMMA] else []) @ JKey k # JVal v # acc)
       (enumerate 0 d) (POP_OBJ # st)"

definition emit_num :: "exn + binary64 \<Rightarrow> exn + pystr" where
  "emit_num x = bindr x es_number"

text \<open>One iteration: the text appended to \<^verbatim>\<open>out\<close> and the new stack.\<close>

fun canon_step :: "jitem \<Rightarrow> jitem list \<Rightarrow> exn + (pystr \<times> jitem list)" where
  "canon_step POP_ARR st = Inr (lit '']'', st)"
| "canon_step POP_OBJ st = Inr (lit ''}'', st)"
| "canon_step COMMA st = Inr (lit '','', st)"
| "canon_step (JKey k) st = Inr (escape_string k @ lit '':'', st)"
| "canon_step (JVal PNone) st = Inr (lit ''null'', st)"
| "canon_step (JVal (PBool b)) st = Inr (if b then lit ''true'' else lit ''false'', st)"
| "canon_step (JVal (PStr s)) st = Inr (escape_string s, st)"
| "canon_step (JVal (PInt i)) st = bindr (emit_num (float_of_int i)) (\<lambda>t. Inr (t, st))"
| "canon_step (JVal (PFloat x)) st = bindr (emit_num (Inr x)) (\<lambda>t. Inr (t, st))"
| "canon_step (JVal (PList vs)) st = Inr (lit ''['', push_arr vs st)"
| "canon_step (JVal (PDict d)) st = bindr (sorted_items d) (\<lambda>d'. Inr (lit ''{'', push_obj d' st))"

fun vsize :: "pyval \<Rightarrow> nat" where
  "vsize (PList vs) = 2 + sum_list (map (\<lambda>v. Suc (vsize v)) vs)"
| "vsize (PDict d) = 2 + sum_list (map (\<lambda>p. Suc (Suc (vsize (snd p)))) d)"
| "vsize _ = 1"

fun isize :: "jitem \<Rightarrow> nat" where
  "isize (JVal v) = vsize v"
| "isize _ = 1"

lemma vsize_pos [simp]: "0 < vsize v"
  by (cases v) auto

lemma isize_pos [simp]: "0 < isize i"
  by (cases i) auto

text \<open>The pushed items, spelled out.\<close>

fun arr_items :: "pyval list \<Rightarrow> jitem list" where
  "arr_items [] = []"
| "arr_items (v # vs) = COMMA # JVal v # arr_items vs"

fun obj_items :: "obj \<Rightarrow> jitem list" where
  "obj_items [] = []"
| "obj_items ((k, v) # d) = COMMA # JKey k # JVal v # obj_items d"

lemma push_arr_tail:
  "0 < n \<Longrightarrow> foldr (\<lambda>(idx, v) acc. (if 0 < idx then [COMMA] else []) @ JVal v # acc) (enumerate n vs) st
     = arr_items vs @ st"
  by (induction vs arbitrary: n) auto

lemma push_obj_tail:
  "0 < n \<Longrightarrow> foldr (\<lambda>(idx, (k, v)) acc. (if 0 < idx then [COMMA] else []) @ JKey k # JVal v # acc) (enumerate n d) st
     = obj_items d @ st"
  by (induction d arbitrary: n) auto

lemma push_arr_eq: "push_arr vs st = tl (arr_items vs) @ POP_ARR # st"
  by (cases vs) (simp_all add: push_arr_def push_arr_tail)

lemma push_obj_eq: "push_obj d st = tl (obj_items d) @ POP_OBJ # st"
  by (cases d) (auto simp: push_obj_def push_obj_tail)

lemma isize_arr_items: "sum_list (map isize (arr_items vs)) = sum_list (map (\<lambda>v. Suc (vsize v)) vs)"
  by (induction vs) auto

lemma isize_obj_items: "sum_list (map isize (obj_items d)) = sum_list (map (\<lambda>p. Suc (Suc (vsize (snd p)))) d)"
  by (induction d rule: obj_items.induct) auto

lemma sorted_items_mset: "sorted_items d = Inr d' \<Longrightarrow> mset d' = mset d"
  by (auto simp: sorted_items_def split: if_splits)

lemma sorted_items_set: "sorted_items d = Inr d' \<Longrightarrow> set d' = set d"
  using mset_eq_setD sorted_items_mset by blast

lemma sum_list_mset_cong: "mset xs = mset ys \<Longrightarrow> sum_list (map f xs) = (sum_list (map f ys) :: nat)"
  by (metis mset_map sum_mset_sum_list)

lemma canon_step_shrinks:
  "canon_step i st = Inr (t, st') \<Longrightarrow> sum_list (map isize st') < isize i + sum_list (map isize st)"
proof (cases "(i, st)" rule: canon_step.cases)
  case (10 vs st2)
  moreover have "sum_list (map isize (tl (arr_items vs))) \<le> sum_list (map isize (arr_items vs))"
    by (cases "arr_items vs") simp_all
  ultimately show "canon_step i st = Inr (t, st') \<Longrightarrow> ?thesis" by (auto simp: push_arr_eq isize_arr_items)
next
  case (11 d st2)
  show "canon_step i st = Inr (t, st') \<Longrightarrow> ?thesis"
  proof -
    assume "canon_step i st = Inr (t, st')"
    then obtain d' where d': "sorted_items d = Inr d'" "st' = push_obj d' st" using 11 by (auto simp: res_simps)
    have "sum_list (map isize (tl (obj_items d'))) \<le> sum_list (map isize (obj_items d'))"
      by (cases "obj_items d'") simp_all
    also have "\<dots> = sum_list (map (\<lambda>p. Suc (Suc (vsize (snd p)))) d)"
      unfolding isize_obj_items using sorted_items_mset [OF d'(1)] by (rule sum_list_mset_cong)
    finally show ?thesis using 11 by (auto simp: d' push_obj_eq)
  qed
qed (auto simp: res_simps)

function canon_loop :: "pystr \<Rightarrow> jitem list \<Rightarrow> exn + pystr" where
  "canon_loop out [] = Inr out"
| "canon_loop out (i # st) = bindr (canon_step i st) (\<lambda>(t, st'). canon_loop (out @ t) st')"
  by pat_completeness auto
termination
  by (relation "measure (\<lambda>(out, st). sum_list (map isize st))") (auto dest: canon_step_shrinks)

definition canonicalize :: "pyval \<Rightarrow> exn + pystr" where
  "canonicalize v = canon_loop [] [JVal v]"

definition canonicalize_bytes :: "pyval \<Rightarrow> exn + bytes" where
  "canonicalize_bytes v = bindr (canonicalize v) utf8_encode"

section \<open>The recursive reference definition\<close>

text \<open>RFC 8785 as a recursion on the value: what the explicit stack is to compute.\<close>

function jcs_ref :: "pyval \<Rightarrow> exn + pystr" where
  "jcs_ref PNone = Inr (lit ''null'')"
| "jcs_ref (PBool b) = Inr (if b then lit ''true'' else lit ''false'')"
| "jcs_ref (PStr s) = Inr (escape_string s)"
| "jcs_ref (PInt i) = emit_num (float_of_int i)"
| "jcs_ref (PFloat x) = es_number x"
| "jcs_ref (PList vs) =
     bindr (mapr jcs_ref vs) (\<lambda>ts. Inr (lit ''['' @ join (lit '','') ts @ lit '']''))"
| "jcs_ref (PDict d) =
     bindr (sorted_items d) (\<lambda>d'.
     bindr (mapr (\<lambda>p. bindr (jcs_ref (snd p)) (\<lambda>t. Inr (escape_string (fst p) @ lit '':'' @ t))) d') (\<lambda>ts.
       Inr (lit ''{'' @ join (lit '','') ts @ lit ''}'')))"
  by pat_completeness auto
termination
proof (relation "measure vsize")
  fix vs z
  show "z \<in> set vs \<Longrightarrow> (z, PList vs) \<in> measure vsize"
    by (induction vs) auto
next
  fix d d' and z :: "pystr \<times> pyval"
  have "z \<in> set d \<Longrightarrow> vsize (snd z) < vsize (PDict d)"
    by (induction d) auto
  then show "sorted_items d = Inr d' \<Longrightarrow> z \<in> set d' \<Longrightarrow> (snd z, PDict d) \<in> measure vsize"
    using sorted_items_set by auto
qed auto

text \<open>Markers append their text; a value on the stack behaves like one call of the reference.\<close>

lemma canon_loop_markers [simp]:
  "canon_loop out (POP_ARR # st) = canon_loop (out @ lit '']'') st"
  "canon_loop out (POP_OBJ # st) = canon_loop (out @ lit ''}'') st"
  "canon_loop out (COMMA # st) = canon_loop (out @ lit '','') st"
  "canon_loop out (JKey k # st) = canon_loop (out @ escape_string k @ lit '':'') st"
  by simp_all

declare canon_loop.simps(2) [simp del]

definition member_ref :: "pystr \<times> pyval \<Rightarrow> exn + pystr" where
  "member_ref p = bindr (jcs_ref (snd p)) (\<lambda>t. Inr (escape_string (fst p) @ lit '':'' @ t))"

definition ref_on_stack :: "pyval \<Rightarrow> bool" where
  "ref_on_stack v =
     (\<forall>out st. canon_loop out (JVal v # st) = bindr (jcs_ref v) (\<lambda>t. canon_loop (out @ t) st))"

lemma canon_loop_arr:
  "list_all ref_on_stack vs \<Longrightarrow>
    canon_loop out (arr_items vs @ st) =
      bindr (mapr jcs_ref vs) (\<lambda>ts. canon_loop (out @ concat (map (\<lambda>t. lit '','' @ t) ts)) st)"
  by (induction vs arbitrary: out) (auto simp: bindr_assoc ref_on_stack_def)

lemma canon_loop_obj:
  "list_all (\<lambda>p. ref_on_stack (snd p)) d \<Longrightarrow>
    canon_loop out (obj_items d @ st) =
      bindr (mapr member_ref d) (\<lambda>ts. canon_loop (out @ concat (map (\<lambda>t. lit '','' @ t) ts)) st)"
  by (induction d arbitrary: out) (auto simp: bindr_assoc ref_on_stack_def member_ref_def)

lemma canon_loop_elems:
  assumes "list_all ref_on_stack vs"
  shows "canon_loop out (tl (arr_items vs) @ st) =
    bindr (mapr jcs_ref vs) (\<lambda>ts. canon_loop (out @ join (lit '','') ts) st)"
  using assms
  by (cases vs) (auto simp: bindr_assoc canon_loop_arr join_Cons ref_on_stack_def)

lemma canon_loop_members:
  assumes "list_all (\<lambda>p. ref_on_stack (snd p)) d"
  shows "canon_loop out (tl (obj_items d) @ st) =
    bindr (mapr member_ref d) (\<lambda>ts. canon_loop (out @ join (lit '','') ts) st)"
  using assms
  by (cases d) (auto simp: bindr_assoc canon_loop_obj join_Cons ref_on_stack_def member_ref_def)

lemma ref_on_stack: "ref_on_stack v"
proof (induction v rule: jcs_ref.induct)
  case (6 vs)
  then have "list_all ref_on_stack vs" by (simp add: list_all_iff)
  then show ?case
    by (simp add: ref_on_stack_def canon_loop.simps(2) push_arr_eq canon_loop_elems bindr_assoc)
next
  case (7 d)
  have "list_all (\<lambda>p. ref_on_stack (snd p)) d'" if "sorted_items d = Inr d'" for d'
    using 7 [OF that] by (simp add: list_all_iff)
  then show ?case
    by (cases "sorted_items d")
      (simp_all add: ref_on_stack_def canon_loop.simps(2) push_obj_eq canon_loop_members bindr_assoc
        member_ref_def [abs_def])
qed (simp_all add: ref_on_stack_def canon_loop.simps(2) bindr_assoc emit_num_def)

lemma canonicalize_eq_ref: "canonicalize v = jcs_ref v"
  using ref_on_stack [of v] by (cases "jcs_ref v") (simp_all add: ref_on_stack_def canonicalize_def)

section \<open>Properties\<close>

text \<open>C3: the explicit-stack canonicalizer computes, on every Python value and including the values
  it refuses, what the structural recursion over the value computes.\<close>
theorem canonicalize_refines_recursion: "canonicalize v = jcs_ref v"
  by (rule canonicalize_eq_ref)

end
