(* ===== verification/Rounding.thy ===== *)
theory Rounding
  imports Binary64
begin

text \<open>
  Correctness of the binary64 model: rounding returns the nearest canonical value, depends on
  the fraction only, and seventeen significant digits always suffice, so the digits that
  \<open>repr\<close> prints read back as the same value.
\<close>

section \<open>Rounding is exact to the nearest value\<close>

lemma frac2: "real (num2 m e) / real (den2 e) = real m * 2 powi e"
  by (simp add: num2_def den2_def power_int_def field_simps)

lemma frac10: "real (num10 w t) / real (den10 t) = real w * 10 powi t"
  by (simp add: num10_def den10_def power_int_def field_simps)

lemma den_pos [simp]: "0 < den2 e" "0 < den10 t" "den2 e \<noteq> 0" "den10 t \<noteq> 0"
  by (simp_all add: den2_def den10_def)

lemma num_pos: "0 < m \<Longrightarrow> 0 < num2 m e" "0 < m \<Longrightarrow> 0 < num10 m t"
  by (simp_all add: num2_def num10_def)

lemma ilog2_bounds: "0 < n \<Longrightarrow> 2 ^ ilog2 n \<le> n \<and> n < 2 ^ Suc (ilog2 n)"
proof (induction n rule: ilog2.induct)
  case (1 n)
  show ?case
  proof (cases "n < 2")
    case True
    then show ?thesis using "1.prems" by (simp add: ilog2.simps [of n])
  next
    case False
    then have "2 ^ ilog2 (n div 2) \<le> n div 2" "n div 2 < 2 * 2 ^ ilog2 (n div 2)"
      using "1.IH" by simp_all
    then have "2 * 2 ^ ilog2 (n div 2) \<le> n" "n < 2 * (2 * 2 ^ ilog2 (n div 2))" by linarith+
    then show ?thesis using False by (simp add: ilog2.simps [of n])
  qed
qed

lemma powi_nat_bounds:
  assumes "2 ^ a \<le> n" "n < 2 ^ Suc a"
  shows "2 powi int a \<le> real n" "real n < 2 powi (int a + 1)"
proof -
  have "real (2 ^ a) \<le> real n" using assms(1) by (simp only: of_nat_le_iff)
  then show "2 powi int a \<le> real n" by simp
  have "real n < real (2 ^ Suc a)" using assms(2) by (simp only: of_nat_less_iff)
  then show "real n < 2 powi (int a + 1)" by (simp add: power_int_add)
qed

lemma powi_less_iff: "(2::real) powi a < 2 powi b \<longleftrightarrow> a < b"
  using power_int_strict_increasing [of a b "2::real"] power_int_increasing [of b a "2::real"]
  by fastforce

lemma flog2_bounds:
  assumes "0 < n" "0 < d"
  shows "2 powi flog2 n d \<le> real n / real d" "real n / real d < 2 powi (flog2 n d + 1)"
proof -
  define a b where "a = int (ilog2 n)" and "b = int (ilog2 d)"
  have n: "2 powi a \<le> real n" "real n < 2 powi (a + 1)"
    unfolding a_def by (rule powi_nat_bounds, insert ilog2_bounds [OF assms(1)], simp_all)+
  have d: "2 powi b \<le> real d" "real d < 2 powi (b + 1)"
    unfolding b_def by (rule powi_nat_bounds, insert ilog2_bounds [OF assms(2)], simp_all)+
  have up: "real n / real d < 2 powi (a - b + 1)"
  proof -
    have "real n / real d < 2 powi (a + 1) / 2 powi b"
      using n d assms by (intro frac_less) auto
    also have "\<dots> = 2 powi (a - b + 1)" by (simp add: power_int_diff [symmetric] algebra_simps)
    finally show ?thesis .
  qed
  have lo: "2 powi (a - b - 1) \<le> real n / real d"
  proof -
    have "(2::real) powi (a - b - 1) = 2 powi a / 2 powi (b + 1)"
      by (simp add: power_int_diff [symmetric] algebra_simps)
    also have "\<dots> \<le> real n / real d" using n d assms by (intro frac_le) auto
    finally show ?thesis .
  qed
  have "d * num2 1 (a - b) \<le> n * den2 (a - b) \<longleftrightarrow> real d * real (num2 1 (a - b)) \<le> real n * real (den2 (a - b))"
    by (simp flip: of_nat_mult)
  also have "\<dots> \<longleftrightarrow> real (num2 1 (a - b)) / real (den2 (a - b)) \<le> real n / real d"
    using assms by (simp add: field_simps)
  finally have cmp: "d * num2 1 (a - b) \<le> n * den2 (a - b) \<longleftrightarrow> 2 powi (a - b) \<le> real n / real d"
    by (simp add: frac2)
  show "2 powi flog2 n d \<le> real n / real d" "real n / real d < 2 powi (flog2 n d + 1)"
    using up lo cmp by (auto simp: flog2_def Let_def a_def b_def)
qed

lemma flog2_le:
  assumes "0 < n" "0 < d" "real n / real d < 2 powi (E + 1)"
  shows "flog2 n d \<le> E"
proof -
  have "(2::real) powi flog2 n d < 2 powi (E + 1)"
    using flog2_bounds(1) [OF assms(1,2)] assms(3) by linarith
  then show ?thesis by (simp add: powi_less_iff)
qed

lemma flog2_ge:
  assumes "0 < n" "0 < d" "2 powi E \<le> real n / real d"
  shows "E \<le> flog2 n d"
proof -
  have "(2::real) powi E < 2 powi (flog2 n d + 1)"
    using flog2_bounds(2) [OF assms(1,2)] assms(3) by linarith
  then show ?thesis by (simp add: powi_less_iff)
qed

lemma round_half_even_near:
  assumes "0 < d" "\<bar>real n / real d - real m\<bar> < 1 / 2"
  shows "round_half_even n d = m"
proof -
  define q r where "q = n div d" and "r = n mod d"
  have n: "n = q * d + r" and r: "r < d" using assms(1) by (simp_all add: q_def r_def)
  have y: "real n / real d = real q + real r / real d" using assms(1) by (simp add: n field_simps)
  have rd: "real r / real d < 1" "0 \<le> real r / real d" using r by simp_all
  have "real r / real d < 1 / 2 \<longleftrightarrow> 2 * real r < real d" "real r / real d > 1 / 2 \<longleftrightarrow> real d < 2 * real r"
    using assms(1) by (simp_all add: field_simps)
  then have half: "real r / real d < 1 / 2 \<longleftrightarrow> 2 * r < d" "real r / real d > 1 / 2 \<longleftrightarrow> d < 2 * r"
    by linarith+
  consider "2 * r < d" | "d < 2 * r" | "2 * r = d" by linarith
  then show ?thesis
  proof cases
    case 1
    then have "\<bar>real q - real m\<bar> < 1" using half y assms(2) rd by linarith
    then have "q = m" by linarith
    then show ?thesis using 1 by (simp add: round_half_even_def Let_def q_def [symmetric] r_def [symmetric])
  next
    case 2
    then have "\<bar>real q + 1 - real m\<bar> < 1" using half y assms(2) rd by linarith
    then have "q + 1 = m" by linarith
    then show ?thesis using 2 by (simp add: round_half_even_def Let_def q_def [symmetric] r_def [symmetric])
  next
    case 3
    then have "real r / real d = 1 / 2" using half rd by linarith
    then have "\<bar>2 * real q + 1 - 2 * real m\<bar> < 1" using y assms(2) by linarith
    then have "\<bar>2 * int q + 1 - 2 * int m\<bar> < 1" by linarith
    then show ?thesis by presburger
  qed
qed

text \<open>
  A fraction closer to a canonical value than half the gap to its neighbours rounds to it;
  below a power of two the gap is half as wide.
\<close>

lemma round64_near:
  assumes wf: "wf64 (FFin neg m e)" and m: "0 < m" and n: "0 < n" and d: "0 < d"
    and near: "\<bar>real n / real d - real m * 2 powi e\<bar> < 2 powi e / 2"
    and below: "m = 2 ^ 52 \<Longrightarrow> - 1074 < e \<Longrightarrow> real m * 2 powi e - real n / real d < 2 powi e / 4"
  shows "round64 neg n d = FFin neg m e"
proof -
  define X where "X = real n / real d / 2 powi e"
  have x: "real n / real d = X * 2 powi e" by (simp add: X_def)
  have p: "(0::real) < 2 powi e" by simp
  have near': "\<bar>X - real m\<bar> < 1 / 2"
  proof -
    have "\<bar>X * 2 powi e - real m * 2 powi e\<bar> = \<bar>X - real m\<bar> * 2 powi e"
      by (simp only: left_diff_distrib [symmetric] abs_mult abs_of_pos [OF p])
    then have "\<bar>X - real m\<bar> * 2 powi e < 1 / 2 * 2 powi e"
      using near by (simp only: x)
    then show ?thesis using p by (simp only: mult_less_cancel_right_pos)
  qed
  have mR: "real m \<le> 2 ^ 53 - 1" using wf by simp
  have ratio: "real (n * den2 E) / real (d * num2 1 E) = real n / real d / 2 powi E" for E
    using frac2 [of 1 E] d num_pos(1) [of 1 E] den_pos(1) [of E] by (auto simp: field_simps)
  have dpos: "0 < d * num2 1 E" for E using d num_pos(1) [of 1 E] by simp
  have pw: "real n / real d < 2 powi (e + k) \<longleftrightarrow> X < 2 powi k"
    "2 powi (e + k) \<le> real n / real d \<longleftrightarrow> 2 powi k \<le> X" for k
    using p by (simp_all add: x power_int_add mult.commute)
  show ?thesis
  proof (cases "m = 2 ^ 52 \<and> - 1074 < e \<and> X < real m")
    case False
    have "X < 2 ^ 53" using near' mR by linarith
    then have up: "flog2 n d \<le> e + 52"
      using pw(1) [of 53] by (intro flog2_le [OF n d]) (simp add: add.assoc)
    have e: "max (flog2 n d - 52) (- 1074) = e"
    proof (cases "e = - 1074")
      case True
      then show ?thesis using up by simp
    next
      case eF: False
      then have m52: "2 ^ 52 \<le> m" using wf by auto
      have "2 ^ 52 \<le> X"
      proof (cases "m = 2 ^ 52")
        case True
        then show ?thesis using False eF wf by auto
      next
        case mF: False
        then have "2 ^ 52 + 1 \<le> m" using m52 by simp
        then have "real (2 ^ 52 + 1) \<le> real m" by (simp only: of_nat_le_iff)
        then have "2 ^ 52 + 1 \<le> real m" by simp
        then show ?thesis using near' by linarith
      qed
      then have "e + 52 \<le> flog2 n d"
        using pw(2) [of 52] by (intro flog2_ge [OF n d]) simp
      then show ?thesis using up wf by simp
    qed
    have "round_half_even (n * den2 e) (d * num2 1 e) = m"
      using near' by (intro round_half_even_near [OF dpos]) (simp only: ratio X_def [symmetric])
    then show ?thesis using e wf n by (simp add: round64_def Let_def)
  next
    case True
    then have "real m * 2 powi e - real n / real d < 2 powi e / 4" using below by blast
    then have "(real m - X) * 2 powi e < 1 / 4 * 2 powi e" by (simp add: x left_diff_distrib)
    then have lo: "real m - X < 1 / 4" using p by (simp only: mult_less_cancel_right_pos)
    have m52: "real m = 2 ^ 52" using True by simp
    have "X < 2 ^ 52" "2 ^ 51 \<le> X" using True m52 lo by auto
    then have "flog2 n d = e + 51"
      using flog2_le [OF n d, of "e + 51"] flog2_ge [OF n d, of "e + 51"] pw(1) [of 52] pw(2) [of 51]
      by (simp add: add.assoc)
    then have e: "max (flog2 n d - 52) (- 1074) = e - 1" using True by simp
    have "real n / real d / 2 powi (e - 1) = 2 * X" by (simp add: X_def power_int_diff)
    moreover have "\<bar>2 * X - real (2 ^ 53)\<bar> < 1 / 2" using lo True m52 by simp
    ultimately have "round_half_even (n * den2 (e - 1)) (d * num2 1 (e - 1)) = 2 ^ 53"
      by (intro round_half_even_near [OF dpos]) (simp only: ratio)
    then show ?thesis using e wf n True by (simp add: round64_def Let_def)
  qed
qed

lemma round64_exact:
  assumes "wf64 (FFin neg m e)" "0 < d" "real n / real d = real m * 2 powi e" "m = 0 \<Longrightarrow> e = - 1074"
  shows "round64 neg n d = FFin neg m e"
proof (cases "m = 0")
  case True
  then show ?thesis using assms by (simp add: round64_def)
next
  case False
  then have "0 < real n / real d" using assms(3) by simp
  then have "0 < n" using assms(2) by (simp add: zero_less_divide_iff)
  then show ?thesis using assms False by (intro round64_near) simp_all
qed


text \<open>Rounding depends on the fraction only, not on its representation.\<close>

lemma flog2_cong:
  assumes "0 < n" "0 < d" "0 < n'" "0 < d'" "n * d' = n' * d"
  shows "flog2 n d = flog2 n' d'"
proof -
  have "real n * real d' = real n' * real d" using assms(5) by (simp flip: of_nat_mult)
  then have "real n / real d = real n' / real d'" using assms by (simp add: field_simps)
  then show ?thesis
    using flog2_le [OF assms(1,2), of "flog2 n' d'"] flog2_ge [OF assms(1,2), of "flog2 n' d'"]
      flog2_bounds [OF assms(3,4)] by simp
qed

lemma round_half_even_scale: "0 < k \<Longrightarrow> round_half_even (k * n) (k * d) = round_half_even n d"
proof -
  assume k: "0 < k"
  have "2 * (k * r) = k * (2 * r)" for r :: nat by simp
  then have "k * d < 2 * (k * r) \<longleftrightarrow> d < 2 * r" "2 * (k * r) = k * d \<longleftrightarrow> 2 * r = d" for r :: nat
    using k by (metis mult_less_cancel1, metis mult_cancel1 less_irrefl)
  then show ?thesis
    using k by (simp add: round_half_even_def Let_def mult_mod_right [symmetric])
qed

lemma round_half_even_cong:
  assumes "0 < d" "0 < d'" "n * d' = n' * d"
  shows "round_half_even n d = round_half_even n' d'"
proof -
  have "round_half_even n d = round_half_even (d' * n) (d' * d)"
    using assms by (simp add: round_half_even_scale)
  also have "\<dots> = round_half_even (d * n') (d * d')" using assms(3) by (simp add: mult.commute)
  finally show ?thesis using assms by (simp add: round_half_even_scale)
qed

lemma round64_cong:
  assumes "0 < d" "0 < d'" "n * d' = n' * d"
  shows "round64 neg n d = round64 neg n' d'"
proof (cases "n = 0")
  case True
  then show ?thesis using assms by (simp add: round64_def)
next
  case False
  then have n': "0 < n'" using assms by (cases n') auto
  have "round_half_even (n * den2 e) (d * num2 1 e) = round_half_even (n' * den2 e) (d' * num2 1 e)" for e
    using assms num_pos(1) [of 1 e] by (intro round_half_even_cong) (simp_all add: algebra_simps)
  moreover have "flog2 n d = flog2 n' d'" using assms False n' by (intro flog2_cong) auto
  ultimately show ?thesis using False n' by (simp add: round64_def)
qed

lemma float_of_decimal_shift: "float_of_decimal neg (w * 10 ^ z) t = float_of_decimal neg w (t + int z)"
  unfolding float_of_decimal_def
proof (rule round64_cong)
  have "real (num10 (w * 10 ^ z) t) / real (den10 t) = real (num10 w (t + int z)) / real (den10 (t + int z))"
    by (simp add: frac10 power_int_add)
  then have "real (num10 (w * 10 ^ z) t) * real (den10 (t + int z)) = real (num10 w (t + int z)) * real (den10 t)"
    using den_pos by (simp add: field_simps)
  then show "num10 (w * 10 ^ z) t * den10 (t + int z) = num10 w (t + int z) * den10 t"
    by (metis of_nat_eq_iff of_nat_mult)
qed simp_all

lemma round64_neg:
  "round64 neg n d = FFin neg m e \<longleftrightarrow> round64 False n d = FFin False m e"
proof (cases "n = 0")
  case False
  define E where "E = max (flog2 n d - 52) (- 1074)"
  obtain m' e' where me: "(if round_half_even (n * den2 E) (d * num2 1 E) = 2 ^ 53 then (2 ^ 52, E + 1)
      else (round_half_even (n * den2 E) (d * num2 1 E), E)) = (m', e')" by (rule prod.exhaust)
  have "round64 b n d = (if 971 < e' then FInf b else FFin b m' e')" for b
    using False by (simp only: round64_def Let_def E_def [symmetric] me if_False prod.case)
  then show ?thesis by simp
qed (simp add: round64_def)

lemma float_of_decimal_neg:
  "float_of_decimal neg w t = FFin neg m e \<longleftrightarrow> float_of_decimal False w t = FFin False m e"
  unfolding float_of_decimal_def by (rule round64_neg)

lemma float_of_decimal_near:
  assumes "wf64 (FFin neg m e)" "0 < m" "0 < w"
    and "\<bar>real w * 10 powi t - real m * 2 powi e\<bar> < 2 powi e / 2"
    and "m = 2 ^ 52 \<Longrightarrow> real m * 2 powi e - real w * 10 powi t < 2 powi e / 4"
  shows "float_of_decimal neg w t = FFin neg m e"
  unfolding float_of_decimal_def using assms
  by (intro round64_near) (simp_all add: frac10 num_pos)

section \<open>Seventeen digits always read back\<close>

lemma to_digits_lower: "0 < n \<Longrightarrow> 10 ^ (length (to_digits 10 n) - 1) \<le> n"
proof -
  assume n: "0 < n"
  obtain d ds where ds: "to_digits 10 n = d # ds" by (cases "to_digits 10 n") auto
  then have "d \<noteq> 0" using n hd_to_digits [of 10 n] by simp
  moreover have "n = d * 10 ^ length ds + of_digits 10 ds"
    using of_to_digits [of 10 n] by (simp add: ds of_digits_Cons)
  moreover have "1 * 10 ^ length ds \<le> d * 10 ^ length ds" if "d \<noteq> 0"
    using that by (intro mult_right_mono) simp_all
  ultimately have "10 ^ length ds \<le> n" by linarith
  then show ?thesis by (simp add: ds)
qed

lemma to_digits_upper: "n < 10 ^ length (to_digits 10 n)"
  using of_digits_less [OF to_digits_less [of 10 n]] by (simp add: of_to_digits)

lemma flog10_lower:
  assumes "0 < n" "0 < d"
  shows "10 powi flog10 n d \<le> real n / real d"
proof (cases "d \<le> n")
  case True
  define L where "L = length (to_digits 10 (n div d)) - 1"
  have p: "flog10 n d = int L" using True by (simp add: flog10_def L_def of_nat_diff Suc_leI)
  have "10 ^ L \<le> n div d"
    unfolding L_def using True assms by (intro to_digits_lower) (simp add: div_greater_zero_iff)
  then have "10 ^ L * d \<le> n" using assms by (simp add: less_eq_div_iff_mult_less_eq)
  then have "real (10 ^ L * d) \<le> real n" by (simp only: of_nat_le_iff)
  then show ?thesis using assms by (simp add: p field_simps)
next
  case False
  define c where "c = (d - 1) div n"
  define j where "j = length (to_digits 10 c)"
  have p: "flog10 n d = - int j" using False by (simp add: flog10_def c_def j_def)
  have "d - 1 < n * (c + 1)" using assms by (simp add: c_def dividend_less_times_div)
  moreover have "c + 1 \<le> 10 ^ j" using to_digits_upper [of c] by (simp add: j_def)
  then have "n * (c + 1) \<le> n * 10 ^ j" by (rule mult_le_mono2)
  ultimately have "d \<le> n * 10 ^ j" by linarith
  then have "real d \<le> real (n * 10 ^ j)" by (simp only: of_nat_le_iff)
  then show ?thesis using assms by (simp add: p power_int_minus field_simps)
qed

lemma div_bounds:
  assumes "0 < b"
  shows "real (a div b) \<le> real a / real b" "real a / real b < real (a div b) + 1"
proof -
  define q r where "q = a div b" and "r = a mod b"
  have "a = q * b + r" "r < b" using assms by (simp_all add: q_def r_def)
  then have "real a = real q * real b + real r" "real r < real b" by simp_all
  then show "real (a div b) \<le> real a / real b" "real a / real b < real (a div b) + 1"
    using assms by (simp_all add: q_def [symmetric] field_simps)
qed

lemma pick_digits_Some:
  "pick_digits m e k = Some (w, t) \<Longrightarrow> float_of_decimal False w t = FFin False m e"
  by (auto simp: pick_digits_def Let_def split: if_splits)

lemma pick_digits_17:
  assumes wf: "wf64 (FFin False m e)" and m: "0 < m"
  shows "pick_digits m e 17 \<noteq> None"
proof -
  define n d where "n = num2 m e" and "d = den2 e"
  define t where "t = int 17 - 1 - flog10 n d"
  define s where "s = n * num10 1 t div (d * den10 t)"
  define x where "x = real m * 2 powi e"
  have n: "0 < n" "0 < d" using m by (simp_all add: n_def d_def num_pos)
  have x: "x = real n / real d" by (simp add: x_def n_def d_def frac2)
  have T: "(0::real) < 10 powi t" by simp
  define Y where "Y = x * 10 powi t"
  have Y: "Y = real (n * num10 1 t) / real (d * den10 t)"
    using frac10 [of 1 t] by (simp add: Y_def x field_simps)
  have "0 < d * den10 t" using n by simp
  then have s: "real s \<le> Y" "Y < real s + 1"
    unfolding Y s_def by (rule div_bounds)+
  have "10 powi flog10 n d \<le> x" using flog10_lower [OF n] by (simp add: x)
  then have "10 powi flog10 n d * 10 powi t \<le> Y" using T by (simp add: Y_def mult_right_mono)
  then have Y16: "10 ^ 16 \<le> Y" by (simp add: t_def power_int_add [symmetric])
  have conv: "real w * 10 powi (- t) - x = (real w - Y) * 10 powi (- t)" for w
    by (simp add: Y_def algebra_simps power_int_minus)
  have \<delta>: "10 powi (- t) * 10000000000000000 \<le> x"
  proof -
    have "x = Y * 10 powi (- t)" by (simp add: Y_def power_int_minus)
    then show ?thesis using Y16 by (simp add: mult.commute mult_right_mono)
  qed
  have e: "(0::real) < 2 powi e" by simp
  have mle: "real m * 2 powi e \<le> 9007199254740991 * 2 powi e" using wf by (intro mult_right_mono) simp_all
  have good: "float_of_decimal False w (- t) = FFin False m e" if "\<bar>real w - Y\<bar> \<le> 1 / 2" for w
  proof (rule float_of_decimal_near [OF wf m])
    show "0 < w" using that Y16 by (cases w) simp_all
    have "\<bar>real w * 10 powi (- t) - x\<bar> = \<bar>real w - Y\<bar> * 10 powi (- t)"
      unfolding conv by (simp add: abs_mult)
    also have "\<dots> \<le> 1 / 2 * 10 powi (- t)" using that by (intro mult_right_mono) simp_all
    finally have near: "\<bar>real w * 10 powi (- t) - x\<bar> \<le> 10 powi (- t) / 2" by simp
    have "(10::real) powi (- t) < 2 powi e" using \<delta> mle e unfolding x_def by linarith
    then show "\<bar>real w * 10 powi (- t) - real m * 2 powi e\<bar> < 2 powi e / 2"
      using near by (simp add: x_def)
    show "real m * 2 powi e - real w * 10 powi (- t) < 2 powi e / 4" if "m = 2 ^ 52"
    proof -
      have "(10::real) powi (- t) / 2 < 2 powi e / 4"
      proof -
        have "(10::real) powi (- t) * 10000000000000000 \<le> 4503599627370496 * 2 powi e"
          using \<delta> by (simp add: x_def that)
        then show ?thesis using e by linarith
      qed
      then show ?thesis using near unfolding x_def by linarith
    qed
  qed
  have "\<bar>real s - Y\<bar> \<le> 1 / 2 \<or> \<bar>real (s + 1) - Y\<bar> \<le> 1 / 2" using s by (simp; linarith)
  then have "float_of_decimal False s (- t) = FFin False m e \<or> float_of_decimal False (s + 1) (- t) = FFin False m e"
    using good by blast
  then show ?thesis
    unfolding pick_digits_def Let_def n_def [symmetric] d_def [symmetric] t_def [symmetric] s_def [symmetric]
    by auto
qed

lemma shortest_from_reads_back:
  assumes "wf64 (FFin False m e)" "0 < m" "k \<le> 17" "17 < k + fuel" "shortest_from fuel m e k = (w, t)"
  shows "float_of_decimal False w t = FFin False m e"
  using assms(3-)
proof (induction fuel arbitrary: k)
  case (Suc fuel)
  show ?case
  proof (cases "pick_digits m e k")
    case None
    then have "k \<noteq> 17" using pick_digits_17 [OF assms(1,2)] by auto
    then show ?thesis using Suc.prems Suc.IH [of "Suc k"] None by simp
  next
    case (Some r)
    then show ?thesis using Suc.prems pick_digits_Some by simp
  qed
qed simp

lemma shortest_reads_back:
  assumes "wf64 (FFin neg m e)" "0 < m" "shortest m e = (w, t)"
  shows "float_of_decimal neg w t = FFin neg m e"
proof -
  have "float_of_decimal False w t = FFin False m e"
    using assms by (intro shortest_from_reads_back [of m e 1 17]) (simp_all add: shortest_def)
  then show ?thesis using float_of_decimal_neg by blast
qed

section \<open>Results are canonical\<close>

lemma round_half_even_le: "0 < d \<Longrightarrow> n \<le> k * d \<Longrightarrow> round_half_even n d \<le> k"
proof -
  assume d: "0 < d" and n: "n \<le> k * d"
  then have "n div d \<le> k" using div_le_mono [OF n, of d] by simp
  moreover have "n mod d = 0" if "n div d = k" using that n div_mult_mod_eq [of n d] by simp
  ultimately show ?thesis using d by (fastforce simp: round_half_even_def Let_def)
qed

lemma round_half_even_ge: "0 < d \<Longrightarrow> k * d \<le> n \<Longrightarrow> k \<le> round_half_even n d"
  by (simp add: round_half_even_def Let_def less_eq_div_iff_mult_less_eq le_SucI)

lemma round64_wf:
  assumes d: "0 < d"
  shows "wf64 (round64 neg n d)"
proof (cases "n = 0")
  case False
  then have n: "0 < n" by simp
  define e where "e = max (flog2 n d - 52) (- 1074)"
  define M where "M = round_half_even (n * den2 e) (d * num2 1 e)"
  have D: "0 < d * num2 1 e" using d num_pos(1) [of 1 e] by simp
  have q: "real (num2 1 e) = 2 powi e * real (den2 e)" using frac2 [of 1 e] by (simp add: field_simps)
  have den: "0 < real (den2 e)" and dR: "0 < real d" using d by simp_all
  have r: "K * real (d * num2 1 e) = K * 2 powi e * real d * real (den2 e)" for K
    by (simp only: of_nat_mult q mult_ac)
  have cmp: "real n / real d \<le> K * 2 powi e \<longleftrightarrow> real (n * den2 e) \<le> K * real (d * num2 1 e)"
      "K * 2 powi e \<le> real n / real d \<longleftrightarrow> K * real (d * num2 1 e) \<le> real (n * den2 e)" for K
    unfolding r of_nat_mult [of n] mult_le_cancel_right_pos [OF den] pos_divide_le_eq [OF dR]
      pos_le_divide_eq [OF dR] by (rule refl)+
  have up: "M \<le> 2 ^ 53"
  proof -
    have "real n / real d \<le> 2 powi (flog2 n d + 1)" using flog2_bounds(2) [OF n d] by simp
    also have "\<dots> \<le> 2 powi (53 + e)" by (rule power_int_increasing) (auto simp: e_def)
    also have "\<dots> = 2 ^ 53 * 2 powi e" by (simp add: power_int_add)
    finally have "real (n * den2 e) \<le> real (2 ^ 53 * (d * num2 1 e))" unfolding cmp by simp
    then show ?thesis unfolding M_def using D by (intro round_half_even_le) (simp only: of_nat_le_iff)+
  qed
  have lo: "2 ^ 52 \<le> M" if "e \<noteq> - 1074"
  proof -
    have "e = flog2 n d - 52" using that by (simp add: e_def max_def split: if_splits)
    then have "2 ^ 52 * 2 powi e = (2::real) powi (flog2 n d)" by (simp add: power_int_diff)
    then have "2 ^ 52 * 2 powi e \<le> real n / real d" using flog2_bounds(1) [OF n d] by simp
    then have "real (2 ^ 52 * (d * num2 1 e)) \<le> real (n * den2 e)" unfolding cmp by simp
    then show ?thesis unfolding M_def using D by (intro round_half_even_ge) (simp only: of_nat_le_iff)+
  qed
  have "- 1074 \<le> e" by (simp add: e_def)
  moreover have "round64 neg n d =
      (case (if M = 2 ^ 53 then (2 ^ 52, e + 1) else (M, e)) of (m', e') \<Rightarrow> if 971 < e' then FInf neg else FFin neg m' e')"
    unfolding round64_def Let_def e_def [symmetric] M_def [symmetric] using False by (simp only: if_False)
  ultimately show ?thesis using up lo by auto
qed (simp add: round64_def)

lemma float_of_decimal_wf: "wf64 (float_of_decimal neg w t)"
  by (simp add: float_of_decimal_def round64_wf)

lemma round64_sign: "round64 neg n d = FFin b m e \<Longrightarrow> b = neg"
  by (auto simp: round64_def Let_def split: if_splits prod.splits)

end
