(* ===== verification/Jcs_Number.thy ===== *)
theory Jcs_Number
  imports Jcs Rounding Json_Input
begin

text \<open>
  The number path end to end: the text \<^verbatim>\<open>_es_number\<close> prints for a float is a JSON number token that
  \<^verbatim>\<open>_number\<close> reads completely and that \<^verbatim>\<open>float\<close> turns back into the same float. The slow path of
  \<^verbatim>\<open>_es_number\<close>, which takes \<^verbatim>\<open>repr(n)\<close> apart with regular expressions, is shown to lay out the
  shortest digits as ES2022 Number::toString does.
\<close>

section \<open>Number tokens\<close>

text \<open>Sign, integer digits, fraction digits and signed exponent digits as a token.\<close>

definition exp_text :: "(pystr \<times> pystr) option \<Rightarrow> pystr" where
  "exp_text ex = (case ex of None \<Rightarrow> [] | Some (sg, ds) \<Rightarrow> lit ''e'' @ sg @ ds)"

definition exp_val :: "(pystr \<times> pystr) option \<Rightarrow> int" where
  "exp_val ex = (case ex of None \<Rightarrow> 0
     | Some (sg, ds) \<Rightarrow> if sg = lit ''-'' then - int (nat_of_digits ds) else int (nat_of_digits ds))"

definition frac_text :: "pystr \<Rightarrow> pystr" where
  "frac_text fr = (if fr = [] then [] else lit ''.'' @ fr)"

definition tok_text :: "bool \<Rightarrow> pystr \<Rightarrow> pystr \<Rightarrow> (pystr \<times> pystr) option \<Rightarrow> pystr" where
  "tok_text neg ip fr ex = (if neg then lit ''-'' else []) @ ip @ frac_text fr @ exp_text ex"

definition tok_ok :: "pystr \<Rightarrow> pystr \<Rightarrow> (pystr \<times> pystr) option \<Rightarrow> bool" where
  "tok_ok ip fr ex =
     (list_all is_digit ip \<and> ip \<noteq> [] \<and> (hd ip \<noteq> 48 \<or> ip = [48]) \<and> list_all is_digit fr \<and>
      (case ex of None \<Rightarrow> True
       | Some (sg, ds) \<Rightarrow> (sg = [] \<or> sg = lit ''+'' \<or> sg = lit ''-'') \<and> list_all is_digit ds \<and> ds \<noteq> []))"

text \<open>A continuation that cannot extend a number.\<close>

definition num_stop :: "pystr \<Rightarrow> bool" where
  "num_stop r = (r = [] \<or> \<not> is_digit (hd r) \<and> hd r \<notin> {ch CHR ''.'', ch CHR ''e'', ch CHR ''E''})"

lemma not_digit_chars [simp]:
  "\<not> is_digit 46" "\<not> is_digit 101" "\<not> is_digit 69" "\<not> is_digit 45" "\<not> is_digit 43" "is_digit 48"
  by (simp_all add: is_digit_def)

lemma lit_chars [simp]:
  "lit ''-'' = [45]" "lit ''+'' = [43]" "lit ''.'' = [46]" "lit ''e'' = [101]" "lit ''0'' = [48]"
  "lit ''0.'' = [48, 46]" "lit ''.0'' = [46, 48]"
  by (simp_all add: lit_def)

lemma num_stop_digit: "num_stop r \<Longrightarrow> r = [] \<or> \<not> is_digit (hd r)"
  by (auto simp: num_stop_def)

lemma strip_minus_tok:
  "tok_ok ip fr ex \<Longrightarrow> strip_minus (tok_text neg ip fr ex @ r) = (neg, ip @ frac_text fr @ exp_text ex @ r)"
  by (cases ip) (auto simp: strip_minus_def tok_text_def tok_ok_def is_digit_def)

lemma exp_stop:
  "num_stop r \<Longrightarrow> exp_text ex @ r = [] \<or> \<not> is_digit (hd (exp_text ex @ r))"
  by (auto simp: exp_text_def num_stop_def split: option.splits)

lemma frac_stop:
  "num_stop r \<Longrightarrow> frac_text fr @ exp_text ex @ r = [] \<or> \<not> is_digit (hd (frac_text fr @ exp_text ex @ r))"
  using exp_stop by (auto simp: frac_text_def)

lemma scan_int_tok:
  assumes "tok_ok ip fr ex" "num_stop r"
  shows "scan_int (ip @ frac_text fr @ exp_text ex @ r) = Inr (frac_text fr @ exp_text ex @ r)"
proof -
  obtain c t where c: "ip = c # t" using assms(1) by (cases ip) (auto simp: tok_ok_def)
  have "dropWhile is_digit (ip @ frac_text fr @ exp_text ex @ r) = frac_text fr @ exp_text ex @ r"
    using assms by (intro dropWhile_append_stop frac_stop) (auto simp: tok_ok_def)
  then show ?thesis
    using assms(1) by (cases "c = 48") (auto simp: scan_int_def c tok_ok_def)
qed

lemma scan_frac_tok:
  assumes "tok_ok ip fr ex" "num_stop r"
  shows "scan_frac (frac_text fr @ exp_text ex @ r) = Inr (exp_text ex @ r)"
proof (cases fr)
  case Nil
  have "exp_text ex @ r = [] \<or> hd (exp_text ex @ r) \<noteq> ch CHR ''.''"
    using assms(2) by (auto simp: exp_text_def num_stop_def split: option.splits)
  then show ?thesis using Nil by (cases "exp_text ex @ r") (auto simp: scan_frac_def frac_text_def)
next
  case (Cons d t)
  have "dropWhile is_digit (fr @ exp_text ex @ r) = exp_text ex @ r"
    using assms by (intro dropWhile_append_stop exp_stop) (auto simp: tok_ok_def)
  then show ?thesis using Cons assms(1) by (auto simp: scan_frac_def frac_text_def tok_ok_def)
qed

lemma scan_exp_tok:
  assumes "tok_ok ip fr ex" "num_stop r"
  shows "scan_exp (exp_text ex @ r) = Inr r"
proof (cases ex)
  case None
  then show ?thesis using assms(2) by (cases r) (auto simp: scan_exp_def exp_text_def num_stop_def)
next
  case (Some p)
  obtain sg ds where p: "p = (sg, ds)" by (cases p)
  have ds: "list_all is_digit ds" "ds \<noteq> []" "sg = [] \<or> sg = [43] \<or> sg = [45]"
    using assms(1) Some p by (auto simp: tok_ok_def)
  then obtain d t where d: "ds = d # t" "is_digit d" by (cases ds) auto
  have "skip_sign (sg @ ds @ r) = ds @ r"
    using ds d by (auto simp: skip_sign_def is_digit_def)
  moreover have "dropWhile is_digit (ds @ r) = r"
    using assms ds by (intro dropWhile_append_stop num_stop_digit)
  ultimately show ?thesis using d by (simp add: Some p exp_text_def scan_exp_def del: dropWhile.simps)
qed

lemma tok_exp_text:
  assumes "tok_ok ip fr ex"
  shows "tok_exp (exp_text ex) = exp_val ex"
proof (cases ex)
  case (Some p)
  obtain sg ds where p: "p = (sg, ds)" by (cases p)
  have "list_all is_digit ds" "ds \<noteq> []" "sg = [] \<or> sg = [43] \<or> sg = [45]"
    using assms(1) Some p by (auto simp: tok_ok_def)
  then show ?thesis
    by (cases ds) (auto simp: Some p tok_exp_def exp_text_def exp_val_def is_digit_def)
qed (simp add: tok_exp_def exp_text_def exp_val_def)

lemma py_float_tok:
  assumes "tok_ok ip fr ex"
  shows "py_float (tok_text neg ip fr ex) =
    float_of_decimal neg (nat_of_digits (ip @ fr)) (exp_val ex - int (length fr))"
proof -
  have stop: "num_stop []" by (simp add: num_stop_def)
  have strip: "strip_minus (tok_text neg ip fr ex) = (neg, ip @ frac_text fr @ exp_text ex)"
    using strip_minus_tok [OF assms, of neg "[]"] by simp
  have ip: "takeWhile is_digit (ip @ frac_text fr @ exp_text ex) = ip"
      "dropWhile is_digit (ip @ frac_text fr @ exp_text ex) = frac_text fr @ exp_text ex"
    using frac_stop [OF stop, of fr ex] assms
    by (auto simp: tok_ok_def intro!: takeWhile_append_stop dropWhile_append_stop)
  have fr: "takeWhile is_digit (fr @ exp_text ex) = fr" "dropWhile is_digit (fr @ exp_text ex) = exp_text ex"
    using exp_stop [OF stop, of ex] assms
    by (auto simp: tok_ok_def intro!: takeWhile_append_stop dropWhile_append_stop)
  have "tok_frac (frac_text fr @ exp_text ex) = (fr, exp_text ex)"
  proof (cases fr)
    case Nil
    then show ?thesis by (auto simp: tok_frac_def frac_text_def exp_text_def split: option.splits)
  next
    case (Cons d t)
    then show ?thesis using fr by (simp add: tok_frac_def frac_text_def del: takeWhile.simps dropWhile.simps)
  qed
  then show ?thesis by (simp add: py_float_def strip ip tok_exp_text [OF assms])
qed

text \<open>A well-formed token is read completely; the result is the float it denotes.\<close>

lemma number_tok_text:
  assumes "tok_ok ip fr ex" "num_stop r" "py_float (tok_text neg ip fr ex) = x" "num_ok x"
    "is_zero x \<Longrightarrow> \<not> neg"
  shows "number_tok (tok_text neg ip fr ex @ r) = Inr (x, r)"
proof -
  have "take (length (tok_text neg ip fr ex @ r) - length r) (tok_text neg ip fr ex @ r) = tok_text neg ip fr ex"
    by simp
  moreover have "fst (strip_minus (tok_text neg ip fr ex)) = neg"
    using strip_minus_tok [OF assms(1), of neg "[]"] by simp
  ultimately show ?thesis
    using assms
    by (simp add: number_tok_def Let_def strip_minus_tok scan_int_tok scan_frac_tok scan_exp_tok num_ok_def
        del: length_append)
qed

section \<open>Shortest digits\<close>

definition sig_digits :: "pystr \<Rightarrow> bool" where
  "sig_digits ds = (list_all is_digit ds \<and> ds \<noteq> [] \<and> hd ds \<noteq> 48 \<and> last ds \<noteq> 48)"

lemma rstrip0_append: "\<exists>z. s = rstrip0 s @ replicate z 48"
proof -
  have "rev s = takeWhile (\<lambda>c. c = 48) (rev s) @ dropWhile (\<lambda>c. c = 48) (rev s)" by simp
  moreover have "takeWhile (\<lambda>c. c = 48) (rev s) = replicate (length (takeWhile (\<lambda>c. c = 48) (rev s))) 48"
    by (rule sym, rule replicate_length_same) (auto dest: set_takeWhileD)
  ultimately have "s = rev (dropWhile (\<lambda>c. c = 48) (rev s)) @ rev (replicate (length (takeWhile (\<lambda>c. c = 48) (rev s))) 48)"
    by (metis rev_append rev_rev_ident)
  then show ?thesis by (auto simp: rstrip0_def)
qed

lemma rstrip0_sig: "s \<noteq> [] \<Longrightarrow> last s \<noteq> 48 \<Longrightarrow> rstrip0 (s @ replicate z 48) = s"
  using dropWhile_append_stop [of "\<lambda>c. c = 48" "replicate z 48" "rev s"]
  by (simp add: rstrip0_def list_all_length hd_rev)

lemma last_rstrip0: "rstrip0 s \<noteq> [] \<Longrightarrow> last (rstrip0 s) \<noteq> 48"
  unfolding rstrip0_def using hd_dropWhile [of "\<lambda>c. c = 48" "rev s"] by (auto simp: last_rev)

lemma sig_digits_rstrip0:
  assumes "0 < w"
  shows "sig_digits (rstrip0 (str_nat w))"
proof -
  obtain z where z: "str_nat w = rstrip0 (str_nat w) @ replicate z 48" using rstrip0_append by blast
  have hd: "hd (str_nat w) \<noteq> 48" using assms hd_str_nat by simp
  then have ne: "rstrip0 (str_nat w) \<noteq> []"
    using z by (metis append_Nil hd_replicate replicate_empty str_nat_not_Nil)
  then have "hd (rstrip0 (str_nat w)) \<noteq> 48" using z hd by (metis hd_append2)
  moreover have "list_all is_digit (rstrip0 (str_nat w))"
    using str_nat_digits [of w] z by (metis list_all_append)
  ultimately show ?thesis using ne last_rstrip0 by (simp add: sig_digits_def)
qed

lemma nat_of_digits_append_zeros: "nat_of_digits (ds @ replicate z 48) = nat_of_digits ds * 10 ^ z"
proof -
  have "hex_val 48 = 0" by (simp add: hex_val_def)
  then show ?thesis by (simp add: nat_of_digits_def of_digits_append_zeros)
qed

lemma nat_of_digits_zeros_append: "nat_of_digits (replicate z 48 @ ds) = nat_of_digits ds"
proof -
  have "hex_val 48 = 0" by (simp add: hex_val_def)
  then show ?thesis by (simp add: nat_of_digits_def)
qed

text \<open>The digits \<open>repr\<close> prints are significant digits whose decimal reads back as the value.\<close>

lemma repr_digits_spec:
  assumes "wf64 (FFin neg m e)" "0 < m" "repr_digits m e = (ds, p)"
  shows "sig_digits ds" "float_of_decimal neg (nat_of_digits ds) (p + 1 - int (length ds)) = FFin neg m e"
proof -
  obtain w t where w: "shortest m e = (w, t)" by (cases "shortest m e")
  have rb: "float_of_decimal neg w t = FFin neg m e" by (rule shortest_reads_back [OF assms(1,2) w])
  have w0: "0 < w"
  proof (rule ccontr)
    assume "\<not> 0 < w"
    moreover have "num10 0 t = 0" by (simp add: num10_def)
    ultimately show False using rb assms(2) by (simp add: float_of_decimal_def round64_def)
  qed
  have ds: "ds = rstrip0 (str_nat w)" "p = t + int (length (str_nat w)) - 1"
    using assms(3) by (auto simp: repr_digits_def w Let_def)
  show "sig_digits ds" unfolding ds by (rule sig_digits_rstrip0 [OF w0])
  obtain z where z: "str_nat w = ds @ replicate z 48" using rstrip0_append unfolding ds by blast
  have "w = nat_of_digits ds * 10 ^ z"
    using nat_of_str_nat [of w] unfolding z by (simp add: nat_of_digits_append_zeros)
  moreover have "p + 1 - int (length ds) = t + int z" unfolding ds(2) z by simp
  ultimately show "float_of_decimal neg (nat_of_digits ds) (p + 1 - int (length ds)) = FFin neg m e"
    using rb by (simp add: float_of_decimal_shift)
qed

section \<open>The ES2022 layout reads back\<close>

lemma zeros_eq: "zeros n = replicate (nat n) 48"
  by (simp add: zeros_def)

lemma str_int_exp:
  "0 \<le> i \<Longrightarrow> str_int i = str_nat (nat i)"
  "i < 0 \<Longrightarrow> str_int i = 45 # str_nat (nat (- i))"
  by (simp_all add: str_int_def)

text \<open>Every layout is a well-formed token for the decimal it stands for.\<close>

lemma es_layout_tok:
  assumes sig: "sig_digits ds"
  shows "\<exists>ip fr ex. es_layout ds p = tok_text False ip fr ex \<and> tok_ok ip fr ex \<and>
    float_of_decimal neg (nat_of_digits (ip @ fr)) (exp_val ex - int (length fr)) =
    float_of_decimal neg (nat_of_digits ds) (p + 1 - int (length ds))"
proof -
  let ?Q = "\<lambda>ip fr ex. es_layout ds p = tok_text False ip fr ex \<and> tok_ok ip fr ex \<and>
    float_of_decimal neg (nat_of_digits (ip @ fr)) (exp_val ex - int (length fr)) =
    float_of_decimal neg (nat_of_digits ds) (p + 1 - int (length ds))"
  have ds: "list_all is_digit ds" "ds \<noteq> []" "hd ds \<noteq> 48" using sig by (auto simp: sig_digits_def)
  have z: "list_all is_digit (replicate n 48)" for n by (simp add: list_all_length)
  consider (int) "0 \<le> p" "p \<le> 20" "int (length ds) \<le> p + 1"
    | (frac) "0 \<le> p" "p \<le> 20" "p + 1 < int (length ds)"
    | (small) "- 6 \<le> p" "p < 0"
    | (sci) "p < - 6 \<or> 20 < p" by linarith
  then show ?thesis
  proof cases
    case int
    define n where "n = nat (p + 1 - int (length ds))"
    have "es_layout ds p = tok_text False (ds @ replicate n 48) [] None"
      using int by (simp add: es_layout_def Let_def zeros_eq n_def tok_text_def frac_text_def exp_text_def)
    moreover have "tok_ok (ds @ replicate n 48) [] None" using ds z by (simp add: tok_ok_def)
    moreover have "float_of_decimal neg (nat_of_digits (ds @ replicate n 48)) 0 =
        float_of_decimal neg (nat_of_digits ds) (p + 1 - int (length ds))"
      using int by (simp add: nat_of_digits_append_zeros float_of_decimal_shift n_def)
    ultimately have "?Q (ds @ replicate n 48) [] None" by (simp add: exp_val_def)
    then show ?thesis by blast
  next
    case frac
    define n where "n = nat (p + 1)"
    have n: "0 < n" "n < length ds" using frac by (auto simp: n_def)
    have "es_layout ds p = tok_text False (take n ds) (drop n ds) None"
      using frac n by (simp add: es_layout_def Let_def n_def tok_text_def frac_text_def exp_text_def)
    moreover have "tok_ok (take n ds) (drop n ds) None"
      using ds n by (auto simp: tok_ok_def list_all_iff dest: in_set_takeD in_set_dropD)
    ultimately have "?Q (take n ds) (drop n ds) None" using frac n by (simp add: exp_val_def n_def)
    then show ?thesis by blast
  next
    case small
    define n where "n = nat (- (p + 1))"
    have "es_layout ds p = tok_text False [48] (replicate n 48 @ ds) None"
      using small ds by (simp add: es_layout_def Let_def zeros_eq n_def tok_text_def frac_text_def exp_text_def)
    moreover have "tok_ok [48] (replicate n 48 @ ds) None" using ds z by (simp add: tok_ok_def)
    moreover have "nat_of_digits ([48] @ replicate n 48 @ ds) = nat_of_digits ds"
      using nat_of_digits_zeros_append [of "Suc n" ds] by simp
    ultimately have "?Q [48] (replicate n 48 @ ds) None" using small by (simp add: exp_val_def n_def add.commute)
    then show ?thesis by blast
  next
    case sci
    define ex :: "pystr \<times> pystr" where "ex = (if 0 \<le> p then ([43], str_nat (nat p)) else ([45], str_nat (nat (- p))))"
    have ex: "exp_val (Some ex) = p" by (simp add: ex_def exp_val_def)
    have tx: "es_layout ds p = tok_text False (take 1 ds) (drop 1 ds) (Some ex)"
      using sci ds
      by (cases ds)
        (auto simp: es_layout_def Let_def tok_text_def frac_text_def exp_text_def ex_def str_int_exp)
    have "tok_ok (take 1 ds) (drop 1 ds) (Some ex)"
      using ds by (cases ds) (auto simp: tok_ok_def ex_def str_nat_digits)
    moreover have "int (length (drop 1 ds)) = int (length ds) - 1" using ds by (cases ds) simp_all
    ultimately have "?Q (take 1 ds) (drop 1 ds) (Some ex)" using tx ex by (simp add: algebra_simps del: drop_Suc_Cons take_Suc_Cons)
    then show ?thesis by blast
  qed
qed

section \<open>Taking the printed form apart\<close>

lemma takeWhile_digits:
  "list_all is_digit xs \<Longrightarrow> takeWhile is_digit xs = xs"
  "list_all is_digit xs \<Longrightarrow> dropWhile is_digit xs = []"
  by (auto simp: list_all_iff takeWhile_eq_all_conv)

lemma opt_sign_digit: "is_digit d \<Longrightarrow> opt_sign (d # s) = (False, d # s)"
  by (auto simp: opt_sign_def is_digit_def)

lemma opt_sign_digits: "list_all is_digit s \<Longrightarrow> s \<noteq> [] \<Longrightarrow> opt_sign (s @ t) = (False, s @ t)"
  by (cases s) (simp_all add: opt_sign_digit)

text \<open>A fixed form is not scientific, and its groups are the two digit runs.\<close>

lemma repr_fixed_match:
  assumes "list_all is_digit ip" "ip \<noteq> []" "list_all is_digit fr" "fr \<noteq> []"
  shows "repr_sci (ip @ 46 # fr) = None" "repr_fixed (ip @ 46 # fr) = Some (ip, fr)"
proof -
  obtain d t where d: "ip = d # t" "is_digit d" "list_all is_digit t" using assms by (cases ip) auto
  have os: "opt_sign (ip @ 46 # fr) = (False, ip @ 46 # fr)" by (rule opt_sign_digits [OF assms(1,2)])
  have fr: "opt_frac (46 # fr) = Some (fr, [])" using assms by (simp add: opt_frac_def takeWhile_digits)
  show "repr_sci (ip @ 46 # fr) = None"
  proof (cases t)
    case Nil
    then show ?thesis using os d fr by (simp add: repr_sci_def)
  next
    case (Cons x u)
    then have "x \<noteq> 46" "x \<noteq> 101" "x \<noteq> 69" using d by (auto simp: is_digit_def)
    then show ?thesis using os d Cons by (simp add: repr_sci_def opt_frac_def)
  qed
  have "takeWhile is_digit (ip @ 46 # fr) = ip" "dropWhile is_digit (ip @ 46 # fr) = 46 # fr"
    using assms(1) by (simp_all add: takeWhile_append_stop dropWhile_append_stop)
  then show "repr_fixed (ip @ 46 # fr) = Some (ip, fr)" using os fr assms(2) by (simp add: repr_fixed_def)
qed

lemma repr_sci_match:
  assumes "is_digit d" "list_all is_digit fr" "list_all is_digit ds" "ds \<noteq> []"
  shows "repr_sci ((d # frac_text fr) @ 101 # (if neg then 45 else 43) # ds) =
    Some ([d], fr, if neg then - int (nat_of_digits ds) else int (nat_of_digits ds))"
proof -
  have "opt_frac (frac_text fr @ 101 # q) = Some (fr, 101 # q)" for q
    using assms(2) by (cases "fr = []")
      (simp_all add: opt_frac_def frac_text_def takeWhile_append_stop dropWhile_append_stop)
  then show ?thesis
    using assms by (auto simp: repr_sci_def opt_sign_digit) (auto simp: opt_sign_def)
qed

lemma exp2d_digits: "list_all is_digit (exp2d n)" "exp2d n \<noteq> []" "nat_of_digits (exp2d n) = n"
proof -
  have "nat_of_digits (48 # s) = nat_of_digits s" for s using nat_of_digits_zeros_append [of 1 s] by simp
  then show "nat_of_digits (exp2d n) = n" by (simp add: exp2d_def Let_def)
  show "list_all is_digit (exp2d n)" "exp2d n \<noteq> []"
    using str_nat_digits [of n] by (simp_all add: exp2d_def Let_def)
qed

text \<open>The slow path of \<^verbatim>\<open>_es_number\<close> lays the shortest digits out.\<close>

lemma es_of_repr_pos:
  assumes wf: "wf64 (FFin False m e)" "0 < m" and rd: "repr_digits m e = (ds, p)"
  shows "es_of_repr (repr_pos m e) = Inr (es_layout ds p)"
proof -
  have sig: "list_all is_digit ds" "ds \<noteq> []" "hd ds \<noteq> 48" "last ds \<noteq> 48"
    using repr_digits_spec(1) [OF wf rd] by (auto simp: sig_digits_def)
  have z: "list_all is_digit (replicate n 48)" for n by (simp add: list_all_length)
  have strip: "rstrip0 (xs @ ds @ replicate n 48) = xs @ ds" for xs n
    using rstrip0_sig [of "xs @ ds" n] sig by simp
  consider (neg) "- 4 \<le> p" "p < 0" | (int) "0 \<le> p" "p < 16" "int (length ds) \<le> p + 1"
    | (mid) "0 \<le> p" "p < 16" "p + 1 < int (length ds)" | (sci) "p < - 4 \<or> 16 \<le> p" by linarith
  then show ?thesis
  proof cases
    case neg
    define k where "k = nat (- p - 1)"
    have "repr_pos m e = [48] @ 46 # (replicate k 48 @ ds)"
      using neg by (simp add: repr_pos_def rd k_def)
    moreover have "es_layout ([48] @ replicate k 48 @ ds) 0 = es_layout ds p"
      using neg sig by (simp add: es_layout_def Let_def zeros_eq k_def) (cases ds; simp)
    ultimately show ?thesis
      using repr_fixed_match [of "[48]" "replicate k 48 @ ds"] sig z strip [of "[48] @ replicate k 48" 0]
      by (simp add: es_of_repr_def or_zero_def)
  next
    case int
    define k where "k = nat (p + 1) - length ds"
    have "repr_pos m e = (ds @ replicate k 48) @ 46 # [48]"
      using int by (simp add: repr_pos_def rd k_def)
    moreover have "int (length (ds @ replicate k 48)) - 1 = p" using int by (simp add: k_def)
    moreover have "replicate k 48 @ [48] = replicate (Suc k) (48 :: nat)" by (simp add: replicate_append_same)
    ultimately show ?thesis
      using repr_fixed_match [of "ds @ replicate k 48" "[48]"] sig z strip [of "[]" "Suc k"]
      by (simp add: es_of_repr_def or_zero_def)
  next
    case mid
    define k where "k = nat (p + 1)"
    have k: "0 < k" "k < length ds" "int k - 1 = p" using mid by (auto simp: k_def)
    have "repr_pos m e = take k ds @ 46 # drop k ds" using mid by (simp add: repr_pos_def rd k_def)
    moreover have "list_all is_digit (take k ds)" "list_all is_digit (drop k ds)"
      using sig(1) by (auto simp: list_all_iff dest: in_set_takeD in_set_dropD)
    ultimately show ?thesis
      using repr_fixed_match [of "take k ds" "drop k ds"] sig k strip [of "[]" 0]
      by (simp add: es_of_repr_def or_zero_def)
  next
    case sci
    obtain d t where d: "ds = d # t" using sig by (cases ds) auto
    define x where "x = (if p < 0 then exp2d (nat (- p)) else exp2d (nat p))"
    have "repr_pos m e = (d # frac_text t) @ 101 # (if p < 0 then 45 else 43) # x"
      using sci by (auto simp: repr_pos_def rd d frac_text_def x_def)
    moreover have "(if p < 0 then - int (nat_of_digits x) else int (nat_of_digits x)) = p"
      by (simp add: x_def exp2d_digits)
    moreover have "list_all is_digit x" "x \<noteq> []" by (simp_all add: x_def exp2d_digits)
    ultimately show ?thesis
      using repr_sci_match [of d t x "p < 0"] sig strip [of "[]" 0] by (simp add: es_of_repr_def or_zero_def d)
  qed
qed

section \<open>Numbers round-trip\<close>

lemma tok_text_neg: "tok_text neg ip fr ex = (if neg then [45] else []) @ tok_text False ip fr ex"
  by (simp add: tok_text_def)

lemma integral_value:
  assumes "num2 m e mod den2 e = 0"
  shows "real (num2 m e div den2 e) = real m * 2 powi e"
proof -
  have "real (num2 m e) = real (num2 m e div den2 e) * real (den2 e)"
    using assms by (metis add.right_neutral div_mult_mod_eq of_nat_mult)
  then show ?thesis using frac2 [of m e] by (simp add: field_simps)
qed

lemma es_number_token:
  assumes "num_ok x"
  shows "\<exists>neg ip fr ex. es_number x = Inr (tok_text neg ip fr ex) \<and> tok_ok ip fr ex \<and>
    py_float (tok_text neg ip fr ex) = x \<and> (is_zero x \<longrightarrow> \<not> neg)"
proof -
  obtain neg m e where x: "x = FFin neg m e" using assms by (cases x) (auto simp: num_ok_def)
  have wf: "wf64 (FFin neg m e)" "wf64 (FFin False m e)" using assms by (simp_all add: x num_ok_def)
  show ?thesis
  proof (cases "m = 0")
    case True
    then have x0: "x = FFin False 0 (- 1074)" using assms by (cases neg) (auto simp: x num_ok_def)
    have ok: "tok_ok [48] [] None" by (simp add: tok_ok_def)
    have "nat_of_digits [48] = 0" by (simp add: nat_of_digits_def hex_val_def)
    then have "py_float (tok_text False [48] [] None) = x"
      by (simp add: py_float_tok [OF ok] exp_val_def x0 float_of_decimal_def num10_def round64_def)
    moreover have "es_number x = Inr (tok_text False [48] [] None)"
      by (simp add: es_number_def x0 tok_text_def frac_text_def exp_text_def)
    ultimately show ?thesis using ok by blast
  next
    case False
    have sgn: "(if is_neg x then lit ''-'' else []) = (if neg then [45] else [])" using False by (simp add: x)
    show ?thesis
    proof (cases "is_integer (fabs x) \<and> below_safe_int (fabs x)")
      case True
      define k where "k = num2 m e div den2 e"
      have kx: "real k = real m * 2 powi e" using True by (simp add: x k_def integral_value)
      then have k: "0 < k" using False by (metis mult_eq_0_iff of_nat_0 of_nat_eq_0_iff gr0I power_int_eq_0_iff zero_neq_numeral)
      have ok: "tok_ok (str_nat k) [] None" using k hd_str_nat [of k] by (simp add: tok_ok_def str_nat_digits)
      have "py_float (tok_text neg (str_nat k) [] None) = x"
        using kx wf(1) False
        by (simp add: py_float_tok [OF ok] exp_val_def x float_of_decimal_def num10_def den10_def round64_exact)
      moreover have "es_number x = Inr (tok_text neg (str_nat k) [] None)"
        using True False by (simp add: es_number_def x sgn [unfolded x] Let_def str_int_def k_def [symmetric]
            tok_text_def frac_text_def exp_text_def)
      ultimately show ?thesis using ok False x by fastforce
    next
      case slow: False
      obtain ds p where rd: "repr_digits m e = (ds, p)" by (cases "repr_digits m e")
      have sp: "sig_digits ds" "float_of_decimal neg (nat_of_digits ds) (p + 1 - int (length ds)) = x"
        using repr_digits_spec [OF wf(1) _ rd] False x by simp_all
      obtain ip fr ex where lay: "es_layout ds p = tok_text False ip fr ex" "tok_ok ip fr ex"
          "float_of_decimal neg (nat_of_digits (ip @ fr)) (exp_val ex - int (length fr)) = x"
        using es_layout_tok [OF sp(1), of p neg] sp(2) by auto
      have "es_of_repr (repr_pos m e) = Inr (tok_text False ip fr ex)"
        using es_of_repr_pos [OF wf(2) _ rd] False lay(1) by simp
      then have "es_number x = Inr (tok_text neg ip fr ex)"
        using slow False by (auto simp: es_number_def x Let_def tok_text_neg [of neg])
      then show ?thesis using lay py_float_tok [OF lay(2)] False x by fastforce
    qed
  qed
qed

lemma es_number_total: "num_ok x \<Longrightarrow> \<exists>t. es_number x = Inr t"
  using es_number_token by blast

lemma py_float_es_number: "num_ok x \<Longrightarrow> es_number x = Inr t \<Longrightarrow> py_float t = x"
  using es_number_token by fastforce

lemma number_tok_es_number:
  "num_ok x \<Longrightarrow> es_number x = Inr t \<Longrightarrow> num_stop r \<Longrightarrow> number_tok (t @ r) = Inr (x, r)"
  using es_number_token [of x] number_tok_text by fastforce

text \<open>The printed number starts with a digit or a minus sign and is ASCII.\<close>

lemma es_number_head:
  assumes "num_ok x" "es_number x = Inr t"
  shows "\<exists>c q. t = c # q \<and> (c = ch CHR ''-'' \<or> is_digit c)"
proof -
  obtain neg ip fr ex where "t = tok_text neg ip fr ex" "tok_ok ip fr ex"
    using es_number_token [OF assms(1)] assms(2) by auto
  then show ?thesis by (cases ip) (auto simp: tok_text_def tok_ok_def)
qed

lemma es_number_chars:
  assumes "num_ok x" "es_number x = Inr t"
  shows "list_all (\<lambda>c. 32 \<le> c \<and> c < 128) t"
proof -
  obtain neg ip fr ex where t: "t = tok_text neg ip fr ex" and ok: "tok_ok ip fr ex"
    using es_number_token [OF assms(1)] assms(2) by auto
  have dig: "list_all is_digit s \<Longrightarrow> list_all (\<lambda>c. 32 \<le> c \<and> c < 128) s" for s
    by (auto simp: list_all_iff is_digit_def)
  have "list_all (\<lambda>c. 32 \<le> c \<and> c < 128) (exp_text ex)"
    using ok dig by (auto simp: exp_text_def tok_ok_def split: option.splits)
  then show ?thesis using ok dig by (auto simp: t tok_text_def tok_ok_def frac_text_def)
qed

section \<open>Properties\<close>

text \<open>C7: the canonical text of a number a JSON text can denote exists, is a JSON number token that
  stops where it should, and reads back as the same binary64 value.\<close>
theorem number_text_reads_back:
  assumes "num_ok x" "num_stop r"
  shows "\<exists>t. es_number x = Inr t \<and> number_tok (t @ r) = Inr (x, r)"
  using es_number_total [OF assms(1)] number_tok_es_number [OF assms(1) _ assms(2)] by blast

theorem number_text_reads_back_witness:
  "\<exists>t. es_number (FFin False 3 (- 1074)) = Inr t \<and> number_tok (t @ lit ''}'') = Inr (FFin False 3 (- 1074), lit ''}'')"
  by (rule number_text_reads_back) (simp_all add: num_ok_def num_stop_def is_digit_def lit_def)

end
