(* ===== verification/Jcs_Roundtrip.thy ===== *)
theory Jcs_Roundtrip
  imports Jcs_Number Json_Grammar
begin

text \<open>
  Canonical text is JSON the verifier's own parser reads back: \<open>parse_utf8\<close> of
  \<open>canonicalize_bytes v\<close> is \<open>v\<close> with the members of every object in canonical order (\<open>norm\<close>),
  for every value a JSON text can denote. Hence canonicalization is idempotent and two values
  with the same canonical bytes differ in member order only.
\<close>

section \<open>Strings round-trip\<close>

lemma escape_char_read:
  assumes "scalar c"
  shows "string_loop acc (escape_char c @ r) = string_loop (acc @ [c]) r"
proof (cases "c < 0x20 \<and> c \<notin> {8, 9, 10, 12, 13}")
  case True
  have len: "length (to_digits 16 c) \<le> 2" using True by (intro length_to_digits_le) simp_all
  then have l4: "length (fmt_hex 4 c) = 4" by (simp add: fmt_hex_def Let_def)
  have "list_all (\<lambda>d. d < 16) (to_digits 16 c)" by (rule to_digits_less) simp
  then have hx: "list_all is_hex (fmt_hex 4 c)"
    by (auto simp: fmt_hex_def Let_def list_all_iff)
  have "hex4 (fmt_hex 4 c @ r) = Inr c" using l4 hx by (simp add: hex4_def nat_of_fmt_hex)
  then have "unescape (ch CHR ''u'' # fmt_hex 4 c @ r) = Inr ([c], r)"
    using True l4 by (simp add: unescape_def unescape_u_def)
  then show ?thesis using True by (simp add: escape_char_def)
next
  case False
  then show ?thesis
    by (cases "c = 34 \<or> c = 92 \<or> c \<in> {8, 9, 10, 12, 13}") (auto simp: escape_char_def unescape_def)
qed

lemma escape_chars_read:
  "list_all scalar s \<Longrightarrow> string_loop acc (concat (map escape_char s) @ r) = string_loop (acc @ s) r"
  by (induction s arbitrary: acc) (simp_all add: escape_char_read)

lemma check_scalars_ok: "str_ok s \<Longrightarrow> check_scalars s = Inr ()"
  by (auto simp: check_scalars_def list_ex_iff list_all_iff char_ok_def scalar_def)

lemma string_tok_escape: "str_ok s \<Longrightarrow> string_tok (escape_string s @ r) = Inr (s, r)"
  by (simp add: string_tok_def escape_string_def escape_chars_read str_ok_scalar check_scalars_ok)

section \<open>Canonical member order\<close>

abbreviation sorted_obj :: "obj \<Rightarrow> obj" where
  "sorted_obj d \<equiv> sort_key (\<lambda>p. utf16be (fst p)) d"

function norm :: "pyval \<Rightarrow> pyval" where
  "norm (PList vs) = PList (map norm vs)"
| "norm (PDict d) = PDict (map (\<lambda>p. (fst p, norm (snd p))) (sorted_obj d))"
| "norm PNone = PNone"
| "norm (PBool b) = PBool b"
| "norm (PInt i) = PInt i"
| "norm (PFloat x) = PFloat x"
| "norm (PStr s) = PStr s"
  by pat_completeness auto
termination
proof (relation "measure vsize")
  fix vs v
  show "v \<in> set vs \<Longrightarrow> (v, PList vs) \<in> measure vsize" by (induction vs) auto
next
  fix d and p :: "pystr \<times> pyval"
  have "p \<in> set d \<Longrightarrow> vsize (snd p) < vsize (PDict d)" by (induction d) auto
  then show "p \<in> set (sorted_obj d) \<Longrightarrow> (snd p, PDict d) \<in> measure vsize" by simp
qed auto

lemma sorted_items_json: "json_val (PDict d) \<Longrightarrow> sorted_items d = Inr (sorted_obj d)"
  by (auto simp: sorted_items_def list_all_iff char_ok_def)

lemma sort_key_norm: "sort_key (\<lambda>p. utf16be (fst p)) (map (\<lambda>p. (fst p, f p)) (sorted_obj d)) = map (\<lambda>p. (fst p, f p)) (sorted_obj d)"
  by (rule sort_key_id_if_sorted) (simp add: o_def)

text \<open>Member order carries no information: sorting it first changes nothing.\<close>

lemma mapr_cong_list: "(\<And>x. x \<in> set xs \<Longrightarrow> f (g x) = h x) \<Longrightarrow> mapr f (map g xs) = mapr h xs"
  by (induction xs) auto

lemma jcs_ref_norm: "json_val v \<Longrightarrow> jcs_ref (norm v) = jcs_ref v"
proof (induction v rule: norm.induct)
  case (1 vs)
  then have "mapr jcs_ref (map norm vs) = mapr jcs_ref vs"
    by (intro mapr_cong_list) (auto simp: list_all_iff)
  then show ?case by simp
next
  case (2 d)
  have sc: "list_all (\<lambda>p. list_all scalar (fst p)) (map (\<lambda>p. (fst p, norm (snd p))) (sorted_obj d))"
    using 2 by (auto simp: list_all_iff char_ok_def)
  have "jcs_ref (norm (snd p)) = jcs_ref (snd p)" if "p \<in> set (sorted_obj d)" for p
    using that 2 by (auto simp: list_all_iff)
  then have "mapr (\<lambda>p. bindr (jcs_ref (snd p)) (\<lambda>t. Inr (escape_string (fst p) @ lit '':'' @ t)))
        (map (\<lambda>p. (fst p, norm (snd p))) (sorted_obj d)) =
      mapr (\<lambda>p. bindr (jcs_ref (snd p)) (\<lambda>t. Inr (escape_string (fst p) @ lit '':'' @ t))) (sorted_obj d)"
    by (intro mapr_cong_list) simp
  then show ?case
    using sc sorted_items_json [OF "2.prems"] by (simp add: sorted_items_def sort_key_norm)
qed simp_all

section \<open>Canonical text is in the grammar\<close>

text \<open>\<open>prints v t\<close>: wherever the text \<open>t\<close> stands, the grammar reads \<open>v\<close> from it.\<close>

definition prints :: "pyval \<Rightarrow> pystr \<Rightarrow> bool" where
  "prints v t = (t \<noteq> [] \<and> \<not> is_ws (hd t) \<and> hd t \<noteq> ch CHR '']'' \<and>
     (\<forall>r. num_stop r \<longrightarrow> jval (t @ r) v r))"

lemma ws_id [simp]: "\<not> is_ws c \<Longrightarrow> ws (c # s) = c # s"
  by (simp add: ws_def)

lemma ws_prints: "prints v t \<Longrightarrow> ws (t @ r) = t @ r"
  by (cases t) (simp_all add: prints_def)

lemma not_ws [simp]:
  "\<not> is_ws 34" "\<not> is_ws 44" "\<not> is_ws 58" "\<not> is_ws 91" "\<not> is_ws 93" "\<not> is_ws 123" "\<not> is_ws 125"
  by (simp_all add: is_ws_def)

lemma num_stop_marks [simp]: "num_stop (44 # r)" "num_stop (93 # r)" "num_stop (125 # r)"
  by (simp_all add: num_stop_def is_digit_def)

lemma lit_marks [simp]:
  "lit '','' = [44]" "lit '':'' = [58]" "lit ''['' = [91]" "lit '']'' = [93]" "lit ''{'' = [123]" "lit ''}'' = [125]"
  by (simp_all add: lit_def)

lemma prints_literal:
  "prints PNone (lit ''null'')" "prints (PBool True) (lit ''true'')" "prints (PBool False) (lit ''false'')"
proof -
  have "jval (lit ''null'' @ r) PNone r" for r by (rule null) (simp add: lit_def is_ws_def)
  then show "prints PNone (lit ''null'')" by (simp add: prints_def lit_def is_ws_def)
  have "jval (lit ''true'' @ r) (PBool True) r" "jval (lit ''false'' @ r) (PBool False) r" for r
    by (rule true false; simp add: lit_def is_ws_def)+
  then show "prints (PBool True) (lit ''true'')" "prints (PBool False) (lit ''false'')"
    by (simp_all add: prints_def lit_def is_ws_def)
qed

lemma jval_ws: "jval s v r \<Longrightarrow> ws s' = ws s \<Longrightarrow> jval s' v r"
  by (erule jval.cases) (simp_all add: jval_jelems_jmembers.intros)

lemma jelems_ws: "jelems s vs us r \<Longrightarrow> ws s' = ws s \<Longrightarrow> jelems s' vs us r"
  by (erule jelems.cases) (auto intro: elems_last elems_more jval_ws)

text \<open>
  What the writers of JSON text in the program share: the canonical one, \<^verbatim>\<open>json.dumps\<close> with compact
  separators, and \<^verbatim>\<open>json.dumps\<close> with its defaults. They differ in how a string is quoted and in the
  space that follows a comma or a colon.
\<close>

definition writes_member :: "(pystr \<Rightarrow> pystr) \<Rightarrow> pystr \<Rightarrow> pystr \<times> pyval \<Rightarrow> pystr \<Rightarrow> bool" where
  "writes_member quote gap p x = (str_ok (fst p) \<and> (\<exists>t. prints (snd p) t \<and> x = quote (fst p) @ 58 # gap @ t))"

locale json_writer =
  fixes quote :: "pystr \<Rightarrow> pystr" and gap :: pystr
  assumes quote_read: "str_ok s \<Longrightarrow> string_tok (quote s @ r) = Inr (s, r)"
    and quote_mark: "\<exists>q. quote s = 34 # q"
    and gap_ws: "list_all is_ws gap"
begin

lemma ws_gap [simp]: "ws (gap @ s) = ws s"
  using gap_ws by (induction gap) (auto simp: ws_def)

lemma jelems_written:
  assumes "list_all2 prints vs ts" "vs \<noteq> []"
  shows "jelems (join (44 # gap) ts @ 93 # r) acc (acc @ vs) r"
  using assms
proof (induction vs arbitrary: ts acc)
  case (Cons v vs)
  then obtain t ts' where ts: "ts = t # ts'" "prints v t" "list_all2 prints vs ts'" by (cases ts) auto
  show ?case
  proof (cases vs)
    case Nil
    then have "jval (t @ 93 # r) v (93 # r)" using ts by (simp add: prints_def)
    then show ?thesis using elems_last [of "t @ 93 # r" v "93 # r" r acc] ts Nil by simp
  next
    case (Cons u us)
    then obtain t2 ts2 where t2: "ts' = t2 # ts2" using ts by (cases ts') auto
    let ?rest = "join (44 # gap) ts' @ 93 # r"
    have "jval (t @ 44 # gap @ ?rest) v (44 # gap @ ?rest)" using ts by (simp add: prints_def)
    moreover have "jelems ?rest (acc @ [v]) ((acc @ [v]) @ vs) r" using Cons.IH ts Cons by blast
    then have "jelems (gap @ ?rest) (acc @ [v]) ((acc @ [v]) @ vs) r" by (rule jelems_ws) simp
    ultimately show ?thesis using elems_more [of "t @ 44 # gap @ ?rest" v "44 # gap @ ?rest"] ts t2 by simp
  qed
qed simp

lemma list_written:
  assumes "list_all2 prints vs ts"
  shows "prints (PList vs) (91 # join (44 # gap) ts @ [93])"
proof (cases vs)
  case Nil
  then show ?thesis
    using assms arr_empty [of "91 # 93 # r" "93 # r" r for r] by (simp add: prints_def)
next
  case (Cons v vs')
  then obtain t ts' where t: "ts = t # ts'" "prints v t" using assms by (cases ts) auto
  have hd: "t \<noteq> []" "\<not> is_ws (hd t)" "hd t \<noteq> 93" using t(2) by (simp_all add: prints_def)
  have "jval (91 # join (44 # gap) ts @ 93 # r) (PList vs) r" for r
  proof (rule arr [of _ "join (44 # gap) ts @ 93 # r" "hd t" "tl (join (44 # gap) ts @ 93 # r)"])
    have eq: "hd t # tl (join (44 # gap) ts @ 93 # r) = join (44 # gap) ts @ 93 # r"
      using hd t(1) by (simp add: join_Cons)
    show "jelems (hd t # tl (join (44 # gap) ts @ 93 # r)) [] vs r"
      using jelems_written [OF assms, of r "[]"] Cons unfolding eq by simp
    show "ws (join (44 # gap) ts @ 93 # r) = hd t # tl (join (44 # gap) ts @ 93 # r)"
      unfolding eq using hd t(1) by (cases t) (simp_all add: join_Cons)
  qed (use hd in simp_all)
  then show ?thesis by (simp add: prints_def)
qed

lemma member_written:
  assumes "str_ok k" "prints v t" "num_stop u"
  shows "string_tok (quote k @ 58 # gap @ t @ u) = Inr (k, 58 # gap @ t @ u)" "jval (gap @ t @ u) v u"
proof -
  show "string_tok (quote k @ 58 # gap @ t @ u) = Inr (k, 58 # gap @ t @ u)" by (rule quote_read [OF assms(1)])
  have "jval (t @ u) v u" using assms(2,3) by (simp add: prints_def)
  then show "jval (gap @ t @ u) v u" by (rule jval_ws) simp
qed

lemma jmembers_written:
  assumes "list_all2 (writes_member quote gap) d xs" "d \<noteq> []" "distinct (map fst (acc @ d))"
  shows "jmembers (join (44 # gap) xs @ 125 # r) acc (acc @ d) r"
  using assms
proof (induction d arbitrary: xs acc)
  case (Cons p d)
  then obtain t xs' where xs: "xs = (quote (fst p) @ 58 # gap @ t) # xs'" "str_ok (fst p)" "prints (snd p) t"
      "list_all2 (writes_member quote gap) d xs'"
    by (cases xs) (auto simp: writes_member_def [of quote gap p])
  have new: "\<not> dhas acc (fst p)" using Cons.prems by (auto simp: dhas_def)
  show ?case
  proof (cases d)
    case Nil
    note m = member_written [OF xs(2,3), of "125 # r"]
    show ?thesis
      using members_last [OF m(1), of "gap @ t @ 125 # r" "snd p" "125 # r" acc r] m new xs Nil by simp
  next
    case d: (Cons p2 d2)
    then obtain x2 xs2 where x2: "xs' = x2 # xs2" "\<exists>t. x2 = quote (fst p2) @ 58 # gap @ t" using xs(4) by (cases xs') (auto simp: writes_member_def [of quote gap p2])
    let ?u = "join (44 # gap) xs' @ 125 # r"
    obtain q where q: "?u = 34 # q"
      using x2 quote_mark [of "fst p2"] by (cases xs2) auto
    note m = member_written [OF xs(2,3), of "44 # gap @ ?u"]
    have "jmembers ?u (acc @ [p]) ((acc @ [p]) @ d) r"
      using Cons.prems d xs(4) by (intro Cons.IH) auto
    then show ?thesis
      using members_more [OF m(1), of "gap @ t @ 44 # gap @ ?u" "snd p" "44 # gap @ ?u" acc "gap @ ?u" q] m new xs x2(1) q by simp
  qed
qed simp

lemma dict_written:
  assumes "list_all2 (writes_member quote gap) d xs" "distinct (map fst d)"
  shows "prints (PDict d) (123 # join (44 # gap) xs @ [125])"
proof (cases d)
  case Nil
  then show ?thesis
    using assms obj_empty [of "123 # 125 # r" "125 # r" r for r] by (simp add: prints_def)
next
  case (Cons p d')
  then obtain x xs' t where x: "xs = x # xs'" "x = quote (fst p) @ 58 # gap @ t" using assms(1) by (cases xs) (auto simp: writes_member_def)
  have "jval (123 # join (44 # gap) xs @ 125 # r) (PDict d) r" for r
  proof -
    obtain q where q: "join (44 # gap) xs @ 125 # r = 34 # q"
      using x quote_mark [of "fst p"] by (auto simp: join_Cons)
    show ?thesis
      using jmembers_written [OF assms(1), of "[]" r] assms(2) Cons obj [of "123 # 34 # q" "34 # q" q _ r] q by simp
  qed
  then show ?thesis by (simp add: prints_def)
qed

lemma string_written: "str_ok s \<Longrightarrow> prints (PStr s) (quote s)"
proof -
  assume s: "str_ok s"
  obtain q where q: "quote s = 34 # q" using quote_mark by blast
  have "jval (quote s @ r) (PStr s) r" for r using quote_read [OF s, of r] q by (intro str [of _ "q @ r"]) simp_all
  then show ?thesis by (simp add: prints_def q)
qed

end

interpretation compact: json_writer escape_string "[]"
proof unfold_locales
  show "str_ok s \<Longrightarrow> string_tok (escape_string s @ r) = Inr (s, r)" for s r by (rule string_tok_escape)
  show "\<exists>q. escape_string s = 34 # q" for s by (simp add: escape_string_def)
qed simp

lemmas prints_list = compact.list_written
lemmas prints_dict = compact.dict_written
lemmas prints_string = compact.string_written

abbreviation prints_member :: "pystr \<times> pyval \<Rightarrow> pystr \<Rightarrow> bool" where
  "prints_member \<equiv> writes_member escape_string []"

lemma prints_member_def: "prints_member p x = (str_ok (fst p) \<and> (\<exists>t. prints (snd p) t \<and> x = escape_string (fst p) @ [58] @ t))"
  by (simp add: writes_member_def)

lemma prints_number:
  assumes "t = c # q" "c = ch CHR ''-'' \<or> is_digit c" "\<And>r. num_stop r \<Longrightarrow> number_tok (t @ r) = Inr (x, r)"
  shows "prints (PFloat x) t"
proof -
  have nw: "\<not> is_ws c" using assms(2) by (auto simp: is_ws_def is_digit_def)
  have "jval (t @ r) (PFloat x) r" if "num_stop r" for r
    using assms(3) [OF that] assms(1,2) nw by (intro num [of _ c "q @ r"]) simp_all
  then show ?thesis using assms(1,2) nw by (auto simp: prints_def is_digit_def)
qed

lemma mapr_choose:
  "\<forall>x\<in>set xs. \<exists>y. f x = Inr y \<and> Q x y \<Longrightarrow> \<exists>ys. mapr f xs = Inr ys \<and> list_all2 Q xs ys"
  by (induction xs) auto

lemma distinct_map_fst_sort: "distinct (map fst (sort_key f d)) = distinct (map fst d)"
  by (metis mset_map mset_sort mset_eq_imp_distinct_iff)

text \<open>The main induction: every JSON value has canonical text, and the grammar reads it.\<close>

lemma jcs_ref_prints: "json_val v \<Longrightarrow> \<exists>t. jcs_ref v = Inr t \<and> prints (norm v) t"
proof (induction v rule: jcs_ref.induct)
  case (5 x)
  then have ok: "num_ok x" by simp
  obtain t where t: "es_number x = Inr t" using es_number_total [OF ok] by blast
  obtain c q where c: "t = c # q" "c = ch CHR ''-'' \<or> is_digit c" using es_number_head [OF ok t] by blast
  show ?case using prints_number [OF c number_tok_es_number [OF ok t]] t by simp
next
  case (6 vs)
  then have "\<forall>v\<in>set vs. \<exists>t. jcs_ref v = Inr t \<and> prints (norm v) t" by (auto simp: list_all_iff)
  from mapr_choose [OF this] obtain ts where ts: "mapr jcs_ref vs = Inr ts" "list_all2 prints (map norm vs) ts"
    by (auto simp: list_all2_map1)
  then show ?case using prints_list [OF ts(2)] by simp
next
  case (7 d)
  let ?d = "sorted_obj d"
  let ?f = "\<lambda>p. bindr (jcs_ref (snd p)) (\<lambda>t. Inr (escape_string (fst p) @ lit '':'' @ t))"
  note si = sorted_items_json [OF "7.prems"]
  have "\<forall>p\<in>set ?d. \<exists>x. ?f p = Inr x \<and> prints_member (fst p, norm (snd p)) x"
    using 7 si by (fastforce simp: list_all_iff prints_member_def)
  from mapr_choose [OF this] obtain xs where xs: "mapr ?f ?d = Inr xs"
    "list_all2 prints_member (map (\<lambda>p. (fst p, norm (snd p))) ?d) xs"
    by (auto simp: list_all2_map1)
  have "distinct (map fst (map (\<lambda>p. (fst p, norm (snd p))) ?d))" using "7.prems" by (simp add: o_def distinct_map_fst_sort)
  from prints_dict [OF xs(2) this] show ?case using xs(1) si by simp
qed (simp_all add: prints_literal prints_string)

end
