(* ===== verification/Key_Order.thy ===== *)
theory Key_Order
  imports Jcs_Roundtrip
begin

text \<open>
  The sort key of \<^verbatim>\<open>jcs.py\<close>, the UTF-16 big-endian encoding, is injective on scalar strings.
  The canonical form therefore does not depend on the order in which members were written.
\<close>

lemma be16_inj: "a < 65536 \<Longrightarrow> b < 65536 \<Longrightarrow> be16 a = be16 b \<Longrightarrow> a = b"
proof -
  assume r: "a < 65536" "b < 65536" and e: "be16 a = be16 b"
  have "unat (of_nat (a div 256) :: byte) = unat (of_nat (b div 256) :: byte)"
    "unat (of_nat (a mod 256) :: byte) = unat (of_nat (b mod 256) :: byte)"
    using e by (simp_all add: be16_def)
  then have "a div 256 = b div 256" "a mod 256 = b mod 256"
    using r by (simp_all add: unat_byte_of_nat)
  then show "a = b" by (metis div_mult_mod_eq)
qed

definition code_units :: "pystr \<Rightarrow> nat list" where
  "code_units s = concat (map utf16_units s)"

lemma code_units_simps [simp]:
  "code_units [] = []" "code_units (c # s) = utf16_units c @ code_units s"
  by (simp_all add: code_units_def)

lemma utf16be_units: "utf16be s = concat (map be16 (code_units s))"
  by (induction s) (simp_all add: utf16be_def)

lemma units_range: "scalar c \<Longrightarrow> list_all (\<lambda>u. u < 65536) (utf16_units c)"
  by (auto simp: utf16_units_def scalar_def)

lemma code_units_range: "list_all scalar s \<Longrightarrow> list_all (\<lambda>u. u < 65536) (code_units s)"
  by (induction s) (auto simp: units_range)

lemma units_cancel:
  assumes "scalar c" "scalar d" "utf16_units c @ x = utf16_units d @ y"
  shows "c = d \<and> x = y"
proof (cases "(c < 0x10000) = (d < 0x10000)")
  case True
  have "c - 0x10000 = d - 0x10000"
    if "(c - 0x10000) div 1024 = (d - 0x10000) div 1024" "(c - 0x10000) mod 1024 = (d - 0x10000) mod 1024"
    using that by (metis div_mult_mod_eq)
  then show ?thesis using assms True by (auto simp: utf16_units_def split: if_splits)
next
  case False
  have "(c - 0x10000) div 1024 < 1024" "(d - 0x10000) div 1024 < 1024"
    using assms(1,2) by (auto simp: scalar_def)
  then show ?thesis
    using assms False by (auto simp: utf16_units_def scalar_def is_surrogate_def split: if_splits)
qed

lemma code_units_inj: "list_all scalar a \<Longrightarrow> list_all scalar b \<Longrightarrow> code_units a = code_units b \<Longrightarrow> a = b"
proof (induction a arbitrary: b)
  case Nil
  then show ?case by (cases b) (auto simp: utf16_units_def split: if_splits)
next
  case (Cons c a)
  show ?case
  proof (cases b)
    case Nil
    then show ?thesis using Cons.prems by (auto simp: utf16_units_def split: if_splits)
  next
    case b: (Cons d b')
    then have "c = d \<and> code_units a = code_units b'"
      using Cons.prems by (intro units_cancel) simp_all
    then show ?thesis using Cons.IH [of b'] Cons.prems b by simp
  qed
qed

lemma be16_less:
  assumes "a < 65536" "b < 65536"
  shows "be16 a @ x < be16 b @ y \<longleftrightarrow> a < b \<or> a = b \<and> x < y"
proof -
  have lt: "(of_nat m :: byte) < of_nat n \<longleftrightarrow> m < n" "(of_nat m :: byte) = of_nat n \<longleftrightarrow> m = n" if "m < 256" "n < 256" for m n
    using that by (simp_all add: word_less_nat_alt word_unat_eq_iff unat_byte_of_nat)
  have hi: "a div 256 < 256" "b div 256 < 256" using assms by auto
  have "a < b \<longleftrightarrow> a div 256 < b div 256 \<or> a div 256 = b div 256 \<and> a mod 256 < b mod 256"
  proof -
    have "256 * (a div 256) + a mod 256 = a" "256 * (b div 256) + b mod 256 = b" "a mod 256 < 256" "b mod 256 < 256" by simp_all
    then show ?thesis by linarith
  qed
  moreover have "a = b \<longleftrightarrow> a div 256 = b div 256 \<and> a mod 256 = b mod 256"
    by (metis div_mult_mod_eq)
  ultimately show ?thesis using lt hi by (auto simp: be16_def)
qed

lemma bytes_less_units:
  "list_all (\<lambda>u. u < 65536) us \<Longrightarrow> list_all (\<lambda>u. u < 65536) vs \<Longrightarrow>
    concat (map be16 us) < concat (map be16 vs) \<longleftrightarrow> us < vs"
proof (induction us arbitrary: vs)
  case Nil
  then show ?case by (cases vs) (simp_all add: be16_def)
next
  case (Cons u us)
  show ?case
  proof (cases vs)
    case Nil
    then show ?thesis by (simp add: be16_def)
  next
    case (Cons v vs')
    then show ?thesis using Cons.prems Cons.IH by (simp add: be16_less)
  qed
qed

lemma utf16be_less:
  "list_all scalar a \<Longrightarrow> list_all scalar b \<Longrightarrow> utf16be a < utf16be b \<longleftrightarrow> code_units a < code_units b"
  by (simp add: utf16be_units bytes_less_units code_units_range)

lemma utf16be_inj: "list_all scalar a \<Longrightarrow> list_all scalar b \<Longrightarrow> utf16be a = utf16be b \<Longrightarrow> a = b"
  by (metis code_units_inj utf16be_less less_irrefl linorder_less_linear)

text \<open>Members are printed in strictly ascending UTF-16 code unit order.\<close>

lemma sorted_items_order:
  assumes "wf_dict d" "sorted_items d = Inr d'"
  shows "mset d' = mset d" "sorted_wrt (\<lambda>p q. code_units (fst p) < code_units (fst q)) d'"
proof -
  have sc: "list_all (\<lambda>p. list_all scalar (fst p)) d" and d': "d' = sorted_obj d"
    using assms(2) by (auto simp: sorted_items_def list_all_iff split: if_splits)
  then show "mset d' = mset d" by simp
  have "sorted (map (\<lambda>p. utf16be (fst p)) d')" by (simp add: d')
  moreover have "distinct (map fst d')" using assms(1) by (simp add: d' wf_dict_def distinct_map_fst_sort)
  moreover have "\<forall>p\<in>set d'. list_all scalar (fst p)" using sc by (simp add: d' list_all_iff)
  ultimately show "sorted_wrt (\<lambda>p q. code_units (fst p) < code_units (fst q)) d'"
  proof (induction d')
    case (Cons p d')
    have "code_units (fst p) < code_units (fst q)" if q: "q \<in> set d'" for q
    proof -
      have "utf16be (fst p) \<le> utf16be (fst q)" "fst p \<noteq> fst q" using Cons.prems q by auto
      moreover have "list_all scalar (fst p)" "list_all scalar (fst q)" using Cons.prems q by auto
      ultimately show ?thesis using utf16be_less utf16be_inj order_le_imp_less_or_eq by blast
    qed
    then show ?case using Cons by simp
  qed simp
qed

lemma sorted_obj_perm:
  assumes "json_val (PDict d)" "mset d = mset d'"
  shows "sorted_obj d = sorted_obj d'"
proof (rule sort_key_inj_key_eq)
  show "mset d = mset (sorted_obj d')" using assms(2) by simp
  show "inj_on (\<lambda>p. utf16be (fst p)) (set d)"
  proof (rule inj_onI)
    fix p q
    assume m: "p \<in> set d" "q \<in> set d" and e: "utf16be (fst p) = utf16be (fst q)"
    have "list_all scalar (fst p)" "list_all scalar (fst q)" using m assms(1) by (auto simp: list_all_iff char_ok_def)
    then have "fst p = fst q" using e utf16be_inj by blast
    moreover have "inj_on fst (set d)" using assms(1) by (simp add: distinct_map)
    ultimately show "p = q" using m by (meson inj_onD)
  qed
qed simp

lemma norm_perm: "json_val (PDict d) \<Longrightarrow> mset d = mset d' \<Longrightarrow> norm (PDict d) = norm (PDict d')"
  using sorted_obj_perm by simp

lemma dict_mset_eq:
  assumes "wf_dict d" "wf_dict d'" "dget d = dget d'"
  shows "mset d = mset d'"
proof -
  have "distinct d" "distinct d'" using assms(1,2) by (simp_all add: wf_dict_def distinct_map)
  moreover have "set d = set d'" using assms map_of_inject_set [of d d'] by (simp add: wf_dict_def)
  ultimately show ?thesis by (simp add: set_eq_iff_mset_eq_distinct)
qed

section \<open>Properties\<close>

text \<open>C6: the members of an object are printed in strictly ascending order of the UTF-16 code units of
  their names (RFC 8785), none lost and none added.\<close>
theorem members_in_utf16_order:
  assumes "wf_dict d" "sorted_items d = Inr d'"
  shows "mset d' = mset d \<and> sorted_wrt (\<lambda>p q. code_units (fst p) < code_units (fst q)) d'"
  using sorted_items_order [OF assms] by simp

theorem members_in_utf16_order_witness:
  "\<exists>d'. mset d' = mset [([0xFFFD], PNone), ([0x1F600], PBool True), (lit ''a'', PNone)] \<and>
     sorted_wrt (\<lambda>p q. code_units (fst p) < code_units (fst q)) d'"
proof -
  let ?d = "[([0xFFFD], PNone), ([0x1F600], PBool True), (lit ''a'', PNone)]"
  have "wf_dict ?d" by (simp add: wf_dict_def lit_def)
  moreover have "sorted_items ?d = Inr (sorted_obj ?d)"
    by (simp add: sorted_items_def scalar_def is_surrogate_def lit_def)
  ultimately show ?thesis using members_in_utf16_order [of ?d "sorted_obj ?d"] by blast
qed

end
