(* ===== verification/Json_Safety.thy ===== *)
theory Json_Safety
  imports Json_Input
begin

text \<open>
  The internal assertions of the parser never fail. \<open>pinv\<close> is the invariant that ties the phase
  to the stack: a KEY, COLON or OBJ_NEXT phase has an object on top, an ARR_NEXT phase an array,
  and every open object but one that waits for its key has a key to deliver to. Hence a refusal
  is always one of the six reasons the input stage documents.
\<close>

definition input_reasons :: "string set" where
  "input_reasons = {''invalid-json'', ''lone-surrogate'', ''noncharacter'', ''non-finite-number'',
     ''negative-zero'', ''duplicate-member-name''}"

definition input_error :: "exn \<Rightarrow> bool" where
  "input_error e = (e \<in> JsonInputError ` input_reasons)"

lemma input_errorI [simp]:
  "input_error (JsonInputError ''invalid-json'')" "input_error (JsonInputError ''lone-surrogate'')"
  "input_error (JsonInputError ''noncharacter'')" "input_error (JsonInputError ''non-finite-number'')"
  "input_error (JsonInputError ''negative-zero'')" "input_error (JsonInputError ''duplicate-member-name'')"
  by (simp_all add: input_error_def input_reasons_def)

section \<open>Tokens\<close>

lemma hex4_error: "hex4 s = Inl e \<Longrightarrow> input_error e"
  by (auto simp: hex4_def Let_def split: if_splits)

lemma unescape_error: "unescape s = Inl e \<Longrightarrow> input_error e"
  by (auto simp: unescape_def unescape_u_def Let_def bindr_eq_Inl split: list.splits if_splits dest: hex4_error)

lemma check_scalars_error: "check_scalars s = Inl e \<Longrightarrow> input_error e"
  by (auto simp: check_scalars_def split: if_splits)

lemma string_loop_error: "string_loop chars s = Inl e \<Longrightarrow> input_error e"
proof (induction chars s rule: string_loop.induct)
  case (1 chars s)
  show ?case
  proof (cases s)
    case Nil
    then show ?thesis using "1.prems" by auto
  next
    case (Cons c s1)
    show ?thesis
    proof (cases "c \<noteq> 34 \<and> c = 92")
      case True
      then show ?thesis
        using "1.prems" "1.IH"(1) [OF Cons] Cons by (auto simp: bindr_eq_Inl dest: unescape_error)
    next
      case False
      then show ?thesis
        using "1.prems" "1.IH"(2) [OF Cons] Cons
        by (auto simp: bindr_eq_Inl split: if_splits dest: check_scalars_error)
    qed
  qed
qed

lemma string_tok_error: "string_tok s = Inl e \<Longrightarrow> input_error e"
  by (simp add: string_tok_def string_loop_error)

lemma scan_error:
  "scan_int s = Inl e \<Longrightarrow> input_error e" "scan_frac s = Inl e \<Longrightarrow> input_error e" "scan_exp s = Inl e \<Longrightarrow> input_error e"
  by (auto simp: scan_int_def scan_frac_def scan_exp_def split: list.splits if_splits)

lemma number_tok_error: "number_tok s = Inl e \<Longrightarrow> input_error e"
  by (auto simp: number_tok_def Let_def bindr_eq_Inl split: if_splits dest: scan_error)

section \<open>The phase invariant\<close>

definition keyed :: "frame \<Rightarrow> bool" where
  "keyed f = (case f of FObj d None \<Rightarrow> False | _ \<Rightarrow> True)"

definition stack_inv :: "phase \<Rightarrow> frame list \<Rightarrow> bool" where
  "stack_inv ph st = (case ph of
       VALUE \<Rightarrow> list_all keyed st
     | KEY \<Rightarrow> (\<exists>d k st'. st = FObj d k # st' \<and> list_all keyed st')
     | COLON \<Rightarrow> list_all keyed st
     | OBJ_NEXT \<Rightarrow> list_all keyed st \<and> (\<exists>d k st'. st = FObj d k # st')
     | ARR_NEXT \<Rightarrow> list_all keyed st \<and> (\<exists>vs st'. st = FArr vs # st'))"

definition safe :: "pres \<Rightarrow> bool" where
  "safe r = (case r of Inl e \<Rightarrow> input_error e | Inr (Inl v) \<Rightarrow> True | Inr (Inr p) \<Rightarrow> stack_inv (phase p) (stack p))"

lemma safe_simps [simp]:
  "safe (Inl e) = input_error e" "safe (Inr (Inl v))" "safe (go s st ph) = stack_inv ph st"
  by (simp_all add: safe_def go_def)

lemma safe_bindr: "(\<And>e. m = Inl e \<Longrightarrow> input_error e) \<Longrightarrow> (\<And>x. m = Inr x \<Longrightarrow> safe (f x)) \<Longrightarrow> safe (bindr m f)"
  by (cases m) auto

lemma safe_deliver: "list_all keyed st \<Longrightarrow> safe (deliver v s st)"
  by (induction v s st rule: deliver.induct) (auto simp: stack_inv_def keyed_def)

lemma safe_keyword: "list_all keyed st \<Longrightarrow> safe (keyword w v s st)"
  by (simp add: keyword_def safe_deliver)

lemma safe_value_step: "list_all keyed st \<Longrightarrow> safe (value_step s st)"
proof -
  assume st: "list_all keyed st"
  have str: "safe (bindr (string_tok x) (\<lambda>(y, q). deliver (PStr y) q st))" for x
    using st by (intro safe_bindr) (auto simp: safe_deliver dest: string_tok_error)
  have num: "safe (bindr (number_tok x) (\<lambda>(y, q). deliver (PFloat y) q st))" for x
    using st by (intro safe_bindr) (auto simp: safe_deliver dest: number_tok_error)
  show ?thesis
    using st by (auto simp: value_step_def safe_deliver safe_keyword str num stack_inv_def keyed_def split: list.splits)
qed

lemma pop_frame_keyed:
  "list_all keyed st \<Longrightarrow> st \<noteq> [] \<Longrightarrow> \<exists>v st'. pop_frame st = Inr (v, st') \<and> list_all keyed st'"
  by (auto simp: pop_frame_def neq_Nil_conv split: frame.splits)

lemma safe_pop: "list_all keyed st \<Longrightarrow> st \<noteq> [] \<Longrightarrow> safe (bindr (pop_frame st) (\<lambda>(v, st'). deliver v r st'))"
  using pop_frame_keyed [of st] by (auto simp: safe_deliver)

lemma safe_pstep:
  assumes "stack_inv (phase p) (stack p)"
  shows "safe (pstep p)"
proof (cases "phase p")
  case VALUE
  then show ?thesis using assms by (simp add: pstep_def stack_inv_def safe_value_step)
next
  case KEY
  then show ?thesis
    using assms by (auto simp: pstep_def stack_inv_def key_step_def keyed_def dest: string_tok_error intro!: safe_bindr)
next
  case COLON
  then show ?thesis using assms by (auto simp: pstep_def stack_inv_def colon_step_def split: list.splits)
next
  case OBJ_NEXT
  then show ?thesis
    using assms
    by (auto simp: pstep_def obj_next_step_def stack_inv_def split: list.splits intro!: safe_pop)
next
  case ARR_NEXT
  then show ?thesis
    using assms
    by (auto simp: pstep_def arr_next_step_def stack_inv_def split: list.splits intro!: safe_pop)
qed

lemma parse_loop_error: "stack_inv (phase p) (stack p) \<Longrightarrow> parse_loop p = Inl e \<Longrightarrow> input_error e"
proof (induction p rule: parse_loop.induct)
  case (1 p)
  then have s: "safe (pstep p)" by (simp add: safe_pstep)
  show ?case
  proof (cases "pstep p")
    case (Inl e')
    then show ?thesis using s "1.prems"(2) by (simp add: parse_loop.simps [of p])
  next
    case (Inr q)
    then show ?thesis using s "1.prems"(2) "1.IH" [OF Inr] by (cases q) (simp_all add: parse_loop.simps [of p] safe_def)
  qed
qed

lemma parse_document_error: "parse_document s = Inl e \<Longrightarrow> input_error e"
  by (auto simp: parse_document_def stack_inv_def split: if_splits dest!: parse_loop_error [rotated])

lemma parse_utf8_error: "parse_utf8 data = Inl e \<Longrightarrow> e = JsonInputError ''invalid-utf8'' \<or> input_error e"
proof -
  have chars: "eachr text_char s = Inl e \<Longrightarrow> input_error e" for s
    by (induction s) (auto simp: bindr_eq_Inl text_char_def split: if_splits)
  show "parse_utf8 data = Inl e \<Longrightarrow> ?thesis"
    by (auto simp: parse_utf8_def bindr_eq_Inl split: sum.splits dest: chars parse_document_error)
qed

lemma parse_object_error:
  "parse_object data = Inl e \<Longrightarrow> \<exists>r\<in>{''invalid-utf8'', ''not-object''} \<union> input_reasons. e = JsonInputError r"
proof -
  assume "parse_object data = Inl e"
  then consider "parse_utf8 data = Inl e" | "e = JsonInputError ''not-object''"
    by (cases "parse_utf8 data") (auto simp: parse_object_def split: pyval.splits)
  then show ?thesis by cases (auto simp: input_error_def dest!: parse_utf8_error)
qed

end
