(* ===== verification/Canonical.thy ===== *)
theory Canonical
  imports Jcs_Roundtrip Key_Order Json_Safety
begin

text \<open>
  The byte-level laws of canonicalization that the protocol relies on: \<open>parse_utf8\<close> returns JSON
  values only, every JSON value has canonical bytes, \<open>parse_utf8\<close> reads those bytes back as the
  value in canonical member order (\<open>norm\<close>), and equal bytes mean equal values up to that order.
  The codec interface is interpreted on the canonical bytes.
\<close>

section \<open>Canonical text is plain characters\<close>

lemma ascii_char_ok: "c < 128 \<Longrightarrow> char_ok c"
  by (auto simp: char_ok_def scalar_def is_surrogate_def noncharacter_def)

lemma str_ok_fmt_hex: "str_ok (fmt_hex w c)"
proof -
  have "list_all (\<lambda>d. d < 16) (to_digits 16 c)" by (rule to_digits_less) simp
  then show ?thesis
    by (auto simp: fmt_hex_def Let_def list_all_iff dig_char_def intro!: ascii_char_ok)
qed

lemma str_ok_lit: "list_all (\<lambda>c. of_char c < (128 :: nat)) s \<Longrightarrow> str_ok (lit s)"
  by (auto simp: lit_def list_all_iff intro: ascii_char_ok)

lemma str_ok_hex: "str_ok (bytes_hex b)"
  using bytes_hex_lower [of b] by (auto simp: list_all_iff is_lower_hex_def is_digit_def intro!: ascii_char_ok)

lemma escape_char_ok: "char_ok c \<Longrightarrow> str_ok (escape_char c)"
  by (auto simp: escape_char_def str_ok_fmt_hex ascii_char_ok)

lemma escape_string_ok: "str_ok s \<Longrightarrow> str_ok (escape_string s)"
  by (auto simp: escape_string_def list_all_iff escape_char_ok [unfolded list_all_iff] ascii_char_ok)

lemma str_ok_join: "list_all str_ok ts \<Longrightarrow> str_ok sep \<Longrightarrow> str_ok (join sep ts)"
  by (induction sep ts rule: join.induct) auto

lemma list_all2_right: "list_all2 P xs ys \<Longrightarrow> (\<And>x y. x \<in> set xs \<Longrightarrow> P x y \<Longrightarrow> Q y) \<Longrightarrow> list_all Q ys"
  by (induction rule: list_all2_induct) auto

lemma jcs_ref_chars: "json_val v \<Longrightarrow> jcs_ref v = Inr t \<Longrightarrow> str_ok t"
proof (induction v arbitrary: t rule: jcs_ref.induct)
  case (5 x)
  then show ?case using es_number_chars [of x t] by (auto simp: list_all_iff intro: ascii_char_ok)
next
  case (6 vs)
  then obtain ts where ts: "list_all2 (\<lambda>v t. jcs_ref v = Inr t) vs ts" "t = [91] @ join [44] ts @ [93]"
    by (auto simp: res_simps)
  have "list_all str_ok ts"
    using 6 by (intro list_all2_right [OF ts(1)]) (auto simp: list_all_iff)
  then show ?case using ts(2) by (simp add: str_ok_join ascii_char_ok)
next
  case (7 d)
  note si = sorted_items_json [OF "7.prems"(1)]
  obtain ts where ts: "list_all2 (\<lambda>p x. \<exists>t. jcs_ref (snd p) = Inr t \<and> x = escape_string (fst p) @ [58] @ t) (sorted_obj d) ts"
      "t = [123] @ join [44] ts @ [125]"
    using "7.prems"(2) si by (auto simp: res_simps eq_commute [of "_ @ _" "_ :: nat list"])
  have "str_ok x" if p: "p \<in> set (sorted_obj d)" and x: "\<exists>t. jcs_ref (snd p) = Inr t \<and> x = escape_string (fst p) @ [58] @ t" for p x
  proof -
    have ok: "str_ok (fst p)" "json_val (snd p)" using p "7.prems"(1) by (auto simp: list_all_iff)
    then show ?thesis using x "7.IH" [OF si p] by (auto simp: escape_string_ok ascii_char_ok)
  qed
  then have "list_all str_ok ts" by (intro list_all2_right [OF ts(1)])
  then show ?case using ts(2) by (simp add: str_ok_join ascii_char_ok)
qed (auto simp: escape_string_ok intro!: str_ok_lit)

section \<open>The parser returns JSON values\<close>

lemma set_dropWhile_sub: "set (dropWhile P s) \<subseteq> set s"
  by (auto dest: set_dropWhileD)

lemma set_ws: "set (ws s) \<subseteq> set s"
  by (simp add: ws_def set_dropWhile_sub)

lemma unescape_sub: "unescape s = Inr (x, r) \<Longrightarrow> set r \<subseteq> set s"
  by (auto simp: unescape_def unescape_u_def Let_def res_simps split: list.splits if_splits dest!: in_set_dropD)

lemma hex4_less: "hex4 s = Inr n \<Longrightarrow> n < 65536"
proof -
  assume "hex4 s = Inr n"
  then have h: "length (take 4 s) = 4" "list_all is_hex (take 4 s)" "n = nat_of_hex (take 4 s)"
    by (auto simp: hex4_def Let_def split: if_splits)
  have "list_all (\<lambda>d. d < 16) (map hex_val (take 4 s))"
    using h(2) by (auto simp: list_all_iff hex_val_def is_hex_def is_lower_hex_def is_digit_def)
  from of_digits_less [OF this] show ?thesis using h by (simp add: nat_of_hex_def)
qed

lemma unescape_range: "unescape s = Inr (x, r) \<Longrightarrow> c \<in> set x \<Longrightarrow> c \<le> 0x10FFFF"
  by (auto simp: unescape_def unescape_u_def Let_def res_simps split: list.splits if_splits dest!: hex4_less)

lemma check_scalars_iff: "check_scalars s = Inr u \<Longrightarrow> \<forall>c\<in>set s. c \<le> 0x10FFFF \<Longrightarrow> str_ok s"
  by (auto simp: check_scalars_def list_ex_iff list_all_iff char_ok_def scalar_def split: if_splits)

lemma string_loop_ok:
  "string_loop chars s = Inr (x, r) \<Longrightarrow> \<forall>c\<in>set s \<union> set chars. c \<le> 0x10FFFF \<Longrightarrow> str_ok x \<and> set r \<subseteq> set s"
proof (induction chars s rule: string_loop.induct)
  case (1 chars s)
  show ?case
  proof (cases s)
    case Nil
    then show ?thesis using "1.prems" by simp
  next
    case (Cons c s1)
    show ?thesis
    proof (cases "c \<noteq> 34 \<and> c = 92")
      case True
      then obtain y s2 where u: "unescape s1 = Inr (y, s2)" and r: "string_loop (chars @ y) s2 = Inr (x, r)"
        using "1.prems" Cons by (auto simp: res_simps)
      have "\<forall>c\<in>set s2 \<union> set (chars @ y). c \<le> 0x10FFFF"
        using "1.prems"(2) Cons unescape_sub [OF u] unescape_range [OF u] by auto
      then show ?thesis using "1.IH"(1) [OF Cons _ _ u refl r] True unescape_sub [OF u] Cons by auto
    next
      case False
      then show ?thesis
        using "1.prems" "1.IH"(2) [OF Cons] Cons
        by (auto simp: res_simps split: if_splits intro: check_scalars_iff)
    qed
  qed
qed

lemma string_tok_ok:
  "string_tok s = Inr (x, r) \<Longrightarrow> \<forall>c\<in>set s. c \<le> 0x10FFFF \<Longrightarrow> str_ok x \<and> set r \<subseteq> set s"
  using string_loop_ok [of "[]" "drop 1 s" x r] set_drop_subset [of 1 s] by (auto simp: string_tok_def)

lemma scan_sub:
  "scan_int s = Inr r \<Longrightarrow> set r \<subseteq> set s"
  "scan_frac s = Inr r \<Longrightarrow> set r \<subseteq> set s"
  "scan_exp s = Inr r \<Longrightarrow> set r \<subseteq> set s"
  "set (snd (strip_minus s)) \<subseteq> set s"
  using set_dropWhile_sub [of is_digit]
  by (fastforce simp: scan_int_def scan_frac_def scan_exp_def skip_sign_def strip_minus_def
      split: list.splits if_splits dest: set_dropWhileD)+

lemma number_tok_ok:
  assumes "number_tok s = Inr (x, r)"
  shows "num_ok x" "set r \<subseteq> set s"
proof -
  obtain s2 s3 where sc: "scan_int (snd (strip_minus s)) = Inr s2" "scan_frac s2 = Inr s3" "scan_exp s3 = Inr r"
    and v: "x = py_float (take (length s - length r) s)" "isfinite x"
      "\<not> (is_zero x \<and> fst (strip_minus (take (length s - length r) s)))"
    using assms by (auto simp: number_tok_def Let_def res_simps)
  show "set r \<subseteq> set s" using scan_sub sc by (meson order_trans)
  obtain neg w t where f: "x = float_of_decimal neg w t" "neg = fst (strip_minus (take (length s - length r) s))"
    using v(1) by (auto simp: py_float_def Let_def split: prod.splits)
  then have "x = FFin True 0 (- 1074) \<Longrightarrow> neg" unfolding float_of_decimal_def by (metis round64_sign)
  moreover have "wf64 x" unfolding f by (rule float_of_decimal_wf)
  ultimately show "num_ok x" using v(2,3) f(2) by (auto simp: num_ok_def)
qed

lemma ws_in: "ws s = t \<Longrightarrow> c \<in> set t \<Longrightarrow> c \<in> set s"
  using set_ws [of s] by auto

lemma json_member: "json_val (PDict d) \<Longrightarrow> str_ok k \<Longrightarrow> json_val v \<Longrightarrow> \<not> dhas d k \<Longrightarrow> json_val (PDict (d @ [(k, v)]))"
  by (auto simp: dhas_def)

lemma jval_json:
  "jval s v r \<Longrightarrow> \<forall>c\<in>set s. c \<le> 0x10FFFF \<Longrightarrow> json_val v \<and> set r \<subseteq> set s"
  "jelems s vs vs' r \<Longrightarrow> \<forall>c\<in>set s. c \<le> 0x10FFFF \<Longrightarrow> list_all json_val vs \<Longrightarrow> list_all json_val vs' \<and> set r \<subseteq> set s"
  "jmembers s d d' r \<Longrightarrow> \<forall>c\<in>set s. c \<le> 0x10FFFF \<Longrightarrow> json_val (PDict d) \<Longrightarrow> json_val (PDict d') \<and> set r \<subseteq> set s"
proof (induction rule: jval_jelems_jmembers.inducts)
  case (obj s q t d r)
  then show ?case using ws_in [of s] ws_in [of q] by fastforce
next
  case (obj_empty s q r)
  then show ?case using ws_in [of s] ws_in [of q] by fastforce
next
  case (arr s q c t vs r)
  then show ?case using ws_in [of s] ws_in [of q] by fastforce
next
  case (arr_empty s q r)
  then show ?case using ws_in [of s] ws_in [of q] by fastforce
next
  case (str s q x r)
  then show ?case using ws_in [of s] string_tok_ok [of "34 # q" x r] by fastforce
next
  case (num s c q x r)
  then show ?case using ws_in [of s] number_tok_ok [of "c # q" x r] by fastforce
next
  case (elems_last s v q r vs)
  then show ?case using ws_in [of q] by fastforce
next
  case (elems_more s v q t vs ws' r)
  then show ?case using ws_in [of q] by fastforce
next
  case (members_last s k q t v u d r)
  have k: "str_ok k" "set q \<subseteq> set s" using string_tok_ok [OF members_last.hyps(1) members_last.prems(1)] by auto
  have t: "set t \<subseteq> set s" using set_ws [of q] members_last.hyps(2) k(2) by auto
  then have v: "json_val v" "set u \<subseteq> set s" using members_last.IH members_last.prems(1) by auto
  then have "set r \<subseteq> set s" using set_ws [of u] members_last.hyps(5) by auto
  then show ?case using json_member [OF members_last.prems(2) k(1) v(1) members_last.hyps(4)] by simp
next
  case (members_more s k q t v u d x y d' r)
  have k: "str_ok k" "set q \<subseteq> set s" using string_tok_ok [OF members_more.hyps(1) members_more.prems(1)] by auto
  have t: "set t \<subseteq> set s" using set_ws [of q] members_more.hyps(2) k(2) by auto
  then have v: "json_val v" "set u \<subseteq> set s" using members_more.IH(1) members_more.prems(1) by auto
  have y: "set (34 # y) \<subseteq> set s" using set_ws [of u] set_ws [of x] v(2) members_more.hyps by auto
  then show ?case
    using members_more.IH(2) [OF _ json_member [OF members_more.prems(2) k(1) v(1) members_more.hyps(4)]]
      members_more.prems(1) by (meson subsetD subset_trans)
next
  case (true s r)
  then show ?case using ws_in [of s] by fastforce
next
  case (false s r)
  then show ?case using ws_in [of s] by fastforce
next
  case (null s r)
  then show ?case using ws_in [of s] by fastforce
qed

lemma text_chars_ok: "eachr text_char s = Inr u \<Longrightarrow> list_all scalar s \<Longrightarrow> str_ok s"
  by (auto simp: res_simps text_char_def char_ok_def list_all_iff scalar_def split: if_splits)

lemma parse_utf8_iff: "parse_utf8 (utf8_bytes s) = Inr v \<longleftrightarrow> jdoc s v" if "str_ok s"
proof -
  have "eachr text_char s = Inr ()"
    using that by (auto simp: res_simps text_char_def char_ok_def list_all_iff scalar_def)
  then show ?thesis
    using utf8.dec_enc [OF str_ok_scalar [OF that]] by (simp add: parse_utf8_def parse_document_iff)
qed

lemma parse_utf8_D:
  assumes "parse_utf8 data = Inr v"
  obtains s where "str_ok s" "data = utf8_bytes s" "jdoc s v"
proof -
  obtain s where s: "utf8_decode data = Inr s" "eachr text_char s = Inr ()" "parse_document s = Inr v"
    using assms by (auto simp: parse_utf8_def res_simps split: sum.splits)
  then have "list_all scalar s" "utf8_bytes s = data" by (simp_all add: utf8.dec_eq_iff)
  then show ?thesis using that [of s] s text_chars_ok by (simp add: parse_document_iff)
qed

lemma parse_utf8_json: "parse_utf8 data = Inr v \<Longrightarrow> json_val v"
proof -
  assume "parse_utf8 data = Inr v"
  then obtain s where "str_ok s" "jdoc s v" by (rule parse_utf8_D)
  then show ?thesis using jval_json(1) [of s v] by (auto simp: jdoc_def list_all_iff char_ok_def scalar_def)
qed

section \<open>Canonical bytes\<close>

lemma canonicalize_total:
  assumes "json_val v"
  obtains t where "canonicalize v = Inr t" "canonicalize_bytes v = Inr (utf8_bytes t)" "str_ok t" "jdoc t (norm v)"
proof -
  obtain t where t: "jcs_ref v = Inr t" "prints (norm v) t" using jcs_ref_prints [OF assms] by blast
  have ok: "str_ok t" by (rule jcs_ref_chars [OF assms t(1)])
  have "jval (t @ []) (norm v) []" using t(2) by (simp add: prints_def num_stop_def)
  then have "jdoc t (norm v)" by (auto simp: jdoc_def ws_def)
  then show ?thesis
    using that [of t] t ok str_ok_scalar [OF ok] by (simp add: canonicalize_eq_ref canonicalize_bytes_def utf8_encode_def)
qed

lemma json_val_norm: "json_val v \<Longrightarrow> json_val (norm v)"
proof (induction v rule: norm.induct)
  case (2 d)
  then show ?case by (auto simp: list_all_iff o_def distinct_map_fst_sort)
qed (auto simp: list_all_iff)

lemma norm_norm: "norm (norm v) = norm v"
proof (induction v rule: norm.induct)
  case (2 d)
  then show ?case by (simp add: sort_key_norm)
qed simp_all

lemma canonicalize_norm: "json_val v \<Longrightarrow> canonicalize_bytes (norm v) = canonicalize_bytes v"
  by (simp add: canonicalize_bytes_def canonicalize_eq_ref jcs_ref_norm)

lemma parse_canonical: "json_val v \<Longrightarrow> bindr (canonicalize_bytes v) parse_utf8 = Inr (norm v)"
  by (erule canonicalize_total) (simp add: parse_utf8_iff)

text \<open>Canonical bytes as a codec of normalised JSON values.\<close>

definition canon_bytes :: "pyval \<Rightarrow> bytes" where
  "canon_bytes v = (case canonicalize_bytes v of Inr b \<Rightarrow> b | Inl _ \<Rightarrow> [])"

lemma canonicalize_bytes_eq: "json_val v \<Longrightarrow> canonicalize_bytes v = Inr (canon_bytes v)"
  by (erule canonicalize_total) (simp add: canon_bytes_def)

interpretation canon: codec canon_bytes parse_utf8 "\<lambda>v. json_val v \<and> norm v = v"
proof
  fix v
  assume v: "json_val v \<and> norm v = v"
  then show "parse_utf8 (canon_bytes v) = Inr v"
    using parse_canonical [of v] canonicalize_bytes_eq [of v] by simp
qed

lemma same_bytes_norm:
  assumes "json_val v" "json_val w" "canonicalize_bytes v = canonicalize_bytes w"
  shows "norm v = norm w"
  using assms parse_canonical [of v] parse_canonical [of w] by simp

section \<open>Properties\<close>

text \<open>C5: on every byte string the input stage either returns a value whose strings hold no surrogate and
  no noncharacter, whose numbers are finite and not negative zero and whose member names are
  unique, or refuses with one of its documented reasons; no assertion of the parser fails.\<close>
theorem parse_utf8_total_and_typed:
  "case parse_utf8 data of
       Inr v \<Rightarrow> json_val v
     | Inl e \<Rightarrow> \<exists>r\<in>{''invalid-utf8''} \<union> input_reasons. e = JsonInputError r"
  by (cases "parse_utf8 data") (auto simp: parse_utf8_json input_error_def dest!: parse_utf8_error)

text \<open>C2: every JSON value has canonical bytes, and the verifier's own parser reads them back as the value
  with its members in canonical order.\<close>
theorem canonical_bytes_read_back:
  assumes "json_val v"
  shows "\<exists>b. canonicalize_bytes v = Inr b \<and> parse_utf8 b = Inr (norm v)"
  using canonicalize_bytes_eq [OF assms] parse_canonical [OF assms] by simp

theorem canonical_bytes_read_back_witness:
  "\<exists>b. canonicalize_bytes (PDict [(lit ''b'', PNone), (lit ''a'', PList [PBool True])]) = Inr b \<and>
     parse_utf8 b = Inr (PDict [(lit ''a'', PList [PBool True]), (lit ''b'', PNone)])"
proof -
  have "json_val (PDict [(lit ''b'', PNone), (lit ''a'', PList [PBool True])])"
    by (simp add: lit_def ascii_char_ok)
  moreover have "norm (PDict [(lit ''b'', PNone), (lit ''a'', PList [PBool True])]) =
      PDict [(lit ''a'', PList [PBool True]), (lit ''b'', PNone)]"
    by (simp add: lit_def utf16be_def utf16_units_def be16_def)
  ultimately show ?thesis
    using canonical_bytes_read_back [of "PDict [(lit ''b'', PNone), (lit ''a'', PList [PBool True])]"] by simp
qed

text \<open>C4: two JSON values have the same canonical bytes exactly when they differ in member order only.\<close>
theorem canonical_bytes_determine_value:
  assumes "json_val v" "json_val w"
  shows "canonicalize_bytes v = canonicalize_bytes w \<longleftrightarrow> norm v = norm w"
  using same_bytes_norm [OF assms] canonicalize_norm [OF assms(1)] canonicalize_norm [OF assms(2)] by metis

theorem canonical_bytes_determine_value_witness:
  "canonicalize_bytes (PStr (lit ''a'')) \<noteq> canonicalize_bytes (PList [PStr (lit ''a'')])"
  using canonical_bytes_determine_value [of "PStr (lit ''a'')" "PList [PStr (lit ''a'')]"]
  by (simp add: lit_def ascii_char_ok)

text \<open>Canonicalization does not see the order in which the members of an object were written:
  dictionaries with the same entries have the same canonical bytes.\<close>
theorem canonical_order_independent:
  assumes "json_val (PDict d)" "json_val (PDict d')" "dget d = dget d'"
  shows "canonicalize_bytes (PDict d) = canonicalize_bytes (PDict d')"
proof -
  have "mset d = mset d'" using assms by (intro dict_mset_eq) (simp_all add: wf_dict_def)
  then show ?thesis using assms by (metis norm_perm canonicalize_norm)
qed

theorem canonical_order_independent_witness:
  "canonicalize_bytes (PDict [(lit ''b'', PNone), (lit ''a'', PBool True)]) =
     canonicalize_bytes (PDict [(lit ''a'', PBool True), (lit ''b'', PNone)])"
  by (rule canonical_order_independent) (auto simp: lit_def ascii_char_ok fun_eq_iff)

end
