(* ===== verification/Sha2.thy ===== *)
theory Sha2
  imports Py_Numerals
begin

text \<open>
  \<^verbatim>\<open>hashlib.sha256\<close> and \<^verbatim>\<open>hashlib.sha512\<close> as FIPS 180-4 defines them, one algorithm at two word
  lengths. The round constants are computed: the leading fractional bits of the cube roots of
  the first primes; the initial state from their square roots.
\<close>

unbundle bit_operations_syntax

section \<open>Constants from roots of primes\<close>

definition is_prime :: "nat \<Rightarrow> bool" where
  "is_prime n = (2 \<le> n \<and> list_all (\<lambda>d. n mod d \<noteq> 0) [2..<n])"

text \<open>The first primes; 409 is the 80th.\<close>

definition small_primes :: "nat list" where
  "small_primes = filter is_prime [2..<410]"

text \<open>The integer \<open>k\<close>-th root by bits from the top.\<close>

primrec root_bits :: "nat \<Rightarrow> nat \<Rightarrow> nat \<Rightarrow> nat \<Rightarrow> nat" where
  "root_bits k n 0 r = r"
| "root_bits k n (Suc b) r = root_bits k n b (if (r + 2 ^ b) ^ k \<le> n then r + 2 ^ b else r)"

text \<open>The first \<open>w\<close> fractional bits of the \<open>k\<close>-th root of \<open>p\<close>.\<close>

definition frac_root :: "nat \<Rightarrow> nat \<Rightarrow> nat \<Rightarrow> nat" where
  "frac_root k w p = root_bits k (p * 2 ^ (w * k)) (w + 8) 0 mod 2 ^ w"

section \<open>The compression function\<close>

record sha2_params =
  rounds :: nat
  big0 :: "nat \<times> nat \<times> nat"
  big1 :: "nat \<times> nat \<times> nat"
  small0 :: "nat \<times> nat \<times> nat"
  small1 :: "nat \<times> nat \<times> nat"

definition big_sigma :: "nat \<times> nat \<times> nat \<Rightarrow> 'w::len word \<Rightarrow> 'w word" where
  "big_sigma t x = (case t of (i, j, k) \<Rightarrow> word_rotr i x XOR word_rotr j x XOR word_rotr k x)"

definition small_sigma :: "nat \<times> nat \<times> nat \<Rightarrow> 'w::len word \<Rightarrow> 'w word" where
  "small_sigma t x = (case t of (i, j, k) \<Rightarrow> word_rotr i x XOR word_rotr j x XOR drop_bit k x)"

definition select_bits :: "'w::len word \<Rightarrow> 'w word \<Rightarrow> 'w word \<Rightarrow> 'w word" where
  "select_bits x y z = (x AND y) XOR (NOT x AND z)"

definition majority :: "'w::len word \<Rightarrow> 'w word \<Rightarrow> 'w word \<Rightarrow> 'w word" where
  "majority x y z = (x AND y) XOR (x AND z) XOR (y AND z)"

text \<open>The message schedule, extended to \<open>n\<close> further words.\<close>

primrec extend_schedule :: "sha2_params \<Rightarrow> nat \<Rightarrow> 'w::len word list \<Rightarrow> 'w word list" where
  "extend_schedule ps 0 ws = ws"
| "extend_schedule ps (Suc n) ws =
     (let t = length ws in
      extend_schedule ps n
        (ws @ [small_sigma (small1 ps) (ws ! (t - 2)) + ws ! (t - 7) +
               small_sigma (small0 ps) (ws ! (t - 15)) + ws ! (t - 16)]))"

fun sha2_round :: "sha2_params \<Rightarrow> 'w::len word \<times> 'w word \<Rightarrow> 'w word list \<Rightarrow> 'w word list" where
  "sha2_round ps (k, w) [a, b, c, d, e, f, g, h] =
     (let t1 = h + big_sigma (big1 ps) e + select_bits e f g + k + w;
          t2 = big_sigma (big0 ps) a + majority a b c
      in [t1 + t2, a, b, c, d + t1, e, f, g])"
| "sha2_round ps kw st = st"

definition sha2_consts :: "sha2_params \<Rightarrow> 'w::len word list" where
  "sha2_consts ps = map (\<lambda>p. of_nat (frac_root 3 LENGTH('w) p)) (take (rounds ps) small_primes)"

definition sha2_init :: "'w::len word list" where
  "sha2_init = map (\<lambda>p. of_nat (frac_root 2 LENGTH('w) p)) (take 8 small_primes)"

definition sha2_block :: "sha2_params \<Rightarrow> 'w::len word list \<Rightarrow> 'w word list \<Rightarrow> 'w word list" where
  "sha2_block ps ks st =
     map2 (+) st (fold (sha2_round ps) (zip (sha2_consts ps) (extend_schedule ps (rounds ps - 16) ks)) st)"

section \<open>Padding and digest\<close>

definition to_be :: "nat \<Rightarrow> nat \<Rightarrow> bytes" where
  "to_be n x = rev (to_le n x)"

definition sha2_pad :: "nat \<Rightarrow> bytes \<Rightarrow> bytes" where
  "sha2_pad wb msg =
     (let n = length msg; bb = 16 * wb; z = (bb - (n + 1 + 2 * wb) mod bb) mod bb
      in msg @ [0x80] @ replicate z 0 @ to_be (2 * wb) (8 * n))"

function chunks :: "nat \<Rightarrow> 'a list \<Rightarrow> 'a list list" where
  "chunks k xs = (if k = 0 \<or> xs = [] then [] else take k xs # chunks k (drop k xs))"
  by pat_completeness auto
termination
  by (relation "measure (\<lambda>(k, xs). length xs)") auto

declare chunks.simps [simp del]

definition sha2_words :: "nat \<Rightarrow> bytes \<Rightarrow> 'w::len word list" where
  "sha2_words wb bs = map (\<lambda>c. of_nat (from_be c)) (chunks wb bs)"

definition sha2_digest :: "sha2_params \<Rightarrow> 'w::len itself \<Rightarrow> bytes \<Rightarrow> bytes" where
  "sha2_digest ps ty msg =
     (let wb = LENGTH('w) div 8;
          st = fold (\<lambda>blk. sha2_block ps (sha2_words wb blk)) (chunks (16 * wb) (sha2_pad wb msg)) (sha2_init :: 'w word list)
      in concat (map (\<lambda>w. to_be wb (unat w)) st))"

definition sha256_params :: sha2_params where
  "sha256_params = \<lparr>rounds = 64, big0 = (2, 13, 22), big1 = (6, 11, 25), small0 = (7, 18, 3), small1 = (17, 19, 10)\<rparr>"

definition sha512_params :: sha2_params where
  "sha512_params = \<lparr>rounds = 80, big0 = (28, 34, 39), big1 = (14, 18, 41), small0 = (1, 8, 7), small1 = (19, 61, 6)\<rparr>"

definition sha256 :: "bytes \<Rightarrow> bytes" where
  "sha256 msg = sha2_digest sha256_params TYPE(32) msg"

definition sha512_digest :: "bytes \<Rightarrow> bytes" where
  "sha512_digest msg = sha2_digest sha512_params TYPE(64) msg"

section \<open>Digest length\<close>

lemma length_sha2_round [simp]: "length (sha2_round ps kw st) = length st"
  by (induction ps kw st rule: sha2_round.induct) (simp_all add: Let_def)

lemma length_fold_rounds: "length (fold (sha2_round ps) kws st) = length st"
  by (induction kws arbitrary: st) simp_all

lemma length_sha2_block [simp]: "length (sha2_block ps ks st) = length st"
  by (simp add: sha2_block_def length_fold_rounds)

lemma length_fold_blocks: "length (fold (\<lambda>blk. sha2_block ps (f blk)) blks st) = length st"
  by (induction blks arbitrary: st) simp_all

lemma small_primes_prefix: "small_primes = [2, 3, 5, 7, 11, 13, 17, 19] @ filter is_prime [20..<410]"
proof -
  have "[2..<20 + 390] = [2..<20] @ [20..<(20 + 390 :: nat)]" by (rule upt_add_eq_append) simp
  then have "[2..<410] = [2..<20] @ [20..<(410 :: nat)]" unfolding numeral_plus_numeral by (simp only: add_num_simps)
  moreover have "filter is_prime [2..<20] = [2, 3, 5, 7, 11, 13, 17, 19]" by code_simp
  ultimately show ?thesis unfolding small_primes_def by (simp only: filter_append)
qed

lemma length_sha2_init [simp]: "length (sha2_init :: 'w::len word list) = 8"
proof -
  have "8 \<le> length small_primes"
    unfolding small_primes_prefix length_append by (rule trans_le_add1) simp
  then show ?thesis by (simp add: sha2_init_def)
qed

lemma length_digest_words: "length (concat (map (\<lambda>w. to_be n (unat w)) ws)) = n * length ws"
  by (induction ws) (simp_all add: to_be_def)

lemma length_sha2_digest: "length (sha2_digest ps TYPE('w::len) msg) = LENGTH('w) div 8 * 8"
  by (simp add: sha2_digest_def Let_def length_digest_words length_fold_blocks)

lemma length_sha256 [simp]: "length (sha256 msg) = 32"
  by (simp add: sha256_def length_sha2_digest)

lemma length_sha512 [simp]: "length (sha512_digest msg) = 64"
  by (simp add: sha512_digest_def length_sha2_digest)

end
