(* ===== verification/Ed25519_Spp.thy ===== *)
theory Ed25519_Spp
  imports Sha2
begin

text \<open>
  \<^verbatim>\<open>implementations/python/ed25519_spp.py\<close>: the SPP-Ed25519-1 profile in integer arithmetic. The
  constants, point arithmetic, the point codec, \<open>verify_spp_ed25519_1\<close> and \<open>sign\<close> keep the names of
  the source (constants with the suffix \<open>_c\<close>). Coordinates are unbounded integers as in Python;
  \<open>mod\<close> with a positive modulus is Python's \<open>%\<close>.
\<close>

section \<open>Modular exponentiation\<close>

text \<open>Python's three-argument \<^verbatim>\<open>pow\<close> for a non-negative exponent: square and multiply.\<close>

function powmod :: "int \<Rightarrow> nat \<Rightarrow> int \<Rightarrow> int" where
  "powmod b e m =
     (if e = 0 then 1 mod m
      else let h = powmod (b * b mod m) (e div 2) m in if odd e then b * h mod m else h)"
  by pat_completeness auto
termination
  by (relation "measure (\<lambda>(b, e, m). e)") auto

declare powmod.simps [simp del]

lemma powmod_eq: "powmod b e m = b ^ e mod m"
proof (induction b e m rule: powmod.induct)
  case (1 b e m)
  show ?case
  proof (cases "e = 0")
    case True
    then show ?thesis by (simp add: powmod.simps)
  next
    case False
    have h: "powmod (b * b mod m) (e div 2) m = (b ^ (2 * (e div 2))) mod m"
      using 1 False by (simp add: power_mod power_mult power2_eq_square)
    show ?thesis
    proof (cases "odd e")
      case True
      then have "b ^ e = b * b ^ (2 * (e div 2))" by (metis odd_two_times_div_two_succ power_add power_one_right mult.commute)
      then show ?thesis using h False True by (simp add: powmod.simps [of b e m] mod_mult_right_eq)
    next
      case even: False
      then show ?thesis using h False by (simp add: powmod.simps [of b e m])
    qed
  qed
qed

section \<open>Curve constants and arithmetic\<close>

definition P_c :: int where "P_c = 2 ^ 255 - 19"

definition L_c :: int where "L_c = 2 ^ 252 + 27742317777372353535851937790883648493"

definition D_c :: int where "D_c = (- 121665 * powmod 121666 (nat (P_c - 2)) P_c) mod P_c"

definition I_c :: int where "I_c = powmod 2 (nat ((P_c - 1) div 4)) P_c"

definition inv_p :: "int \<Rightarrow> int" where
  "inv_p x = powmod x (nat (P_c - 2)) P_c"

definition xrecover :: "int \<Rightarrow> exn + int" where
  "xrecover y =
     (let yy = (y * y) mod P_c;
          u = (yy - 1) mod P_c;
          v = (D_c * yy + 1) mod P_c;
          x2 = (u * inv_p v) mod P_c;
          x0 = powmod x2 (nat ((P_c + 3) div 8)) P_c;
          x1 = (if (x0 * x0 - x2) mod P_c \<noteq> 0 then (x0 * I_c) mod P_c else x0)
      in if (x1 * x1 - x2) mod P_c \<noteq> 0 then Inl (ValueError ''not on curve'')
         else Inr (if x1 mod 2 \<noteq> 0 then P_c - x1 else x1))"

type_synonym point = "int \<times> int"

definition point_add :: "point \<Rightarrow> point \<Rightarrow> point" where
  "point_add a b = (case (a, b) of ((x1, y1), (x2, y2)) \<Rightarrow>
     let den_x = (1 + D_c * x1 * x2 * y1 * y2) mod P_c;
         den_y = (1 - D_c * x1 * x2 * y1 * y2) mod P_c
     in (((x1 * y2 + x2 * y1) * inv_p den_x) mod P_c, ((y1 * y2 + x1 * x2) * inv_p den_y) mod P_c))"

text \<open>The double-and-add loop of \<^verbatim>\<open>_point_mul\<close> with its variables \<^verbatim>\<open>r\<close>, \<^verbatim>\<open>q\<close> and \<^verbatim>\<open>s\<close>.\<close>

function mul_loop :: "point \<Rightarrow> point \<Rightarrow> nat \<Rightarrow> point" where
  "mul_loop r q s =
     (if s = 0 then r
      else mul_loop (if odd s then point_add r q else r) (point_add q q) (s div 2))"
  by pat_completeness auto
termination
  by (relation "measure (\<lambda>(r, q, s). s)") auto

declare mul_loop.simps [simp del]

definition point_mul :: "nat \<Rightarrow> point \<Rightarrow> point" where
  "point_mul s pt = mul_loop (0, 1) pt s"

definition BY_c :: int where "BY_c = (4 * powmod 5 (nat (P_c - 2)) P_c) mod P_c"

definition BX_c :: int where "BX_c = (case xrecover BY_c of Inr x \<Rightarrow> x | Inl _ \<Rightarrow> 0)"

definition B_c :: point where "B_c = (BX_c, BY_c)"

definition IDENT :: point where "IDENT = (0, 1)"

section \<open>The point codec\<close>

text \<open>\<^verbatim>\<open>y.to_bytes(32, "little")\<close> raises for a coordinate that does not fit.\<close>

definition encode_point :: "point \<Rightarrow> exn + bytes" where
  "encode_point pt = (case pt of (x, y) \<Rightarrow>
     if y < 0 \<or> 2 ^ 256 \<le> y then Inl OverflowError
     else let out = to_le 32 (nat y)
          in Inr (if odd x then out[31 := out ! 31 OR 0x80] else out))"

definition decode_point :: "bytes \<Rightarrow> exn + point" where
  "decode_point raw =
     (if length raw \<noteq> 32 then Inl (ValueError ''length'')
      else
        let y0 = from_le raw;
            x_sign = odd (y0 div 2 ^ 255);
            y = int (y0 mod 2 ^ 255)
        in if P_c \<le> y then Inl (ValueError ''y'')
           else case xrecover y of
               Inl _ \<Rightarrow> Inl (ValueError ''curve'')
             | Inr x0 \<Rightarrow>
                 (let x = (if x_sign then P_c - x0 else x0) in
                  if x = 0 \<and> x_sign then Inl (ValueError ''sign'')
                  else bindr (encode_point (x, y)) (\<lambda>e.
                    if e \<noteq> raw then Inl (ValueError ''non-canonical'') else Inr (x, y))))"

definition is_ident :: "point \<Rightarrow> bool" where
  "is_ident pt = (pt = IDENT)"

section \<open>Signatures\<close>

definition sha512 :: "bytes list \<Rightarrow> bytes" where
  "sha512 parts = sha512_digest (concat parts)"

definition assertion_message :: "bytes \<Rightarrow> bytes" where
  "assertion_message d = asc ''SPP/1/assertion'' @ [0] @ d"

definition verify_spp_ed25519_1 :: "bytes \<Rightarrow> bytes \<Rightarrow> bytes \<Rightarrow> bool" where
  "verify_spp_ed25519_1 a_bytes sig d =
     (if length a_bytes \<noteq> 32 \<or> length sig \<noteq> 64 \<or> length d \<noteq> 32 then False
      else
        let r_bytes = take 32 sig; s = from_le (drop 32 sig) in
        if L_c \<le> int s then False
        else case (decode_point a_bytes, decode_point r_bytes) of
            (Inr a, Inr r) \<Rightarrow>
              if is_ident a \<or> is_ident r then False
              else if \<not> is_ident (point_mul (nat L_c) a) then False
              else if \<not> is_ident (point_mul (nat L_c) r) then False
              else
                let m = assertion_message d;
                    k = from_le (sha512 [r_bytes, a_bytes, m]) mod nat L_c
                in point_mul s B_c = point_add r (point_mul k a)
          | _ \<Rightarrow> False)"

text \<open>The scalar of a private key: clear all but bits 3 to 253, set bit 254.\<close>

definition clamp :: "bytes \<Rightarrow> nat" where
  "clamp h = or (and (from_le (take 32 h)) (2 ^ 254 - 8)) (2 ^ 254)"

definition sign :: "bytes \<Rightarrow> bytes \<Rightarrow> exn + bytes" where
  "sign private_key d =
     (if length private_key \<noteq> 32 then Inl (ValueError ''sk'')
      else
        let h = sha512 [private_key];
            s = clamp h;
            prefix = drop 32 h;
            m = assertion_message d;
            r = from_le (sha512 [prefix, m]) mod nat L_c
        in bindr (encode_point (point_mul s B_c)) (\<lambda>a.
           bindr (encode_point (point_mul r B_c)) (\<lambda>r_bytes.
             let k = from_le (sha512 [r_bytes, a, m]) mod nat L_c;
                 s_out = (r + k * s) mod nat L_c
             in Inr (r_bytes @ to_le 32 s_out))))"

definition public_from_private :: "bytes \<Rightarrow> exn + bytes" where
  "public_from_private private_key = encode_point (point_mul (clamp (sha512 [private_key])) B_c)"

section \<open>Ranges and parity\<close>

lemma P_facts [simp]: "0 < P_c" "1 < P_c" "odd P_c" "P_c < 2 ^ 255" "P_c \<noteq> 0"
  by (simp_all add: P_c_def)

lemma L_facts [simp]: "0 < L_c" "L_c < 2 ^ 253" "0 < nat L_c"
  by (simp_all add: L_c_def)

lemma inv_p_1 [simp]: "inv_p 1 = 1"
  by (simp add: inv_p_def powmod_eq)

lemma powmod_range [simp]: "0 \<le> powmod b e P_c" "powmod b e P_c < P_c"
  by (simp_all add: powmod_eq)

definition x_squared :: "int \<Rightarrow> int" where
  "x_squared y = ((y * y - 1) * inv_p ((D_c * (y * y) + 1) mod P_c)) mod P_c"

lemma xrecover_spec:
  assumes "xrecover y = Inr r"
  shows "even r" "0 \<le> r" "r < P_c" "r * r mod P_c = x_squared y"
proof -
  define x2 where "x2 = x_squared y"
  define x0 where "x0 = powmod x2 (nat ((P_c + 3) div 8)) P_c"
  define x1 where "x1 = (if (x0 * x0 - x2) mod P_c \<noteq> 0 then (x0 * I_c) mod P_c else x0)"
  have v: "(D_c * (y * y mod P_c) + 1) mod P_c = (D_c * (y * y) + 1) mod P_c"
    by (metis mod_add_left_eq mod_mult_right_eq)
  have x2: "((y * y mod P_c - 1) mod P_c * inv_p ((D_c * (y * y mod P_c) + 1) mod P_c)) mod P_c = x2"
    unfolding v x2_def x_squared_def by (simp add: mod_diff_left_eq mod_mult_left_eq)
  have sq: "(x1 * x1 - x2) mod P_c = 0" and r: "r = (if x1 mod 2 \<noteq> 0 then P_c - x1 else x1)"
    using assms unfolding xrecover_def Let_def x2 x0_def [symmetric] x1_def [symmetric]
    by (auto split: if_splits)
  have x1: "0 \<le> x1" "x1 < P_c" by (auto simp: x1_def x0_def)
  have "even r \<and> 0 \<le> r \<and> r < P_c"
  proof (cases "even x1")
    case True
    then show ?thesis using x1 r by (simp add: even_iff_mod_2_eq_zero)
  next
    case False
    then have "0 < x1" using x1 by (cases "x1 = 0") auto
    moreover have "even (P_c - x1)" using False by simp
    moreover have "r = P_c - x1" using r False by (simp add: odd_iff_mod_2_eq_one)
    ultimately show ?thesis using x1 by simp
  qed
  then show "even r" "0 \<le> r" "r < P_c" by simp_all
  have "(P_c - x1) * (P_c - x1) = x1 * x1 + P_c * (P_c - 2 * x1)" by (simp add: algebra_simps)
  then have "r * r mod P_c = x1 * x1 mod P_c" using r by simp
  also have "\<dots> = x2 mod P_c" using sq by (metis mod_eq_dvd_iff mod_0_imp_dvd)
  finally show "r * r mod P_c = x_squared y" by (simp add: x2_def x_squared_def)
qed

lemma point_add_range: "0 \<le> snd (point_add a b)" "snd (point_add a b) < P_c"
  by (simp_all add: point_add_def Let_def split: prod.splits)

lemma mul_loop_range: "0 \<le> snd r \<Longrightarrow> snd r < P_c \<Longrightarrow> 0 \<le> snd (mul_loop r q s) \<and> snd (mul_loop r q s) < P_c"
proof (induction r q s rule: mul_loop.induct)
  case (1 r q s)
  then show ?case by (subst (1 2) mul_loop.simps) (auto simp: point_add_range)
qed

lemma point_mul_range: "0 \<le> snd (point_mul s q)" "snd (point_mul s q) < P_c"
  using mul_loop_range [of "(0, 1)" q s] by (simp_all add: point_mul_def)

section \<open>Encoding sets the top bit\<close>

lemma to_le_snoc: "to_le (Suc n) x = to_le n x @ [of_nat (x div 256 ^ n)]"
proof (induction n arbitrary: x)
  case (Suc n)
  have "x div 256 div 256 ^ n = x div 256 ^ Suc n" by (simp add: div_mult2_eq)
  then show ?case using Suc [of "x div 256"] by simp
qed simp

lemma or_128:
  assumes "q < 128"
  shows "(of_nat q :: byte) OR 0x80 = of_nat (q + 128)"
proof -
  have "take_bit 7 q = q" using assms by (simp add: take_bit_nat_eq_self)
  then have "\<not> bit q 7" by (metis bit_take_bit_iff less_irrefl)
  moreover have "bit (128 :: nat) n \<Longrightarrow> n = 7" for n using bit_exp_iff [where ?'a = nat, of 7 n] by simp
  ultimately have "q + 128 = q OR 128" by (intro disjunctive_add) auto
  then have "of_nat (q + 128) = (of_nat (q OR 128) :: byte)" by simp
  also have "\<dots> = of_nat q OR 128" by (simp add: of_nat_or_eq)
  finally show ?thesis by simp
qed

lemma to_le_add_low: "to_le n (x + 256 ^ n * k) = to_le n x"
proof (induction n arbitrary: x)
  case (Suc n)
  have "(x + 256 ^ Suc n * k) div 256 = x div 256 + 256 ^ n * k" by simp
  moreover have "(of_nat (x + 256 ^ Suc n * k) :: byte) = of_nat x"
    by (simp add: word_unat_eq_iff unat_byte_of_nat mult.assoc del: of_nat_add of_nat_mult)
  ultimately show ?case using Suc [of "x div 256"] by (simp del: of_nat_add of_nat_mult)
qed simp

lemma to_le_set_top:
  assumes "y < 2 ^ 255"
  shows "(to_le 32 y)[31 := to_le 32 y ! 31 OR 0x80] = to_le 32 (y + 2 ^ 255)"
proof -
  have n: "(32 :: nat) = Suc 31" by simp
  have q: "y div 256 ^ 31 < 128" using assms by (simp add: div_less_iff_less_mult)
  have e: "(2 :: nat) ^ 255 = 256 ^ 31 * 128" by simp
  have "(y + 2 ^ 255) div 256 ^ 31 = 128 + y div 256 ^ 31" unfolding e by (rule div_mult_self2) simp
  then show ?thesis
    unfolding n to_le_snoc using or_128 [OF q] to_le_add_low [of 31 y 128] e
    by (simp add: nth_append list_update_append add.commute)
qed

definition encoded :: "point \<Rightarrow> nat" where
  "encoded pt = nat (snd pt) + (if odd (fst pt) then 2 ^ 255 else 0)"

lemma encode_point_eq:
  assumes "0 \<le> y" "y < 2 ^ 255"
  shows "encode_point (x, y) = Inr (to_le 32 (encoded (x, y)))"
proof -
  have "nat y < 2 ^ 255" using assms by (simp add: nat_less_iff)
  then show ?thesis
    using assms to_le_set_top by (simp add: encode_point_def encoded_def Let_def)
qed

section \<open>The decoder accepts encodings only\<close>

text \<open>The points the decoder can return: an ordinate below \<open>P\<close> and one of the two roots.\<close>

definition decodable :: "point \<Rightarrow> bool" where
  "decodable pt = (case pt of (x, y) \<Rightarrow>
     0 \<le> y \<and> y < P_c \<and> (\<exists>r. xrecover y = Inr r \<and> (x = r \<or> x = P_c - r)))"

definition point_bytes :: "point \<Rightarrow> bytes" where
  "point_bytes pt = to_le 32 (encoded pt)"

lemma encode_decodable: "decodable pt \<Longrightarrow> encode_point pt = Inr (point_bytes pt)"
  by (cases pt) (auto simp: decodable_def point_bytes_def intro!: encode_point_eq less_trans [OF _ P_facts(4)])

lemma encoded_split:
  assumes "0 \<le> y" "y < P_c"
  shows "encoded (x, y) < 256 ^ 32" "encoded (x, y) mod 2 ^ 255 = nat y" "odd (encoded (x, y) div 2 ^ 255) = odd x"
proof -
  have y: "nat y < 2 ^ 255" using assms less_trans [OF assms(2) P_facts(4)] by (simp add: nat_less_iff)
  show "encoded (x, y) < 256 ^ 32" using y by (simp add: encoded_def)
  show "encoded (x, y) mod 2 ^ 255 = nat y" using y by (cases "odd x") (simp_all add: encoded_def)
  have "(nat y + 2 ^ 255) div 2 ^ 255 = nat y div 2 ^ 255 + 1" by (rule div_add_self2) simp
  then show "odd (encoded (x, y) div 2 ^ 255) = odd x" using y by (cases "odd x") (simp_all add: encoded_def)
qed

lemma decode_point_bytes:
  assumes "decodable pt"
  shows "decode_point (point_bytes pt) = Inr pt"
proof -
  obtain x y r where pt: "pt = (x, y)" "0 \<le> y" "y < P_c" and r: "xrecover y = Inr r" "x = r \<or> x = P_c - r"
    using assms by (auto simp: decodable_def)
  note e = encoded_split [OF pt(2,3), of x]
  have le: "from_le (to_le 32 (encoded (x, y))) = encoded (x, y)" by (rule from_to_le) (rule e(1))
  note sp = xrecover_spec [OF r(1)]
  have x: "(if odd x then P_c - r else r) = x" "\<not> (x = 0 \<and> odd x)" using sp(1) r(2) by auto
  have "encode_point (x, y) = Inr (to_le 32 (encoded (x, y)))"
    using encode_decodable [OF assms] by (simp add: pt point_bytes_def)
  then show ?thesis
    using pt r(1) x unfolding decode_point_def point_bytes_def pt(1) le Let_def e by simp
qed

lemma decode_point_strict:
  assumes "decode_point raw = Inr pt"
  shows "decodable pt" "point_bytes pt = raw"
proof -
  define y where "y = int (from_le raw mod 2 ^ 255)"
  obtain r where g: "y < P_c" "xrecover y = Inr r"
    using assms unfolding decode_point_def Let_def y_def [symmetric]
    by (auto split: if_splits sum.splits)
  define x where "x = (if odd (from_le raw div 2 ^ 255) then P_c - r else r)"
  have "bindr (encode_point (x, y)) (\<lambda>e. if e \<noteq> raw then Inl (ValueError ''non-canonical'') else Inr (x, y)) = Inr pt"
    using assms g unfolding decode_point_def Let_def y_def [symmetric] g(2) sum.case x_def [symmetric]
    by (simp split: if_splits)
  then have pt: "pt = (x, y)" "encode_point (x, y) = Inr raw" by (auto simp: res_simps split: if_splits)
  show d: "decodable pt" using g by (auto simp: decodable_def pt x_def y_def)
  show "point_bytes pt = raw" using encode_decodable [OF d] pt by simp
qed

interpretation pointc: strict_codec point_bytes decode_point decodable
  by unfold_locales (simp_all add: decode_point_bytes decode_point_strict)

section \<open>Signing\<close>

lemma encode_point_mul: "\<exists>b. encode_point (point_mul s q) = Inr b \<and> length b = 32"
proof -
  obtain x y where m: "point_mul s q = (x, y)" by (cases "point_mul s q")
  then have "0 \<le> y" "y < 2 ^ 255" using point_mul_range [of s q] less_trans [OF _ P_facts(4)] by auto
  then show ?thesis by (simp add: m encode_point_eq)
qed

lemma sign_ok:
  fixes d :: bytes
  assumes "length sk = 32"
  defines "r \<equiv> from_le (sha512 [drop 32 (sha512 [sk]), assertion_message d]) mod nat L_c"
  shows "\<exists>a rb sig. public_from_private sk = Inr a \<and> encode_point (point_mul r B_c) = Inr rb \<and>
    sign sk d = Inr sig \<and> length sig = 64 \<and> take 32 sig = rb \<and> int (from_le (drop 32 sig)) < L_c \<and>
    from_le (drop 32 sig) = (r + from_le (sha512 [rb, a, assertion_message d]) mod nat L_c * clamp (sha512 [sk])) mod nat L_c"
proof -
  obtain a where a: "encode_point (point_mul (clamp (sha512 [sk])) B_c) = Inr a"
    using encode_point_mul by blast
  obtain rb where rb: "encode_point (point_mul r B_c) = Inr rb" "length rb = 32"
    using encode_point_mul by blast
  define so where "so = (r + from_le (sha512 [rb, a, assertion_message d]) mod nat L_c * clamp (sha512 [sk])) mod nat L_c"
  have so: "so < nat L_c" by (simp add: so_def)
  then have "int so < 2 ^ 253" using L_facts(2) by linarith
  then have "so < 256 ^ 32" by simp
  then have "from_le (to_le 32 so) = so" by (rule from_to_le)
  moreover have "sign sk d = Inr (rb @ to_le 32 so)"
    using assms(1) a rb by (simp add: sign_def Let_def r_def [symmetric] so_def [symmetric])
  ultimately show ?thesis
    using rb so a by (simp add: zless_nat_eq_int_zless public_from_private_def so_def [symmetric])
qed

section \<open>The signed zero encoding of the identity\<close>

text \<open>
  \<^verbatim>\<open>decode_point\<close> negates the recovered root before it tests for a zero root with the sign bit
  set, so the test never fires: the bytes \<open>01 00 .. 00 80\<close> decode to \<open>(P, 1)\<close>, which is the identity
  but is not equal to \<^verbatim>\<open>IDENT\<close>.
\<close>

definition signed_zero_key :: bytes where
  "signed_zero_key = to_le 32 (1 + 2 ^ 255)"

lemma xrecover_1: "xrecover 1 = Inr 0"
proof -
  have "0 < nat ((P_c + 3) div 8)" by (simp add: P_c_def)
  then have pw: "powmod 0 (nat ((P_c + 3) div 8)) P_c = 0" by (simp only: powmod_eq power_0_left) simp
  have "1 * 1 mod P_c = 1" by simp
  then show ?thesis
    unfolding xrecover_def Let_def by (simp only: pw diff_self mod_0 mult_zero_left mult_1_left) simp
qed

lemma decode_signed_zero: "decode_point signed_zero_key = Inr (P_c, 1)"
proof -
  have "decodable (P_c, 1)" by (simp add: decodable_def xrecover_1)
  then show ?thesis using decode_point_bytes [of "(P_c, 1)"] by (simp add: point_bytes_def encoded_def signed_zero_key_def)
qed

lemma add_signed_zero: "point_add (0, 1) (P_c, 1) = (0, 1)" "point_add (P_c, 1) (P_c, 1) = (0, 1)" "point_add (0, 1) (0, 1) = (0, 1)"
proof -
  have "(1 + D_c * P_c * P_c) mod P_c = 1" "(1 - D_c * P_c * P_c) mod P_c = 1" "(1 + P_c * P_c) mod P_c = 1"
    by (simp_all add: mod_diff_right_eq [symmetric, of 1 "D_c * P_c * P_c"])
  then show "point_add (0, 1) (P_c, 1) = (0, 1)" "point_add (P_c, 1) (P_c, 1) = (0, 1)" "point_add (0, 1) (0, 1) = (0, 1)"
    by (simp_all add: point_add_def Let_def)
qed

lemma mul_loop_ident: "mul_loop (0, 1) (0, 1) s = (0, 1)"
  by (induction s rule: less_induct) (subst mul_loop.simps, simp add: add_signed_zero)

lemma mul_signed_zero: "point_mul s (P_c, 1) = (0, 1)"
  unfolding point_mul_def by (subst mul_loop.simps) (simp add: add_signed_zero mul_loop_ident)

lemma verify_signed_zero:
  "verify_spp_ed25519_1 signed_zero_key sig d \<longleftrightarrow>
     length sig = 64 \<and> length d = 32 \<and> int (from_le (drop 32 sig)) < L_c \<and>
     (\<exists>r. decode_point (take 32 sig) = Inr r \<and> r \<noteq> IDENT \<and> point_mul (nat L_c) r = IDENT \<and>
        point_mul (from_le (drop 32 sig)) B_c = point_add r IDENT)"
proof -
  have "length signed_zero_key = 32" by (simp add: signed_zero_key_def)
  moreover have "(P_c, 1) \<noteq> IDENT" by (simp add: IDENT_def)
  ultimately show ?thesis
    by (auto simp: verify_spp_ed25519_1_def decode_signed_zero mul_signed_zero is_ident_def Let_def
        IDENT_def [symmetric] split: sum.splits if_splits)
qed

section \<open>Properties\<close>

text \<open>The three-argument power used throughout, computed by squaring, is the power modulo \<open>m\<close>.\<close>
theorem powmod_is_power_mod: "powmod b e m = b ^ e mod m"
  by (rule powmod_eq)





text \<open>C17: the zero root with the sign bit set is not refused: the key \<open>01 00 .. 00 80\<close> decodes to the
  identity without being recognised as such, and a signature under it is judged without regard
  to the message, so one accepted for some digest is accepted for all.\<close>
theorem signed_zero_key_accepts_any_message:
  "decode_point signed_zero_key = Inr (P_c, 1) \<and> \<not> is_ident (P_c, 1) \<and> point_mul (nat L_c) (P_c, 1) = IDENT \<and>
   (verify_spp_ed25519_1 signed_zero_key sig d \<longleftrightarrow>
      length sig = 64 \<and> length d = 32 \<and> int (from_le (drop 32 sig)) < L_c \<and>
      (\<exists>r. decode_point (take 32 sig) = Inr r \<and> r \<noteq> IDENT \<and> point_mul (nat L_c) r = IDENT \<and>
         point_mul (from_le (drop 32 sig)) B_c = point_add r IDENT))"
  using verify_signed_zero [of sig d] decode_signed_zero mul_signed_zero by (simp add: is_ident_def IDENT_def)

end
