(* ===== verification/Protocol.thy ===== *)
theory Protocol
  imports Canonical Ed25519_Spp
begin

text \<open>
  \<^verbatim>\<open>implementations/python/protocol.py\<close>: the assertion schema, the work function, the validator and
  the miner. Every raise of the source is a \<open>raise_if\<close> or an error value, in the source's order.
  \<^verbatim>\<open>math.ceil(jcs_len / 1024)\<close> divides by a power of two, exact for every length below \<open>2^53\<close>; the
  model uses the integer ceiling.
\<close>

section \<open>Constants and patterns\<close>

definition sha256_id_match :: "pystr \<Rightarrow> bool" where
  "sha256_id_match s =
     (take 7 s = lit ''sha256:'' \<and> length s = 71 \<and> list_all is_lower_hex (drop 7 s))"

definition actor_id_match :: "pystr \<Rightarrow> bool" where
  "actor_id_match s =
     (take 8 s = lit ''ed25519:'' \<and> length s = 72 \<and> list_all is_lower_hex (drop 8 s))"

definition sig_match :: "pystr \<Rightarrow> bool" where
  "sig_match s = (length s = 128 \<and> list_all is_lower_hex s)"

definition nonce_match :: "pystr \<Rightarrow> bool" where
  "nonce_match s = (s = lit ''0'' \<or>
     (s \<noteq> [] \<and> hd s \<noteq> ch CHR ''0'' \<and> length s \<le> 20 \<and> list_all is_digit s))"

definition MAX_NONCE :: int where "MAX_NONCE = 2 ^ 64 - 1"
definition MAX_CREATED :: int where "MAX_CREATED = 9007199254740991"
definition MAX_JCS :: nat where "MAX_JCS = 1048576"
definition MAX_LOCATORS :: nat where "MAX_LOCATORS = 256"
definition MAX_LOCATOR_BYTES :: nat where "MAX_LOCATOR_BYTES = 8192"
definition MAX_PARENTS :: nat where "MAX_PARENTS = 1024"
definition UNIT_SCALE :: nat where "UNIT_SCALE = 65536"
definition MAX_H :: nat where "MAX_H = 2 ^ 256 - 1"

definition CORE :: "pystr list" where
  "CORE = map lit [''v'', ''type'', ''actor'', ''created'', ''nonce'', ''channel'', ''ref'', ''parents'',
     ''descriptor'', ''id'', ''sig'', ''ext'']"

section \<open>Raising and subscripting\<close>

definition raise_if :: "bool \<Rightarrow> exn \<Rightarrow> exn + unit" where
  "raise_if b e = (if b then Inl e else Inr ())"

definition getitem :: "obj \<Rightarrow> string \<Rightarrow> exn + pyval" where
  "getitem d k = (case dget d (lit k) of Some v \<Rightarrow> Inr v | None \<Rightarrow> Inl (KeyError (lit k)))"

text \<open>\<^verbatim>\<open>v[k]\<close> and \<^verbatim>\<open>len(v)\<close> for a value of unknown type.\<close>

definition subscript :: "pyval \<Rightarrow> string \<Rightarrow> exn + pyval" where
  "subscript v k = (case v of PDict d \<Rightarrow> getitem d k | _ \<Rightarrow> Inl TypeError)"

definition py_len :: "pyval \<Rightarrow> exn + nat" where
  "py_len v = (case v of PList vs \<Rightarrow> Inr (length vs) | PDict d \<Rightarrow> Inr (length d) | PStr s \<Rightarrow> Inr (length s)
     | _ \<Rightarrow> Inl TypeError)"

abbreviation schema_error :: exn where
  "schema_error \<equiv> SppError ''schema'' ''schema''"

lemma raise_if_eq_Inr [res_simps]: "raise_if b e = Inr u \<longleftrightarrow> \<not> b"
  by (simp add: raise_if_def)

lemma raise_if_eq_Inl: "raise_if b e = Inl e' \<longleftrightarrow> b \<and> e' = e"
  by (auto simp: raise_if_def)

lemma getitem_eq_Inr [res_simps]: "getitem d k = Inr v \<longleftrightarrow> dget d (lit k) = Some v"
  by (simp add: getitem_def split: option.splits)

section \<open>Identity and work\<close>

definition reconstruct_u :: "obj \<Rightarrow> obj" where
  "reconstruct_u d = filter (\<lambda>p. fst p \<noteq> lit ''id'' \<and> fst p \<noteq> lit ''sig'') d"

definition is_int_value :: "pyval \<Rightarrow> bool" where
  "is_int_value v = (case v of PFloat x \<Rightarrow> isfinite x \<and> is_integer x | _ \<Rightarrow> False)"

definition sha256_id_of :: "bytes \<Rightarrow> pystr \<times> bytes" where
  "sha256_id_of jcs = (let d = sha256 jcs in (lit ''sha256:'' @ bytes_hex d, d))"

definition work_units :: "obj \<Rightarrow> nat \<Rightarrow> exn + nat" where
  "work_units u jcs_len =
     bindr (getitem u ''type'') (\<lambda>t.
     bindr
       (if t = PStr (lit ''pointer'') then
          bindr (getitem u ''ref'') (\<lambda>r.
          bindr (subscript r ''locators'') (\<lambda>ls.
          bindr (py_len ls) (\<lambda>loc.
          bindr (case dget u (lit ''parents'') of Some ps \<Rightarrow> py_len ps | None \<Rightarrow> Inr 0) (\<lambda>parents.
            Inr (loc, parents, 0)))))
        else if t = PStr (lit ''channel'') then
          bindr (case dget u (lit ''descriptor'') of
              Some r \<Rightarrow> bindr (subscript r ''locators'') py_len
            | None \<Rightarrow> Inr 0) (\<lambda>loc. Inr (loc, 0, 16))
        else Inl (SppError ''schema'' ''unknown-type''))
       (\<lambda>(loc, parents, extra). Inr (1 + (jcs_len + 1023) div 1024 + loc + parents + extra)))"

definition target_for_units :: "nat \<Rightarrow> nat" where
  "target_for_units units = MAX_H div (units * UNIT_SCALE)"

definition work_ok :: "nat \<Rightarrow> nat \<Rightarrow> bool" where
  "work_ok h units = (h \<le> target_for_units units)"

section \<open>Schema\<close>

definition check_sha256_id :: "pyval \<Rightarrow> exn + unit" where
  "check_sha256_id v =
     raise_if (case v of PStr s \<Rightarrow> \<not> sha256_id_match s | _ \<Rightarrow> True) (SppError ''identifier'' ''identifier'')"

definition check_locator :: "pyval \<Rightarrow> exn + unit" where
  "check_locator loc = (case loc of
       PStr s \<Rightarrow> bindr (utf8_encode s) (\<lambda>b. raise_if (MAX_LOCATOR_BYTES < length b) (SppError ''length'' ''locator-too-long''))
     | _ \<Rightarrow> Inl schema_error)"

definition check_ref :: "pyval \<Rightarrow> exn + unit" where
  "check_ref v = (case v of
       PDict d \<Rightarrow>
         bindr (raise_if (set (map fst d) \<noteq> {lit ''hash'', lit ''locators''}) schema_error) (\<lambda>_.
         bindr (getitem d ''hash'') (\<lambda>h.
         bindr (check_sha256_id h) (\<lambda>_.
         bindr (getitem d ''locators'') (\<lambda>locs. case locs of
             PList ls \<Rightarrow>
               bindr (raise_if (MAX_LOCATORS < length ls) (SppError ''length'' ''too-many-locators'')) (\<lambda>_.
               eachr check_locator ls)
           | _ \<Rightarrow> Inl schema_error))))
     | _ \<Rightarrow> Inl schema_error)"

definition check_pointer :: "obj \<Rightarrow> exn + unit" where
  "check_pointer u =
     bindr (raise_if (dhas u (lit ''descriptor'') \<or> \<not> dhas u (lit ''channel'') \<or> \<not> dhas u (lit ''ref'')) schema_error) (\<lambda>_.
     bindr (bindr (getitem u ''channel'') check_sha256_id) (\<lambda>_.
     bindr (bindr (getitem u ''ref'') check_ref) (\<lambda>_.
     case dget u (lit ''parents'') of
         None \<Rightarrow> Inr ()
       | Some (PList ps) \<Rightarrow>
           bindr (raise_if (MAX_PARENTS < length ps) (SppError ''length'' ''too-many-parents'')) (\<lambda>_.
           eachr check_sha256_id ps)
       | Some _ \<Rightarrow> Inl schema_error)))"

definition check_channel :: "obj \<Rightarrow> exn + unit" where
  "check_channel u =
     bindr (raise_if (list_ex (\<lambda>k. dhas u (lit k)) [''channel'', ''parents'', ''ref'']) schema_error) (\<lambda>_.
     case dget u (lit ''descriptor'') of None \<Rightarrow> Inr () | Some r \<Rightarrow> check_ref r)"

definition check_created :: "pyval \<Rightarrow> exn + unit" where
  "check_created v = (case v of
       PFloat x \<Rightarrow>
         bindr (raise_if (\<not> is_int_value v) (SppError ''created'' ''created'')) (\<lambda>_.
         raise_if (int_of_f64 x < 0 \<or> MAX_CREATED < int_of_f64 x) (SppError ''created'' ''created''))
     | _ \<Rightarrow> Inl (SppError ''created'' ''created''))"

definition check_nonce :: "pyval \<Rightarrow> exn + unit" where
  "check_nonce v = (case v of
       PStr s \<Rightarrow>
         bindr (raise_if (\<not> nonce_match s) (SppError ''nonce'' ''nonce'')) (\<lambda>_.
         raise_if (MAX_NONCE < int (nat_of_digits s)) (SppError ''nonce'' ''nonce''))
     | _ \<Rightarrow> Inl (SppError ''nonce'' ''nonce''))"

definition check_schema :: "obj \<Rightarrow> exn + unit" where
  "check_schema u =
     bindr (raise_if (\<not> list_all (\<lambda>p. fst p \<in> set CORE) u) schema_error) (\<lambda>_.
     bindr (eachr (\<lambda>req. raise_if (\<not> dhas u (lit req)) schema_error)
       [''v'', ''type'', ''actor'', ''created'', ''nonce'']) (\<lambda>_.
     bindr (getitem u ''v'') (\<lambda>v.
     bindr (raise_if (case v of PFloat x \<Rightarrow> \<not> isfinite x | _ \<Rightarrow> True) schema_error) (\<lambda>_.
     bindr (raise_if (v \<noteq> PFloat f64_one) (UnsupportedError ''version'' ''unknown-v'')) (\<lambda>_.
     bindr (getitem u ''type'') (\<lambda>t.
     bindr (raise_if (t \<noteq> PStr (lit ''channel'') \<and> t \<noteq> PStr (lit ''pointer'')) (SppError ''schema'' ''unknown-type'')) (\<lambda>_.
     bindr (getitem u ''actor'') (\<lambda>a.
     bindr (raise_if (case a of PStr s \<Rightarrow> \<not> actor_id_match s | _ \<Rightarrow> True) (SppError ''identifier'' ''identifier'')) (\<lambda>_.
     bindr (bindr (getitem u ''created'') check_created) (\<lambda>_.
     bindr (bindr (getitem u ''nonce'') check_nonce) (\<lambda>_.
     bindr (raise_if (case dget u (lit ''ext'') of None \<Rightarrow> False | Some (PDict _) \<Rightarrow> False | Some _ \<Rightarrow> True) schema_error) (\<lambda>_.
     if t = PStr (lit ''pointer'') then check_pointer u else check_channel u))))))))))))"

section \<open>Validation\<close>

record vinfo =
  vid :: pystr
  vunits :: nat
  vtarget_hex :: pystr
  vjcs :: pystr
  vsig :: pystr
  vdigest_hex :: pystr

text \<open>\<^verbatim>\<open>s.split(":", 1)[1]\<close>\<close>

definition after_colon :: "pystr \<Rightarrow> exn + pystr" where
  "after_colon s = (case dropWhile (\<lambda>c. c \<noteq> ch CHR '':'') s of [] \<Rightarrow> Inl IndexError | _ # r \<Rightarrow> Inr r)"

definition actor_bytes :: "obj \<Rightarrow> exn + bytes" where
  "actor_bytes u = bindr (getitem u ''actor'') (\<lambda>a. case a of
       PStr s \<Rightarrow> bindr (after_colon s) fromhex
     | _ \<Rightarrow> Inl TypeError)"

definition validate_object :: "obj \<Rightarrow> exn + vinfo" where
  "validate_object d =
     bindr (raise_if (case dget d (lit ''v'') of Some (PFloat x) \<Rightarrow> isfinite x \<and> x \<noteq> f64_one | _ \<Rightarrow> False)
       (UnsupportedError ''version'' ''unknown-v'')) (\<lambda>_.
     let u = reconstruct_u d in
     bindr (check_schema u) (\<lambda>_.
     bindr (canonicalize_bytes (PDict u)) (\<lambda>jcs.
     bindr (raise_if (MAX_JCS < length jcs) (SppError ''length'' ''jcs-too-large'')) (\<lambda>_.
     let (ident, digest) = sha256_id_of jcs in
     bindr (case dget d (lit ''id'') of Some (PStr s) \<Rightarrow> Inr s | _ \<Rightarrow> Inl (SppError ''identifier'' ''missing-id'')) (\<lambda>oid.
     bindr (raise_if (oid \<noteq> ident) (SppError ''identity'' ''id-mismatch'')) (\<lambda>_.
     bindr (work_units u (length jcs)) (\<lambda>units.
     let h = from_be digest; tgt = target_for_units units in
     bindr (raise_if (tgt < h) (SppError ''work'' ''insufficient-work'')) (\<lambda>_.
     bindr (case dget d (lit ''sig'') of Some (PStr s) \<Rightarrow> (if sig_match s then Inr s else Inl (SppError ''signature'' ''signature''))
       | _ \<Rightarrow> Inl (SppError ''signature'' ''signature'')) (\<lambda>sg.
     bindr (actor_bytes u) (\<lambda>ab.
     bindr (fromhex sg) (\<lambda>sb.
     bindr (raise_if (\<not> verify_spp_ed25519_1 ab sb digest) (SppError ''signature'' ''signature'')) (\<lambda>_.
     bindr (canonicalize (PDict u)) (\<lambda>txt.
       Inr \<lparr>vid = ident, vunits = units, vtarget_hex = fmt_hex 64 tgt, vjcs = txt, vsig = sg,
         vdigest_hex = bytes_hex digest\<rparr>)))))))))))))"

definition validate_bytes :: "bytes \<Rightarrow> exn + vinfo" where
  "validate_bytes data = (case parse_object data of
       Inl (JsonInputError r) \<Rightarrow> Inl (SppError ''json-input'' r)
     | Inl e \<Rightarrow> Inl e
     | Inr d \<Rightarrow> validate_object d)"

section \<open>Mining\<close>

definition candidate :: "obj \<Rightarrow> int \<Rightarrow> obj" where
  "candidate body nonce =
     (let cand = dset body (lit ''nonce'') (PStr (if 0 < nonce then str_int nonce else lit ''0'')) in
      if nonce = 0 then dset cand (lit ''nonce'') (PStr (lit ''0''))
      else dset cand (lit ''nonce'') (PStr (str_int nonce)))"

function mine_loop :: "obj \<Rightarrow> bytes \<Rightarrow> int \<Rightarrow> exn + obj" where
  "mine_loop body sk nonce =
     (if nonce \<le> MAX_NONCE then
        let cand = candidate body nonce in
        bindr (canonicalize_bytes (PDict cand)) (\<lambda>jcs.
        bindr (raise_if (MAX_JCS < length jcs) (SppError ''length'' ''jcs-too-large'')) (\<lambda>_.
        bindr (work_units cand (length jcs)) (\<lambda>units.
        let (ident, digest) = sha256_id_of jcs; h = from_be digest in
        if h \<le> target_for_units units then
          bindr (sign sk digest) (\<lambda>sg.
            Inr (dset (dset cand (lit ''id'') (PStr ident)) (lit ''sig'') (PStr (bytes_hex sg))))
        else mine_loop body sk (nonce + 1))))
      else Inl (SppError ''work'' ''insufficient-work''))"
  by pat_completeness auto
termination
  by (relation "measure (\<lambda>(body, sk, nonce). nat (MAX_NONCE + 1 - nonce))") auto

declare mine_loop.simps [simp del]

definition mine_and_sign :: "obj \<Rightarrow> bytes \<Rightarrow> int \<Rightarrow> exn + obj" where
  "mine_and_sign u sk start =
     bindr (check_schema (dset u (lit ''nonce'') (case dget u (lit ''nonce'') of Some v \<Rightarrow> v | None \<Rightarrow> PStr (lit ''0'')))) (\<lambda>_.
     mine_loop (filter (\<lambda>p. fst p \<noteq> lit ''nonce'') u) sk start)"

definition parse_any :: "bytes \<Rightarrow> exn + pyval" where
  "parse_any data = parse_utf8 data"

end
