(* ===== verification/Validation.thy ===== *)
theory Validation
  imports Protocol
begin

text \<open>
  What the validator decides. \<open>schema_ok\<close> is the schema as a predicate on the assertion, without
  order of checks and error codes; \<open>check_schema\<close> accepts exactly it. \<open>valid_envelope\<close> is the
  protocol's notion of a valid envelope with the report the validator returns.
\<close>

section \<open>The schema as a predicate\<close>

definition id_ok :: "pyval \<Rightarrow> bool" where
  "id_ok v = (\<exists>s. v = PStr s \<and> sha256_id_match s)"

definition locator_ok :: "pyval \<Rightarrow> bool" where
  "locator_ok v = (\<exists>s. v = PStr s \<and> list_all scalar s \<and> length (utf8_bytes s) \<le> MAX_LOCATOR_BYTES)"

definition ref_ok :: "pyval \<Rightarrow> bool" where
  "ref_ok v = (\<exists>d h ls. v = PDict d \<and> set (map fst d) = {lit ''hash'', lit ''locators''} \<and>
     dget d (lit ''hash'') = Some h \<and> id_ok h \<and> dget d (lit ''locators'') = Some (PList ls) \<and>
     length ls \<le> MAX_LOCATORS \<and> (\<forall>l\<in>set ls. locator_ok l))"

definition created_ok :: "pyval \<Rightarrow> bool" where
  "created_ok v = (\<exists>x. v = PFloat x \<and> isfinite x \<and> is_integer x \<and> 0 \<le> int_of_f64 x \<and> int_of_f64 x \<le> MAX_CREATED)"

definition nonce_ok :: "pyval \<Rightarrow> bool" where
  "nonce_ok v = (\<exists>n. v = PStr (str_nat n) \<and> int n \<le> MAX_NONCE)"

definition head_ok :: "obj \<Rightarrow> bool" where
  "head_ok u = (set (map fst u) \<subseteq> set CORE \<and> dget u (lit ''v'') = Some (PFloat f64_one) \<and>
     (\<exists>s. dget u (lit ''actor'') = Some (PStr s) \<and> actor_id_match s) \<and>
     (\<exists>c. dget u (lit ''created'') = Some c \<and> created_ok c) \<and>
     (\<exists>n. dget u (lit ''nonce'') = Some n \<and> nonce_ok n) \<and>
     (\<forall>x. dget u (lit ''ext'') = Some x \<longrightarrow> (\<exists>d. x = PDict d)))"

definition pointer_ok :: "obj \<Rightarrow> bool" where
  "pointer_ok u = (dget u (lit ''type'') = Some (PStr (lit ''pointer'')) \<and> dget u (lit ''descriptor'') = None \<and>
     (\<exists>c. dget u (lit ''channel'') = Some c \<and> id_ok c) \<and>
     (\<exists>r. dget u (lit ''ref'') = Some r \<and> ref_ok r) \<and>
     (\<forall>x. dget u (lit ''parents'') = Some x \<longrightarrow>
        (\<exists>ps. x = PList ps \<and> length ps \<le> MAX_PARENTS \<and> (\<forall>p\<in>set ps. id_ok p))))"

definition channel_ok :: "obj \<Rightarrow> bool" where
  "channel_ok u = (dget u (lit ''type'') = Some (PStr (lit ''channel'')) \<and> dget u (lit ''channel'') = None \<and>
     dget u (lit ''parents'') = None \<and> dget u (lit ''ref'') = None \<and>
     (\<forall>x. dget u (lit ''descriptor'') = Some x \<longrightarrow> ref_ok x))"

definition schema_ok :: "obj \<Rightarrow> bool" where
  "schema_ok u = (head_ok u \<and> (pointer_ok u \<or> channel_ok u))"

lemma check_sha256_id_iff [res_simps]: "check_sha256_id v = Inr w \<longleftrightarrow> id_ok v"
  by (cases v) (auto simp: check_sha256_id_def res_simps id_ok_def)

lemma check_locator_iff [res_simps]: "check_locator v = Inr w \<longleftrightarrow> locator_ok v"
  by (cases v) (auto simp: check_locator_def res_simps locator_ok_def utf8_encode_def not_less split: if_splits)

lemma check_ref_iff [res_simps]: "check_ref v = Inr w \<longleftrightarrow> ref_ok v"
proof (cases v)
  case (PDict d)
  have "(case l of PList ls \<Rightarrow> bindr (raise_if (MAX_LOCATORS < length ls) e) (\<lambda>_. eachr check_locator ls) | _ \<Rightarrow> Inl e') = Inr w
      \<longleftrightarrow> (\<exists>ls. l = PList ls \<and> length ls \<le> MAX_LOCATORS \<and> (\<forall>l\<in>set ls. locator_ok l))" for l e e'
    by (cases l) (auto simp: res_simps)
  then show ?thesis by (auto simp: PDict check_ref_def res_simps ref_ok_def)
qed (auto simp: check_ref_def ref_ok_def)

lemma check_created_iff [res_simps]: "check_created v = Inr w \<longleftrightarrow> created_ok v"
  by (cases v) (auto simp: check_created_def res_simps created_ok_def is_int_value_def not_less)

lemma nonce_match_iff: "nonce_match s \<and> int (nat_of_digits s) \<le> MAX_NONCE \<longleftrightarrow> (\<exists>n. s = str_nat n \<and> int n \<le> MAX_NONCE)"
proof
  assume a: "nonce_match s \<and> int (nat_of_digits s) \<le> MAX_NONCE"
  then have "s = str_nat (nat_of_digits s)"
  proof (cases "s = lit ''0''")
    case True
    then show ?thesis by (simp add: lit_def nat_of_digits_def hex_val_def)
  next
    case False
    then show ?thesis using a by (intro str_nat_of_digits [symmetric]) (auto simp: nonce_match_def)
  qed
  then show "\<exists>n. s = str_nat n \<and> int n \<le> MAX_NONCE" using a by metis
next
  assume "\<exists>n. s = str_nat n \<and> int n \<le> MAX_NONCE"
  then obtain n where n: "s = str_nat n" "int n \<le> MAX_NONCE" by blast
  have "n < 10 ^ 20" using n(2) by (simp add: MAX_NONCE_def)
  then have "length (str_nat n) \<le> 20" by (rule length_str_nat_le) simp
  then have "nonce_match (str_nat n)"
    using hd_str_nat [of n] str_nat_digits [of n] by (cases "n = 0") (auto simp: nonce_match_def lit_def)
  then show "nonce_match s \<and> int (nat_of_digits s) \<le> MAX_NONCE" using n by simp
qed

lemma check_nonce_iff [res_simps]: "check_nonce v = Inr w \<longleftrightarrow> nonce_ok v"
  using nonce_match_iff by (cases v) (auto simp: check_nonce_def res_simps nonce_ok_def not_less)

lemma check_pointer_iff: "dget u (lit ''type'') = Some (PStr (lit ''pointer'')) \<Longrightarrow> check_pointer u = Inr w \<longleftrightarrow> pointer_ok u"
proof -
  assume t: "dget u (lit ''type'') = Some (PStr (lit ''pointer''))"
  have "(case p of None \<Rightarrow> Inr () | Some (PList ps) \<Rightarrow> bindr (raise_if (MAX_PARENTS < length ps) e) (\<lambda>_. eachr check_sha256_id ps)
       | Some _ \<Rightarrow> Inl e') = Inr w
      \<longleftrightarrow> (\<forall>x. p = Some x \<longrightarrow> (\<exists>ps. x = PList ps \<and> length ps \<le> MAX_PARENTS \<and> (\<forall>p\<in>set ps. id_ok p)))" for p e e'
    by (auto simp: res_simps split: option.splits pyval.splits)
  then show ?thesis
    unfolding check_pointer_def pointer_ok_def by (auto simp: t res_simps dhas_iff_dget)
qed

lemma check_channel_iff: "dget u (lit ''type'') = Some (PStr (lit ''channel'')) \<Longrightarrow> check_channel u = Inr w \<longleftrightarrow> channel_ok u"
  by (auto simp: check_channel_def channel_ok_def res_simps dhas_iff_dget split: option.splits)

lemma isfinite_one [simp]: "isfinite f64_one"
  by (simp add: f64_one_def)

lemma actor_guard: "\<not> (case a of PStr s \<Rightarrow> \<not> actor_id_match s | _ \<Rightarrow> True) \<longleftrightarrow> (\<exists>s. a = PStr s \<and> actor_id_match s)"
  by (cases a) auto

lemma ext_guard:
  "\<not> (case x of None \<Rightarrow> False | Some (PDict _) \<Rightarrow> False | Some _ \<Rightarrow> True) \<longleftrightarrow> (\<forall>v. x = Some v \<longrightarrow> (\<exists>d. v = PDict d))"
  by (auto split: option.splits pyval.splits)

lemma check_schema_steps:
  "check_schema u = Inr w \<longleftrightarrow> head_ok u \<and>
     (\<exists>t. dget u (lit ''type'') = Some t \<and> (t = PStr (lit ''channel'') \<or> t = PStr (lit ''pointer'')) \<and>
        (if t = PStr (lit ''pointer'') then check_pointer u else check_channel u) = Inr w)"
proof -
  have keys: "list_all (\<lambda>p. fst p \<in> set CORE) u \<longleftrightarrow> set (map fst u) \<subseteq> set CORE" by (auto simp: list_all_iff)
  show ?thesis
    unfolding check_schema_def head_ok_def res_simps not_not keys actor_guard ext_guard
    by (auto simp: dhas_iff_dget)
qed

lemma check_schema_iff: "check_schema u = Inr w \<longleftrightarrow> schema_ok u"
proof -
  consider "dget u (lit ''type'') = Some (PStr (lit ''pointer''))" | "dget u (lit ''type'') = Some (PStr (lit ''channel''))"
    | "dget u (lit ''type'') \<noteq> Some (PStr (lit ''pointer''))" "dget u (lit ''type'') \<noteq> Some (PStr (lit ''channel''))" by blast
  then show ?thesis
  proof cases
    case 1
    then show ?thesis by (simp add: check_schema_steps check_pointer_iff schema_ok_def channel_ok_def)
  next
    case 2
    then show ?thesis by (simp add: check_schema_steps check_channel_iff schema_ok_def pointer_ok_def)
  next
    case 3
    then show ?thesis by (auto simp: check_schema_steps schema_ok_def pointer_ok_def channel_ok_def)
  qed
qed

section \<open>Work\<close>

definition locators_of :: "pyval option \<Rightarrow> nat" where
  "locators_of v = (case v of Some (PDict d) \<Rightarrow>
     (case dget d (lit ''locators'') of Some (PList ls) \<Rightarrow> length ls | _ \<Rightarrow> 0) | _ \<Rightarrow> 0)"

definition parents_of :: "pyval option \<Rightarrow> nat" where
  "parents_of v = (case v of Some (PList ps) \<Rightarrow> length ps | _ \<Rightarrow> 0)"

definition units_of :: "obj \<Rightarrow> nat \<Rightarrow> nat" where
  "units_of u n = 1 + (n + 1023) div 1024 +
     (if dget u (lit ''type'') = Some (PStr (lit ''pointer''))
      then locators_of (dget u (lit ''ref'')) + parents_of (dget u (lit ''parents''))
      else locators_of (dget u (lit ''descriptor'')) + 16)"

lemma ref_locators: "ref_ok r \<Longrightarrow> bindr (subscript r ''locators'') py_len = Inr (locators_of (Some r))"
  by (auto simp: ref_ok_def subscript_def getitem_def py_len_def locators_of_def)

lemma work_units_ok: "schema_ok u \<Longrightarrow> work_units u n = Inr (units_of u n)"
proof -
  assume "schema_ok u"
  then consider (p) "pointer_ok u" | (c) "channel_ok u" by (auto simp: schema_ok_def)
  then show ?thesis
  proof cases
    case p
    then obtain r where r: "dget u (lit ''ref'') = Some r" "ref_ok r" by (auto simp: pointer_ok_def)
    obtain ls where ls: "subscript r ''locators'' = Inr ls" "py_len ls = Inr (locators_of (Some r))"
      using ref_locators [OF r(2)] by (auto simp: res_simps)
    have "(case dget u (lit ''parents'') of Some ps \<Rightarrow> py_len ps | None \<Rightarrow> Inr 0) = Inr (parents_of (dget u (lit ''parents'')))"
      using p by (auto simp: pointer_ok_def py_len_def parents_of_def split: option.splits)
    then show ?thesis using p r ls by (simp add: work_units_def units_of_def getitem_def pointer_ok_def)
  next
    case c
    then have "(case dget u (lit ''descriptor'') of Some r \<Rightarrow> bindr (subscript r ''locators'') py_len | None \<Rightarrow> Inr 0) =
        Inr (locators_of (dget u (lit ''descriptor'')))"
      using ref_locators by (auto simp: channel_ok_def locators_of_def split: option.splits)
    then show ?thesis using c by (simp add: work_units_def units_of_def getitem_def channel_ok_def)
  qed
qed

lemma locators_of_le: "ref_ok r \<Longrightarrow> locators_of (Some r) \<le> 256"
  by (auto simp: ref_ok_def locators_of_def MAX_LOCATORS_def)

lemma locators_of_None [simp]: "locators_of None = 0"
  by (simp add: locators_of_def)

lemma units_of_bounds:
  assumes "schema_ok u" "0 < n" "n \<le> MAX_JCS"
  shows "2 \<le> units_of u n \<and> units_of u n \<le> 2305"
proof -
  define q where "q = (n + 1023) div 1024"
  have q: "1 \<le> q" "q \<le> 1024" using assms(2,3) by (simp_all add: q_def MAX_JCS_def)
  consider (p) "pointer_ok u" | (c) "channel_ok u" using assms(1) by (auto simp: schema_ok_def)
  then show ?thesis
  proof cases
    case p
    then have t: "dget u (lit ''type'') = Some (PStr (lit ''pointer''))" by (simp add: pointer_ok_def)
    have "parents_of (dget u (lit ''parents'')) \<le> 1024"
      using p by (cases "dget u (lit ''parents'')") (auto simp: pointer_ok_def parents_of_def MAX_PARENTS_def)
    moreover have "locators_of (dget u (lit ''ref'')) \<le> 256" using p locators_of_le by (auto simp: pointer_ok_def)
    ultimately show ?thesis using q by (simp add: units_of_def q_def [symmetric] t)
  next
    case c
    then have t: "dget u (lit ''type'') = Some (PStr (lit ''channel''))" by (simp add: channel_ok_def)
    have "locators_of (dget u (lit ''descriptor'')) \<le> 256"
      using c locators_of_le by (cases "dget u (lit ''descriptor'')") (auto simp: channel_ok_def)
    then show ?thesis using q by (simp add: units_of_def q_def [symmetric] t)
  qed
qed

lemma work_ok_iff: "0 < units \<Longrightarrow> work_ok h units \<longleftrightarrow> h * (units * 65536) \<le> MAX_H"
  by (simp add: work_ok_def target_for_units_def UNIT_SCALE_def less_eq_div_iff_mult_less_eq)

lemma target_antimono: "0 < m \<Longrightarrow> m \<le> n \<Longrightarrow> target_for_units n \<le> target_for_units m"
  by (simp add: target_for_units_def UNIT_SCALE_def div_le_mono2)

section \<open>Valid envelopes\<close>

definition assertion_id :: "bytes \<Rightarrow> pystr" where
  "assertion_id jcs = lit ''sha256:'' @ bytes_hex (sha256 jcs)"

definition valid_envelope :: "obj \<Rightarrow> vinfo \<Rightarrow> bool" where
  "valid_envelope d info = (\<exists>jt jcs ab sb.
     schema_ok (reconstruct_u d) \<and>
     canonicalize (PDict (reconstruct_u d)) = Inr jt \<and> utf8_encode jt = Inr jcs \<and> length jcs \<le> MAX_JCS \<and>
     dget d (lit ''id'') = Some (PStr (assertion_id jcs)) \<and>
     from_be (sha256 jcs) * (units_of (reconstruct_u d) (length jcs) * 65536) \<le> MAX_H \<and>
     dget d (lit ''sig'') = Some (PStr (bytes_hex sb)) \<and> length sb = 64 \<and>
     dget d (lit ''actor'') = Some (PStr (lit ''ed25519:'' @ bytes_hex ab)) \<and> length ab = 32 \<and>
     verify_spp_ed25519_1 ab sb (sha256 jcs) \<and>
     info = \<lparr>vid = assertion_id jcs, vunits = units_of (reconstruct_u d) (length jcs),
       vtarget_hex = fmt_hex 64 (MAX_H div (units_of (reconstruct_u d) (length jcs) * 65536)),
       vjcs = jt, vsig = bytes_hex sb, vdigest_hex = bytes_hex (sha256 jcs)\<rparr>)"

lemma dget_reconstruct: "dget (reconstruct_u d) k = (if k \<noteq> lit ''id'' \<and> k \<noteq> lit ''sig'' then dget d k else None)"
  unfolding reconstruct_u_def by (rule dget_filter_key)

lemma actor_match_iff: "actor_id_match s \<longleftrightarrow> (\<exists>ab. s = lit ''ed25519:'' @ bytes_hex ab \<and> length ab = 32)"
proof
  assume m: "actor_id_match s"
  then have "length (drop 8 s) = 64" "list_all is_lower_hex (drop 8 s)" by (simp_all add: actor_id_match_def)
  then obtain ab where "bytes_hex ab = drop 8 s" "length ab = 32" using fromhex_lower [of "drop 8 s"] by auto
  then show "\<exists>ab. s = lit ''ed25519:'' @ bytes_hex ab \<and> length ab = 32"
    using m append_take_drop_id [of 8 s] by (metis actor_id_match_def)
qed (auto simp: actor_id_match_def bytes_hex_lower)

lemma sig_match_iff: "sig_match s \<longleftrightarrow> (\<exists>sb. s = bytes_hex sb \<and> length sb = 64)"
proof
  assume "sig_match s"
  then have m: "length s = 128" "list_all is_lower_hex s" by (simp_all add: sig_match_def)
  then obtain sb where "bytes_hex sb = s" "2 * length sb = length s" using fromhex_lower [of s] by auto
  then show "\<exists>sb. s = bytes_hex sb \<and> length sb = 64" using m by (intro exI [of _ sb]) auto
qed (auto simp: sig_match_def bytes_hex_lower)

lemma after_colon_id: "after_colon (lit ''sha256:'' @ hex) = Inr hex"
  by (simp add: after_colon_def lit_def)

lemma after_colon_actor: "after_colon (lit ''ed25519:'' @ s) = Inr s"
  by (simp add: after_colon_def lit_def)

lemma actor_bytes_ok: "dget u (lit ''actor'') = Some (PStr (lit ''ed25519:'' @ bytes_hex ab)) \<Longrightarrow> actor_bytes u = Inr ab"
  by (simp add: actor_bytes_def getitem_def after_colon_actor)

lemma schema_actor: "schema_ok u \<Longrightarrow> \<exists>ab. dget u (lit ''actor'') = Some (PStr (lit ''ed25519:'' @ bytes_hex ab)) \<and> length ab = 32"
  by (auto simp: schema_ok_def head_ok_def actor_match_iff)

lemma canonicalize_bytes_iff:
  "canonicalize_bytes v = Inr b \<longleftrightarrow> (\<exists>t. canonicalize v = Inr t \<and> utf8_encode t = Inr b)"
  by (simp add: canonicalize_bytes_def res_simps)

lemma units_pos [simp]: "0 < units_of u n"
  by (simp add: units_of_def)

lemma get_id_iff [res_simps]:
  "(case x of Some (PStr s) \<Rightarrow> Inr s | _ \<Rightarrow> Inl e) = Inr s' \<longleftrightarrow> x = Some (PStr s')"
  by (auto split: option.splits pyval.splits)

lemma get_sig_iff [res_simps]:
  "(case x of Some (PStr s) \<Rightarrow> (if sig_match s then Inr s else Inl e) | _ \<Rightarrow> Inl e) = Inr s' \<longleftrightarrow>
     x = Some (PStr s') \<and> sig_match s'"
  by (auto split: option.splits pyval.splits)

lemma validate_sound:
  assumes v: "validate_object d = Inr info"
  shows "valid_envelope d info"
proof -
  obtain jcs oid units sg ab sb jt where
    sch: "schema_ok (reconstruct_u d)" and
    cb: "canonicalize_bytes (PDict (reconstruct_u d)) = Inr jcs" "length jcs \<le> MAX_JCS" and
    oid: "dget d (lit ''id'') = Some (PStr oid)" "oid = assertion_id jcs" and
    un: "work_units (reconstruct_u d) (length jcs) = Inr units" "work_ok (from_be (sha256 jcs)) units" and
    sg: "dget d (lit ''sig'') = Some (PStr sg)" "sig_match sg" and
    ab: "actor_bytes (reconstruct_u d) = Inr ab" and sb: "fromhex sg = Inr sb" and
    ver: "verify_spp_ed25519_1 ab sb (sha256 jcs)" and jt: "canonicalize (PDict (reconstruct_u d)) = Inr jt" and
    info: "info = \<lparr>vid = assertion_id jcs, vunits = units, vtarget_hex = fmt_hex 64 (target_for_units units),
       vjcs = jt, vsig = sg, vdigest_hex = bytes_hex (sha256 jcs)\<rparr>"
    using v unfolding validate_object_def Let_def sha256_id_of_def prod.case res_simps check_schema_iff
    by (auto simp: assertion_id_def [symmetric] work_ok_def not_less)
  obtain a where a: "dget d (lit ''actor'') = Some (PStr (lit ''ed25519:'' @ bytes_hex a))" "length a = 32"
    using schema_actor [OF sch] by (auto simp: dget_reconstruct)
  then have "ab = a" using actor_bytes_ok [of "reconstruct_u d" a] ab by (simp add: dget_reconstruct)
  moreover obtain b where b: "sg = bytes_hex b" "length b = 64" using sg(2) sig_match_iff by blast
  moreover have "b = sb" using sb b by simp
  moreover have "units = units_of (reconstruct_u d) (length jcs)" using un(1) work_units_ok [OF sch] by simp
  moreover have "utf8_encode jt = Inr jcs" using cb(1) jt by (simp add: canonicalize_bytes_iff)
  ultimately show ?thesis
    unfolding valid_envelope_def using sch jt cb oid sg a ver un(2) info
    by (intro exI [of _ jt] exI [of _ jcs] exI [of _ a] exI [of _ b])
      (simp add: work_ok_iff target_for_units_def UNIT_SCALE_def)
qed

lemma validate_complete:
  assumes "valid_envelope d info"
  shows "validate_object d = Inr info"
proof -
  obtain jt jcs ab sb where
    sch: "schema_ok (reconstruct_u d)" and
    cb: "canonicalize (PDict (reconstruct_u d)) = Inr jt" "utf8_encode jt = Inr jcs" "length jcs \<le> MAX_JCS" and
    oid: "dget d (lit ''id'') = Some (PStr (assertion_id jcs))" and
    un: "from_be (sha256 jcs) * (units_of (reconstruct_u d) (length jcs) * 65536) \<le> MAX_H" and
    sg: "dget d (lit ''sig'') = Some (PStr (bytes_hex sb))" "length sb = 64" and
    ab: "dget d (lit ''actor'') = Some (PStr (lit ''ed25519:'' @ bytes_hex ab))" and
    ver: "verify_spp_ed25519_1 ab sb (sha256 jcs)" and
    info: "info = \<lparr>vid = assertion_id jcs, vunits = units_of (reconstruct_u d) (length jcs),
       vtarget_hex = fmt_hex 64 (MAX_H div (units_of (reconstruct_u d) (length jcs) * 65536)),
       vjcs = jt, vsig = bytes_hex sb, vdigest_hex = bytes_hex (sha256 jcs)\<rparr>"
    using assms unfolding valid_envelope_def by blast
  have "dget d (lit ''v'') = Some (PFloat f64_one)"
    using sch by (simp add: schema_ok_def head_ok_def dget_reconstruct)
  moreover have "check_schema (reconstruct_u d) = Inr ()" using sch by (simp add: check_schema_iff)
  moreover have "canonicalize_bytes (PDict (reconstruct_u d)) = Inr jcs" using cb by (simp add: canonicalize_bytes_iff)
  moreover have "from_be (sha256 jcs) \<le> target_for_units (units_of (reconstruct_u d) (length jcs))"
    using un work_ok_iff [of "units_of (reconstruct_u d) (length jcs)" "from_be (sha256 jcs)"] by (simp add: work_ok_def)
  moreover have "sig_match (bytes_hex sb)" using sg(2) by (auto simp: sig_match_iff)
  moreover have "actor_bytes (reconstruct_u d) = Inr ab" using ab by (intro actor_bytes_ok) (simp add: dget_reconstruct)
  ultimately show ?thesis
    using cb(1,3) oid sg(1) ver info work_units_ok [OF sch]
    by (simp add: validate_object_def Let_def sha256_id_of_def raise_if_def assertion_id_def target_for_units_def UNIT_SCALE_def)
qed

lemma validate_iff: "validate_object d = Inr info \<longleftrightarrow> valid_envelope d info"
  using validate_sound validate_complete by blast

section \<open>Refusals are protocol errors\<close>

definition spp_error :: "exn \<Rightarrow> bool" where
  "spp_error e = ((\<exists>st r. e = SppError st r) \<or> e = UnsupportedError ''version'' ''unknown-v'')"

definition spp_only :: "exn + 'a \<Rightarrow> bool" where
  "spp_only m = (\<forall>e. m = Inl e \<longrightarrow> spp_error e)"

lemma spp_only_simps [simp]:
  "spp_only (Inr x)" "spp_only (Inl (SppError st r))" "spp_only (Inl (UnsupportedError ''version'' ''unknown-v''))"
  "spp_only (raise_if b (SppError st r))" "spp_only (raise_if b (UnsupportedError ''version'' ''unknown-v''))"
  by (auto simp: spp_only_def spp_error_def raise_if_def)

lemma spp_only_bindr: "spp_only m \<Longrightarrow> (\<And>x. m = Inr x \<Longrightarrow> spp_only (f x)) \<Longrightarrow> spp_only (bindr m f)"
  by (cases m) (auto simp: spp_only_def)

lemma spp_only_eachr: "(\<And>x. x \<in> set xs \<Longrightarrow> spp_only (f x)) \<Longrightarrow> spp_only (eachr f xs)"
  by (induction xs) (auto intro: spp_only_bindr)

lemma spp_only_getitem: "dhas d (lit k) \<Longrightarrow> spp_only (getitem d k)"
  by (auto simp: getitem_def dhas_iff_dget)

lemma spp_only_id: "spp_only (check_sha256_id v)"
  by (simp add: check_sha256_id_def)

lemma spp_only_created: "spp_only (check_created v)"
  by (cases v) (auto simp: check_created_def intro!: spp_only_bindr)

lemma spp_only_nonce: "spp_only (check_nonce v)"
  by (cases v) (auto simp: check_nonce_def intro!: spp_only_bindr)

lemma spp_only_locator: "json_val v \<Longrightarrow> spp_only (check_locator v)"
  by (cases v) (auto simp: check_locator_def utf8_encode_def str_ok_scalar intro!: spp_only_bindr)

lemma json_val_dget: "json_val (PDict d) \<Longrightarrow> dget d k = Some v \<Longrightarrow> json_val v"
  by (auto simp: list_all_iff dest!: map_of_SomeD)

lemma spp_only_ref: "json_val v \<Longrightarrow> spp_only (check_ref v)"
proof (cases v)
  case (PDict d)
  assume j: "json_val v"
  have ls: "spp_only (case l of PList ls \<Rightarrow> bindr (raise_if (MAX_LOCATORS < length ls) (SppError st r)) (\<lambda>_. eachr check_locator ls) | _ \<Rightarrow> Inl schema_error)"
    if "json_val l" for l st r
    using that by (cases l) (auto simp: list_all_iff intro!: spp_only_bindr spp_only_eachr spp_only_locator)
  show ?thesis
    unfolding check_ref_def PDict pyval.case
    using j PDict
    by (intro spp_only_bindr spp_only_getitem spp_only_id ls)
      (auto simp: res_simps dhas_def intro: json_val_dget simp del: json_val.simps)
qed (simp_all add: check_ref_def)

lemma spp_only_pointer: "json_val (PDict u) \<Longrightarrow> spp_only (check_pointer u)"
proof -
  assume j: "json_val (PDict u)"
  have ps: "spp_only (case x of None \<Rightarrow> Inr () | Some (PList ps) \<Rightarrow>
       bindr (raise_if (MAX_PARENTS < length ps) (SppError st r)) (\<lambda>_. eachr check_sha256_id ps) | Some _ \<Rightarrow> Inl schema_error)" for x st r
    by (auto split: option.splits pyval.splits intro!: spp_only_bindr spp_only_eachr spp_only_id)
  show ?thesis
    unfolding check_pointer_def
    by (intro spp_only_bindr spp_only_getitem spp_only_id spp_only_ref ps)
      (auto simp: res_simps intro: json_val_dget [OF j] simp del: json_val.simps)
qed

lemma spp_only_channel: "json_val (PDict u) \<Longrightarrow> spp_only (check_channel u)"
  by (auto simp: check_channel_def simp del: json_val.simps split: option.splits
      intro!: spp_only_bindr spp_only_ref dest: json_val_dget)

lemma spp_only_schema: "json_val (PDict u) \<Longrightarrow> spp_only (check_schema u)"
  unfolding check_schema_def
  by (intro spp_only_bindr spp_only_eachr spp_only_getitem spp_only_created spp_only_nonce)
    (auto simp: res_simps spp_only_pointer spp_only_channel simp del: json_val.simps)

lemma json_val_reconstruct: "json_val (PDict d) \<Longrightarrow> json_val (PDict (reconstruct_u d))"
  by (auto simp: reconstruct_u_def list_all_iff distinct_map_filter)

lemma spp_only_canonical: "json_val v \<Longrightarrow> spp_only (canonicalize_bytes v)" "json_val v \<Longrightarrow> spp_only (canonicalize v)"
  by (erule canonicalize_total, simp)+

lemma spp_only_validate: "json_val (PDict d) \<Longrightarrow> spp_only (validate_object d)"
proof -
  assume j: "json_val (PDict d)"
  let ?u = "reconstruct_u d"
  note ju = json_val_reconstruct [OF j]
  have un: "spp_only (work_units ?u n)" if "check_schema ?u = Inr x" for n x
    using that work_units_ok by (simp add: check_schema_iff)
  have ab: "spp_only (actor_bytes ?u)" if "check_schema ?u = Inr x" for x
    using that schema_actor [of ?u] actor_bytes_ok [of ?u] by (auto simp: check_schema_iff)
  have fh: "spp_only (fromhex s)" if "sig_match s" for s
    using that by (auto simp: sig_match_iff)
  have cases: "spp_only (case x of Some (PStr s) \<Rightarrow> (if P s then Inr s else Inl (SppError st r)) | _ \<Rightarrow> Inl (SppError st r))"
    "spp_only (case x of Some (PStr s) \<Rightarrow> Inr s | _ \<Rightarrow> Inl (SppError st r))" for x P st r
    by (auto split: option.splits pyval.splits)
  show ?thesis
    unfolding validate_object_def Let_def sha256_id_of_def prod.case
    by (intro spp_only_bindr spp_only_schema spp_only_canonical ju cases)
      (auto simp: res_simps intro: un ab fh simp del: json_val.simps)
qed

lemma parse_object_iff: "parse_object data = Inr d \<longleftrightarrow> parse_utf8 data = Inr (PDict d)"
  by (cases "parse_utf8 data") (auto simp: parse_object_def split: pyval.splits)

lemma parse_object_json: "parse_object data = Inr d \<Longrightarrow> json_val (PDict d)"
  using parse_utf8_json parse_object_iff by blast

lemma spp_only_validate_bytes: "spp_only (validate_bytes data)"
proof (cases "parse_object data")
  case (Inl e)
  then obtain r where "e = JsonInputError r" using parse_object_error by blast
  then show ?thesis using Inl by (simp add: validate_bytes_def)
next
  case (Inr d)
  then show ?thesis using spp_only_validate [OF parse_object_json [OF Inr]] by (simp add: validate_bytes_def)
qed

section \<open>A sample assertion\<close>

definition sample_channel :: obj where
  "sample_channel = [(lit ''v'', PFloat f64_one), (lit ''type'', PStr (lit ''channel'')),
     (lit ''actor'', PStr (lit ''ed25519:'' @ replicate 64 48)), (lit ''created'', PFloat (FFin False 0 (- 1074))),
     (lit ''nonce'', PStr (lit ''0''))]"

lemma sample_channel_json: "json_val (PDict sample_channel)"
  by (simp add: sample_channel_def num_ok_def f64_one_def lit_def ascii_char_ok list_all_iff)

lemma sample_channel_schema: "schema_ok sample_channel"
proof -
  have "actor_id_match (lit ''ed25519:'' @ replicate 64 48)"
    by (simp add: actor_id_match_def is_lower_hex_def is_digit_def list_all_iff)
  moreover have "created_ok (PFloat (FFin False 0 (- 1074)))" by (simp add: created_ok_def num2_def den2_def MAX_CREATED_def)
  moreover have "nonce_ok (PStr (lit ''0''))"
    unfolding nonce_ok_def by (intro exI [of _ 0]) (simp add: lit_def MAX_NONCE_def)
  ultimately show ?thesis
    by (simp add: schema_ok_def head_ok_def channel_ok_def sample_channel_def CORE_def)
qed

section \<open>Properties\<close>

text \<open>C8: the validator accepts an envelope exactly when it is valid: the assertion without \<open>id\<close> and
  \<open>sig\<close> satisfies the schema, its canonical bytes are at most 1 MiB, \<open>id\<close> is their SHA-256, the digest
  meets the work target of the assertion's units, and \<open>sig\<close> verifies under the actor's key; the
  report it returns is determined by these.\<close>
theorem validator_accepts_exactly_valid: "validate_object d = Inr info \<longleftrightarrow> valid_envelope d info"
  by (rule validate_iff)

text \<open>C10: the schema check, with its fixed order of tests and error codes, accepts exactly the assertions
  that satisfy the schema stated as a predicate: known members only, version 1, actor, created
  and nonce in range, and the shape of a pointer or of a channel.\<close>
theorem check_schema_exact: "check_schema u = Inr () \<longleftrightarrow> schema_ok u"
  by (rule check_schema_iff)

text \<open>C9: on every byte string the validator either reports a valid envelope or refuses with a protocol
  error; no other exception escapes it.\<close>
theorem validate_bytes_total:
  "case validate_bytes data of
       Inr info \<Rightarrow> (\<exists>d. parse_object data = Inr d \<and> valid_envelope d info)
     | Inl e \<Rightarrow> (\<exists>st r. e = SppError st r) \<or> e = UnsupportedError ''version'' ''unknown-v''"
proof (cases "validate_bytes data")
  case (Inl e)
  then show ?thesis using spp_only_validate_bytes [of data] by (simp add: spp_only_def spp_error_def)
next
  case (Inr info)
  then obtain d where "parse_object data = Inr d" "validate_object d = Inr info"
    by (auto simp: validate_bytes_def split: sum.splits exn.splits)
  then show ?thesis using Inr by (simp add: validate_iff)
qed



end
