(* ===== verification/Revalidation.thy ===== *)
theory Revalidation
  imports Validation
begin

text \<open>
  Re-serialising an envelope canonically changes no verdict: the validator's result depends on
  the members of the envelope as a dictionary, not on the order or spelling of its JSON text. The
  relay stores canonical bytes, so what it serves is judged exactly as what it received.
\<close>

definition norm_obj :: "obj \<Rightarrow> obj" where
  "norm_obj d = map (\<lambda>p. (fst p, norm (snd p))) (sorted_obj d)"

lemma norm_PDict: "norm (PDict d) = PDict (norm_obj d)"
  by (simp add: norm_obj_def)

lemma map_of_sort: "distinct (map fst d) \<Longrightarrow> map_of (sort_key f d) = map_of d"
  by (intro map_of_inject_set [THEN iffD2]) (simp_all add: distinct_map_fst_sort)

lemma map_of_norm: "map_of (map (\<lambda>p. (fst p, g (snd p))) d) k = map_option g (map_of d k)"
  by (induction d) auto

lemma dget_norm_obj: "wf_dict d \<Longrightarrow> dget (norm_obj d) k = map_option norm (dget d k)"
  by (simp add: norm_obj_def map_of_norm map_of_sort wf_dict_def)

lemma keys_norm_obj: "fst ` set (norm_obj d) = fst ` set d"
  by (simp add: norm_obj_def image_image)

lemma dhas_norm_obj [simp]: "dhas (norm_obj d) k = dhas d k"
  using keys_norm_obj [of d] by (simp add: dhas_def)

lemma norm_eq_simps [simp]: "norm v = PStr s \<longleftrightarrow> v = PStr s" "norm v = PFloat x \<longleftrightarrow> v = PFloat x"
  by (cases v; simp)+

lemma getitem_norm: "wf_dict d \<Longrightarrow> getitem (norm_obj d) k = bindr (getitem d k) (\<lambda>v. Inr (norm v))"
  by (simp add: getitem_def dget_norm_obj split: option.splits)

lemma case_norm:
  "(case norm v of PStr s \<Rightarrow> f s | _ \<Rightarrow> z) = (case v of PStr s \<Rightarrow> f s | _ \<Rightarrow> z)"
  "(case norm v of PFloat x \<Rightarrow> g x | _ \<Rightarrow> z) = (case v of PFloat x \<Rightarrow> g x | _ \<Rightarrow> z)"
  by (cases v; simp)+

lemma check_sha256_id_norm [simp]: "check_sha256_id (norm v) = check_sha256_id v"
  by (simp add: check_sha256_id_def case_norm)

lemma check_locator_norm [simp]: "check_locator (norm v) = check_locator v"
  by (simp add: check_locator_def case_norm)

lemma eachr_map: "eachr f (map g xs) = eachr (\<lambda>x. f (g x)) xs"
  by (induction xs) simp_all

lemma case_norm_list:
  "(case norm v of PList ls \<Rightarrow> f ls | _ \<Rightarrow> z) = (case v of PList ls \<Rightarrow> f (map norm ls) | _ \<Rightarrow> z)"
  by (cases v) simp_all

lemma check_ref_norm [simp]: "json_val v \<Longrightarrow> check_ref (norm v) = check_ref v"
proof (cases v)
  case (PDict d)
  assume "json_val v"
  then have wf: "wf_dict d" by (simp add: PDict wf_dict_def)
  show ?thesis
    unfolding PDict norm_PDict check_ref_def pyval.case
    by (simp add: getitem_norm [OF wf] bindr_assoc keys_norm_obj case_norm_list eachr_map)
qed (simp_all add: check_ref_def)

lemma check_nested_norm [simp]:
  "check_created (norm v) = check_created v" "check_nonce (norm v) = check_nonce v"
  by (cases v; simp add: check_created_def check_nonce_def is_int_value_def)+

lemma bindr_cong_json:
  "json_val (PDict u) \<Longrightarrow> (\<And>v. json_val v \<Longrightarrow> f v = g v) \<Longrightarrow> bindr (getitem u k) f = bindr (getitem u k) g"
  by (rule bindr_cong) (auto simp: getitem_eq_Inr simp del: json_val.simps dest: json_val_dget)

lemma check_pointer_norm:
  assumes j: "json_val (PDict u)"
  shows "check_pointer (norm_obj u) = check_pointer u"
proof -
  have wf: "wf_dict u" using j by (simp add: wf_dict_def)
  have ref: "bindr (getitem u ''ref'') (\<lambda>v. check_ref (norm v)) = bindr (getitem u ''ref'') check_ref"
    by (rule bindr_cong_json [OF j]) simp
  have ps: "(case map_option norm x of None \<Rightarrow> z | Some (PList ps) \<Rightarrow> f (length ps) (eachr check_sha256_id ps) | Some _ \<Rightarrow> e) =
      (case x of None \<Rightarrow> z | Some (PList ps) \<Rightarrow> f (length ps) (eachr check_sha256_id ps) | Some _ \<Rightarrow> e)" for x z e and f :: "nat \<Rightarrow> exn + unit \<Rightarrow> exn + unit"
    by (simp add: eachr_map split: option.splits pyval.splits)
  show ?thesis
    unfolding check_pointer_def
    using ps [where x = "dget u (lit ''parents'')" and f = "\<lambda>n m. bindr (raise_if (MAX_PARENTS < n) (SppError ''length'' ''too-many-parents'')) (\<lambda>_. m)" and z = "Inr ()" and e = "Inl schema_error"]
    by (simp add: getitem_norm [OF wf] dget_norm_obj [OF wf] bindr_assoc ref)
qed

lemma check_channel_norm:
  assumes j: "json_val (PDict u)"
  shows "check_channel (norm_obj u) = check_channel u"
proof -
  have wf: "wf_dict u" using j by (simp add: wf_dict_def)
  have "(case map_option norm x of None \<Rightarrow> Inr () | Some r \<Rightarrow> check_ref r) = (case x of None \<Rightarrow> Inr () | Some r \<Rightarrow> check_ref r)"
    if "x = dget u k" for x k
    using that json_val_dget [OF j] by (auto split: option.splits)
  then show ?thesis unfolding check_channel_def by (simp add: dget_norm_obj [OF wf])
qed

lemma check_schema_norm:
  assumes j: "json_val (PDict u)"
  shows "check_schema (norm_obj u) = check_schema u"
proof -
  have wf: "wf_dict u" using j by (simp add: wf_dict_def)
  have keys: "list_all (\<lambda>p. fst p \<in> K) (norm_obj u) = list_all (\<lambda>p. fst p \<in> K) u" for K
  proof -
    have "list_all (\<lambda>p. fst p \<in> K) xs \<longleftrightarrow> fst ` set xs \<subseteq> K" for xs :: obj by (auto simp: list_all_iff)
    then show ?thesis by (simp add: keys_norm_obj)
  qed
  have ext: "(case map_option norm x of None \<Rightarrow> False | Some (PDict _) \<Rightarrow> False | Some _ \<Rightarrow> True) =
      (case x of None \<Rightarrow> False | Some (PDict _) \<Rightarrow> False | Some _ \<Rightarrow> True)" for x
    by (simp split: option.splits pyval.splits)
  show ?thesis
    unfolding check_schema_def
    by (simp only: getitem_norm [OF wf] dget_norm_obj [OF wf] keys ext bindr_assoc bindr_simps case_norm norm_eq_simps
        dhas_norm_obj check_nested_norm check_pointer_norm [OF j] check_channel_norm [OF j])
qed

section \<open>The assertion of a normalised envelope\<close>

lemma reconstruct_norm: "reconstruct_u (norm_obj d) = norm_obj (reconstruct_u d)"
  by (simp add: reconstruct_u_def norm_obj_def filter_map o_def filter_sort)

lemma canonicalize_norm_obj: "json_val (PDict u) \<Longrightarrow> canonicalize (PDict (norm_obj u)) = canonicalize (PDict u)"
  using jcs_ref_norm [of "PDict u"] unfolding norm_PDict by (simp add: canonicalize_eq_ref del: jcs_ref.simps json_val.simps)

lemma subscript_norm: "json_val v \<Longrightarrow> subscript (norm v) k = bindr (subscript v k) (\<lambda>x. Inr (norm x))"
  by (cases v) (simp_all add: subscript_def norm_PDict getitem_norm wf_dict_def del: norm.simps(2))

lemma py_len_norm [simp]: "py_len (norm v) = py_len v"
  by (cases v) (simp_all add: py_len_def)

lemma work_units_norm:
  assumes j: "json_val (PDict u)"
  shows "work_units (norm_obj u) n = work_units u n"
proof -
  have wf: "wf_dict u" using j by (simp add: wf_dict_def)
  have len: "bindr (subscript (norm v) k) (\<lambda>l. bindr (py_len l) f) = bindr (subscript v k) (\<lambda>l. bindr (py_len l) f)"
    if "dget u x = Some v" for v k x and f :: "nat \<Rightarrow> exn + 'c"
    using json_val_dget [OF j that] by (simp add: subscript_norm bindr_assoc)
  have len1: "bindr (subscript (norm v) k) py_len = bindr (subscript v k) py_len" if "dget u x = Some v" for v k x
    using json_val_dget [OF j that] by (simp add: subscript_norm bindr_assoc)
  show ?thesis
    unfolding work_units_def getitem_def dget_norm_obj [OF wf]
    by (cases "dget u (lit ''type'')"; cases "dget u (lit ''ref'')"; cases "dget u (lit ''parents'')"; cases "dget u (lit ''descriptor'')")
      (simp_all add: len len1)
qed

lemma get_norm:
  "(case map_option norm x of Some (PStr s) \<Rightarrow> f s | _ \<Rightarrow> e) = (case x of Some (PStr s) \<Rightarrow> f s | _ \<Rightarrow> e)"
  "(case map_option norm x of Some (PFloat y) \<Rightarrow> g y | _ \<Rightarrow> e) = (case x of Some (PFloat y) \<Rightarrow> g y | _ \<Rightarrow> e)"
  by (simp_all split: option.splits pyval.splits)

lemma actor_bytes_norm: "json_val (PDict u) \<Longrightarrow> actor_bytes (norm_obj u) = actor_bytes u"
  by (simp add: actor_bytes_def getitem_norm wf_dict_def bindr_assoc case_norm)

lemma validate_norm:
  assumes j: "json_val (PDict d)"
  shows "validate_object (norm_obj d) = validate_object d"
proof -
  have wf: "wf_dict d" using j by (simp add: wf_dict_def)
  note ju = json_val_reconstruct [OF j]
  have cb: "canonicalize_bytes (PDict (norm_obj (reconstruct_u d))) = canonicalize_bytes (PDict (reconstruct_u d))"
    by (simp add: canonicalize_bytes_def canonicalize_norm_obj [OF ju])
  show ?thesis
    unfolding validate_object_def Let_def
    by (simp only: dget_norm_obj [OF wf] get_norm reconstruct_norm check_schema_norm [OF ju] canonicalize_norm_obj [OF ju]
        cb work_units_norm [OF ju] actor_bytes_norm [OF ju])
qed

lemma revalidate:
  assumes "parse_object body = Inr d"
  shows "\<exists>cb. canonicalize_bytes (PDict d) = Inr cb \<and> parse_object cb = Inr (norm_obj d) \<and> validate_bytes cb = validate_bytes body"
proof -
  note j = parse_object_json [OF assms]
  obtain cb where cb: "canonicalize_bytes (PDict d) = Inr cb" "parse_utf8 cb = Inr (norm (PDict d))"
    using parse_canonical [OF j] by (auto simp: res_simps simp del: norm.simps)
  then have "parse_object cb = Inr (norm_obj d)" by (simp add: parse_object_iff norm_PDict del: norm.simps)
  then show ?thesis using cb validate_norm [OF j] assms by (simp add: validate_bytes_def)
qed

section \<open>Properties\<close>

text \<open>C11: a received envelope and its canonical re-serialisation get the same verdict from the validator,
  the same report when valid and the same error when not.\<close>
theorem canonical_envelope_same_verdict:
  assumes "parse_object body = Inr d"
  shows "\<exists>cb. canonicalize_bytes (PDict d) = Inr cb \<and> validate_bytes cb = validate_bytes body"
  using revalidate [OF assms] by blast

definition sample_body :: pystr where
  "sample_body = [32, 123, 34, 98, 34, 58, 110, 117, 108, 108, 44, 32, 34, 97, 34, 58, 116, 114, 117, 101, 125]"

lemma sample_body_parses: "jdoc sample_body (PDict [(lit ''b'', PNone), (lit ''a'', PBool True)])"
proof -
  have key: "string_tok (34 # 97 # 34 # r) = Inr (lit ''a'', r)" "string_tok (34 # 98 # 34 # r) = Inr (lit ''b'', r)" for r
    by (simp_all add: string_tok_def check_scalars_def is_surrogate_def noncharacter_def lit_def)
  have n: "jval [110, 117, 108, 108, 44, 32, 34, 97, 34, 58, 116, 114, 117, 101, 125] PNone [44, 32, 34, 97, 34, 58, 116, 114, 117, 101, 125]"
    by (rule null) (simp add: ws_def is_ws_def lit_def)
  have t: "jval [116, 114, 117, 101, 125] (PBool True) [125]"
    by (rule true) (simp add: ws_def is_ws_def lit_def)
  have "jmembers [34, 97, 34, 58, 116, 114, 117, 101, 125] [(lit ''b'', PNone)] ([(lit ''b'', PNone)] @ [(lit ''a'', PBool True)]) []"
    by (rule members_last [OF key(1) _ t]) (simp_all add: ws_def is_ws_def dhas_def)
  then have "jmembers [34, 98, 34, 58, 110, 117, 108, 108, 44, 32, 34, 97, 34, 58, 116, 114, 117, 101, 125] []
      [(lit ''b'', PNone), (lit ''a'', PBool True)] []"
    by (intro members_more [OF key(2) _ n, where x = "[32, 34, 97, 34, 58, 116, 114, 117, 101, 125]"])
      (simp_all add: ws_def is_ws_def dhas_def)
  then have "jval sample_body (PDict [(lit ''b'', PNone), (lit ''a'', PBool True)]) []"
    unfolding sample_body_def
    by (rule obj [where q = "tl (tl sample_body)", rotated 2]) (simp_all add: sample_body_def ws_def is_ws_def)
  then show ?thesis by (auto simp: jdoc_def ws_def)
qed

theorem canonical_envelope_same_verdict_witness:
  "\<exists>cb. canonicalize_bytes (PDict [(lit ''b'', PNone), (lit ''a'', PBool True)]) = Inr cb \<and>
     validate_bytes cb = validate_bytes (utf8_bytes sample_body)"
proof (rule canonical_envelope_same_verdict)
  have "str_ok sample_body" by (simp add: sample_body_def ascii_char_ok)
  then show "parse_object (utf8_bytes sample_body) = Inr [(lit ''b'', PNone), (lit ''a'', PBool True)]"
    using sample_body_parses by (simp add: parse_object_iff parse_utf8_iff)
qed

end
