(* ===== verification/Cursor.thy ===== *)
theory Cursor
  imports Py_Numerals
begin

text \<open>
  Pagination cursors of \<^verbatim>\<open>implementations/relay/store.py\<close>: the decimal sequence number in unpadded
  base64url. Decoding goes through \<^verbatim>\<open>base64.urlsafe_b64decode\<close>, which ignores unused trailing bits,
  and Python's \<^verbatim>\<open>int\<close> of a string, which admits white space, a sign, underscores between digits and
  at most 4300 digits.
\<close>

section \<open>Integers from text\<close>

text \<open>
  \<^verbatim>\<open>int(s)\<close> for text of code points below 256, which is what header values and decoded cursors are:
  the white space it skips, and the digits with single underscores between them.
\<close>

definition int_space :: "nat \<Rightarrow> bool" where
  "int_space c = (9 \<le> c \<and> c \<le> 13 \<or> c = 32 \<or> c = 0x85 \<or> c = 0xA0)"

definition strip_by :: "(nat \<Rightarrow> bool) \<Rightarrow> pystr \<Rightarrow> pystr" where
  "strip_by f s = rev (dropWhile f (rev (dropWhile f s)))"

fun underscore_digits :: "pystr \<Rightarrow> pystr option" where
  "underscore_digits [] = None"
| "underscore_digits [c] = (if is_digit c then Some [c] else None)"
| "underscore_digits (c # d # s) =
     (if \<not> is_digit c then None
      else map_option (Cons c) (underscore_digits (if d = ch CHR ''_'' then s else d # s)))"

definition int_max_str_digits :: nat where
  "int_max_str_digits = 4300"

definition py_int :: "pystr \<Rightarrow> exn + int" where
  "py_int s =
     (let t = strip_by int_space s;
          neg = (t \<noteq> [] \<and> hd t = ch CHR ''-'');
          body = (if t \<noteq> [] \<and> (hd t = ch CHR ''-'' \<or> hd t = ch CHR ''+'') then tl t else t)
      in case underscore_digits body of
          None \<Rightarrow> Inl (ValueError ''invalid literal'')
        | Some ds \<Rightarrow>
            if int_max_str_digits < length ds then Inl (ValueError ''exceeds the limit'')
            else Inr (if neg then - int (nat_of_digits ds) else int (nat_of_digits ds)))"

text \<open>
  \<^verbatim>\<open>int(s)\<close> for any text, as query values and environment variables are: Python first replaces
  Unicode white space by a space and every decimal digit (general category Nd, Unicode 15.0 of
  Python 3.12) by its ASCII digit, and anything else beyond ASCII makes the literal invalid.
\<close>

definition decimal_zeros :: "nat list" where
  "decimal_zeros =
     [0x660, 0x6F0, 0x7C0, 0x966, 0x9E6, 0xA66, 0xAE6, 0xB66, 0xBE6, 0xC66,
      0xCE6, 0xD66, 0xDE6, 0xE50, 0xED0, 0xF20, 0x1040, 0x1090, 0x17E0, 0x1810,
      0x1946, 0x19D0, 0x1A80, 0x1A90, 0x1B50, 0x1BB0, 0x1C40, 0x1C50, 0xA620, 0xA8D0,
      0xA900, 0xA9D0, 0xA9F0, 0xAA50, 0xABF0, 0xFF10, 0x104A0, 0x10D30, 0x11066, 0x110F0,
      0x11136, 0x111D0, 0x112F0, 0x11450, 0x114D0, 0x11650, 0x116C0, 0x11730, 0x118E0, 0x11950,
      0x11C50, 0x11D50, 0x11DA0, 0x11F50, 0x16A60, 0x16AC0, 0x16B50, 0x1D7CE, 0x1D7D8, 0x1D7E2,
      0x1D7EC, 0x1D7F6, 0x1E140, 0x1E2F0, 0x1E4F0, 0x1E950, 0x1FBF0]"

definition wide_space :: "nat \<Rightarrow> bool" where
  "wide_space c = (c \<in> set [0x85, 0xA0, 0x1680, 0x2028, 0x2029, 0x202F, 0x205F, 0x3000] \<or> 0x2000 \<le> c \<and> c \<le> 0x200A)"

definition ascii_decimal :: "nat \<Rightarrow> nat" where
  "ascii_decimal c =
     (if c < 127 then c else if wide_space c then 32
      else case find (\<lambda>z. z \<le> c \<and> c \<le> z + 9) decimal_zeros of
          Some z \<Rightarrow> 48 + (c - z) | None \<Rightarrow> ch CHR ''?'')"

definition int_text :: "pystr \<Rightarrow> exn + int" where
  "int_text s = py_int (map ascii_decimal s)"

lemma int_text_ascii: "list_all (\<lambda>c. c < 127) s \<Longrightarrow> int_text s = py_int s"
  unfolding int_text_def by (rule arg_cong [of _ _ py_int], induction s) (auto simp: ascii_decimal_def)

section \<open>Base64url\<close>

definition b64_char :: "nat \<Rightarrow> nat" where
  "b64_char v =
     (if v < 26 then 65 + v else if v < 52 then 97 + (v - 26) else if v < 62 then 48 + (v - 52)
      else if v = 62 then ch CHR ''-'' else ch CHR ''_'')"

definition b64_val :: "nat \<Rightarrow> nat option" where
  "b64_val c =
     (if 65 \<le> c \<and> c \<le> 90 then Some (c - 65)
      else if 97 \<le> c \<and> c \<le> 122 then Some (c - 97 + 26)
      else if 48 \<le> c \<and> c \<le> 57 then Some (c - 48 + 52)
      else if c = ch CHR ''-'' then Some 62
      else if c = ch CHR ''_'' then Some 63
      else None)"

text \<open>\<^verbatim>\<open>urlsafe_b64encode(...).rstrip(b"=")\<close> on byte values.\<close>

fun b64_sextets :: "nat list \<Rightarrow> nat list" where
  "b64_sextets [] = []"
| "b64_sextets [a] = [a div 4, a mod 4 * 16]"
| "b64_sextets [a, b] = [a div 4, a mod 4 * 16 + b div 16, b mod 16 * 4]"
| "b64_sextets (a # b # c # r) =
     [a div 4, a mod 4 * 16 + b div 16, b mod 16 * 4 + c div 64, c mod 64] @ b64_sextets r"

text \<open>
  \<^verbatim>\<open>urlsafe_b64decode\<close> of an alphabet-only token with its padding restored: one left-over
  character is an error, spare low bits of the last character are dropped.
\<close>

fun b64_bytes :: "nat list \<Rightarrow> exn + nat list" where
  "b64_bytes [] = Inr []"
| "b64_bytes [a] = Inl (ValueError ''Invalid base64-encoded string'')"
| "b64_bytes [a, b] = Inr [a * 4 + b div 16]"
| "b64_bytes [a, b, c] = Inr [a * 4 + b div 16, b mod 16 * 16 + c div 4]"
| "b64_bytes (a # b # c # d # r) =
     bindr (b64_bytes r) (\<lambda>xs. Inr ([a * 4 + b div 16, b mod 16 * 16 + c div 4, c mod 4 * 64 + d] @ xs))"

section \<open>Cursors\<close>

definition cursor_re :: "pystr \<Rightarrow> bool" where
  "cursor_re token = (token \<noteq> [] \<and> list_all (\<lambda>c. b64_val c \<noteq> None) token)"

definition encode_cursor :: "int \<Rightarrow> pystr" where
  "encode_cursor seq = map b64_char (b64_sextets (str_int seq))"

definition decode_cursor :: "pystr \<Rightarrow> exn + int" where
  "decode_cursor token =
     (if \<not> cursor_re token then Inl (BadCursor ''cursor is not unpadded base64url'')
      else case b64_bytes (map (\<lambda>c. the (b64_val c)) token) of
          Inl _ \<Rightarrow> Inl (BadCursor ''cursor is not valid base64url'')
        | Inr raw \<Rightarrow>
            if \<not> list_all (\<lambda>b. b < 128) raw then Inl (BadCursor ''cursor does not decode to an integer'')
            else case py_int raw of
                Inl _ \<Rightarrow> Inl (BadCursor ''cursor does not decode to an integer'')
              | Inr seq \<Rightarrow> if seq < 0 then Inl (BadCursor ''cursor out of range'') else Inr seq)"

section \<open>Round trip\<close>

lemma b64_val_char: "v < 64 \<Longrightarrow> b64_val (b64_char v) = Some v"
  by (auto simp: b64_val_def b64_char_def)

lemma sextet_bounds: "b < 256 \<Longrightarrow> a mod 4 * 16 + b div 16 < (64 :: nat)" "b < 256 \<Longrightarrow> a mod 16 * 4 + b div 64 < (64 :: nat)"
proof -
  assume "b < 256"
  then have "b div 16 < 16" "b div 64 < 4" by simp_all
  moreover have "a mod 4 < 4" "a mod 16 < 16" by simp_all
  ultimately show "a mod 4 * 16 + b div 16 < 64" "a mod 16 * 4 + b div 64 < 64" by linarith+
qed

lemma b64_sextets_less: "list_all (\<lambda>b. b < 256) bs \<Longrightarrow> list_all (\<lambda>v. v < 64) (b64_sextets bs)"
  by (induction bs rule: b64_sextets.induct) (auto simp: sextet_bounds)

lemma b64_bytes_sextets: "list_all (\<lambda>b. b < 256) bs \<Longrightarrow> b64_bytes (b64_sextets bs) = Inr bs"
  by (induction bs rule: b64_sextets.induct) auto

lemma b64_sextets_not_Nil: "bs \<noteq> [] \<Longrightarrow> b64_sextets bs \<noteq> []"
  by (cases bs rule: b64_sextets.cases) auto

lemma underscore_digits_id: "list_all is_digit s \<Longrightarrow> s \<noteq> [] \<Longrightarrow> underscore_digits s = Some s"
proof (induction s rule: underscore_digits.induct)
  case (3 c d s)
  then have "d \<noteq> ch CHR ''_''" by (auto simp: is_digit_def)
  then show ?case using 3 by simp
qed auto

lemma strip_digits: "list_all is_digit s \<Longrightarrow> strip_by int_space s = s"
proof -
  assume d: "list_all is_digit s"
  have "list_all (\<lambda>c. \<not> int_space c) s" using d by (auto simp: list_all_iff is_digit_def int_space_def)
  then have "dropWhile int_space s = s" "dropWhile int_space (rev s) = rev s"
    by (auto simp: dropWhile_eq_self_iff list_all_iff hd_rev)
  then show ?thesis by (simp add: strip_by_def)
qed

lemma py_int_str_nat:
  assumes "n < 10 ^ int_max_str_digits"
  shows "py_int (str_nat n) = Inr (int n)"
proof -
  have "length (str_nat n) \<le> int_max_str_digits" by (rule length_str_nat_le [OF assms]) (simp add: int_max_str_digits_def)
  moreover have "is_digit (hd (str_nat n))" using str_nat_digits [of n] by (cases "str_nat n") auto
  ultimately show ?thesis
    using str_nat_digits [of n]
    by (auto simp: py_int_def strip_digits underscore_digits_id Let_def is_digit_def)
qed

lemma decode_encode_cursor:
  assumes "n < 10 ^ int_max_str_digits"
  shows "decode_cursor (encode_cursor (int n)) = Inr (int n)"
proof -
  let ?s = "str_nat n"
  have b: "list_all (\<lambda>b. b < 128) ?s" "list_all (\<lambda>b. b < 256) ?s" using str_nat_digits [of n] by (auto simp: list_all_iff is_digit_def)
  have "list_all (\<lambda>v. v < 64) (b64_sextets ?s)" by (rule b64_sextets_less [OF b(2)])
  then have v: "map (\<lambda>c. the (b64_val c)) (map b64_char (b64_sextets ?s)) = b64_sextets ?s"
    and re: "cursor_re (map b64_char (b64_sextets ?s))"
    by (auto simp: list_all_iff b64_val_char cursor_re_def b64_sextets_not_Nil intro!: map_idI)
  show ?thesis
    using b re py_int_str_nat [OF assms] b64_bytes_sextets [OF b(2)] v
    by (simp add: decode_cursor_def encode_cursor_def str_int_def)
qed

interpretation cursorc: codec "\<lambda>n. encode_cursor (int n)" "\<lambda>t. bindr (decode_cursor t) (\<lambda>i. Inr (nat i))"
    "\<lambda>n. n < 10 ^ int_max_str_digits"
  by unfold_locales (simp add: decode_encode_cursor)

section \<open>Properties\<close>

text \<open>C21: a cursor the relay hands out decodes to the sequence number it was made from, consists of
  base64url characters only, and distinct numbers have distinct cursors.\<close>
theorem cursor_round_trip:
  assumes "n < 10 ^ int_max_str_digits" "m < 10 ^ int_max_str_digits"
  shows "cursor_re (encode_cursor (int n)) \<and> decode_cursor (encode_cursor (int n)) = Inr (int n) \<and>
    (encode_cursor (int n) = encode_cursor (int m) \<longleftrightarrow> n = m)"
  using decode_encode_cursor [OF assms(1)] cursorc.enc_eq_iff [OF assms] by (auto simp: decode_cursor_def split: if_splits)

theorem cursor_round_trip_witness:
  "cursor_re (encode_cursor (int 41)) \<and> decode_cursor (encode_cursor (int 41)) = Inr (int 41) \<and>
    (encode_cursor (int 41) = encode_cursor (int 42) \<longleftrightarrow> (41 :: nat) = 42)"
proof (rule cursor_round_trip)
  have "(10 :: nat) ^ 2 \<le> 10 ^ int_max_str_digits" by (rule power_increasing) (simp_all add: int_max_str_digits_def)
  then show "41 < (10 :: nat) ^ int_max_str_digits" "42 < (10 :: nat) ^ int_max_str_digits" by simp_all
qed

text \<open>Decoding a cursor yields a non-negative integer or a \<open>BadCursor\<close>; nothing else is raised.\<close>
theorem decode_cursor_total:
  "case decode_cursor t of Inr n \<Rightarrow> 0 \<le> n \<and> cursor_re t | Inl e \<Rightarrow> \<exists>m. e = BadCursor m"
  by (auto simp: decode_cursor_def split: sum.splits)

end
