(* ===== verification/Store.thy ===== *)
theory Store
  imports Cursor "HOL-Library.Sublist"
begin

text \<open>
  \<^verbatim>\<open>implementations/relay/store.py\<close> and \<^verbatim>\<open>schema.sql\<close>: the durable store as a record of its two
  tables. A query is a comprehension over the rows, sorted by sequence number and cut by LIMIT.

  SQLite itself is outside the sources: the rowid an insertion receives is the argument \<open>rowid\<close> of
  \<open>add\<close>, and what the store relies on is the documented law of AUTOINCREMENT, that it exceeds every
  rowid handed out before (\<open>last_seq\<close>). \<^verbatim>\<open>INSERT OR IGNORE\<close> ignores a row whose unique key exists.
  Binding an integer of \<open>2^63\<close> or more raises \<^verbatim>\<open>OverflowError\<close>.
\<close>

section \<open>State\<close>

record row =
  seq :: nat
  rid :: pystr
  envelope :: bytes
  rtype :: pystr
  actor :: pystr
  channel :: "pystr option"
  object_hash :: "pystr option"
  accepted_at :: int

record store =
  assertions :: "row list"
  advertised :: "(pystr \<times> pystr) list"
  last_seq :: nat
  page_size :: nat

text \<open>\<^verbatim>\<open>Store(db_path, page_size)\<close> on a new database file.\<close>

definition new_store :: "int \<Rightarrow> store" where
  "new_store ps = \<lparr>assertions = [], advertised = [], last_seq = 0, page_size = nat (max 1 ps)\<rparr>"

section \<open>Operations\<close>

definition add :: "nat \<Rightarrow> int \<Rightarrow> pystr \<Rightarrow> bytes \<Rightarrow> pystr \<Rightarrow> pystr \<Rightarrow> pystr option \<Rightarrow> pystr option \<Rightarrow> store \<Rightarrow> bool \<times> store" where
  "add rowid now ident env typ act chan objh st =
     (if list_ex (\<lambda>r. rid r = ident) (assertions st) then (False, st)
      else
        let r = \<lparr>seq = rowid, rid = ident, envelope = env, rtype = typ, actor = act, channel = chan,
                 object_hash = objh, accepted_at = now\<rparr>;
            st1 = st\<lparr>assertions := assertions st @ [r], last_seq := rowid\<rparr>
        in (True,
            if typ = lit ''channel'' \<and> \<not> list_ex (\<lambda>c. fst c = ident) (advertised st1)
            then st1\<lparr>advertised := advertised st1 @ [(ident, ident)]\<rparr> else st1))"

definition get_assertion :: "pystr \<Rightarrow> store \<Rightarrow> bytes option" where
  "get_assertion hex st =
     (case filter (\<lambda>r. rid r = lit ''sha256:'' @ hex) (assertions st) of [] \<Rightarrow> None | r # _ \<Rightarrow> Some (envelope r))"

definition paginate :: "nat \<Rightarrow> (nat \<times> 'a) list \<Rightarrow> (nat \<times> 'a) list \<times> pystr option" where
  "paginate ps rows =
     (let more = ps < length rows; rows1 = take ps rows in
      (rows1, if more \<and> rows1 \<noteq> [] then Some (encode_cursor (int (fst (last rows1)))) else None))"

text \<open>\<^verbatim>\<open>... AND seq > ? ORDER BY seq ASC LIMIT ?\<close> with the page size plus one.\<close>

definition select_after :: "nat \<Rightarrow> int \<Rightarrow> (nat \<times> 'a) list \<Rightarrow> exn + (nat \<times> 'a) list" where
  "select_after ps after rows =
     (if 2 ^ 63 \<le> after then Inl OverflowError
      else Inr (take (ps + 1) (sort_key fst (filter (\<lambda>r. after < int (fst r)) rows))))"

definition fetch_page :: "nat \<Rightarrow> int \<Rightarrow> (nat \<times> 'a) list \<Rightarrow> exn + ('a list \<times> pystr option)" where
  "fetch_page ps after rows =
     bindr (select_after ps after rows) (\<lambda>rs. let (rs1, nxt) = paginate ps rs in Inr (map snd rs1, nxt))"

definition channel_rows :: "pystr \<Rightarrow> store \<Rightarrow> (nat \<times> bytes) list" where
  "channel_rows hex st =
     map (\<lambda>r. (seq r, envelope r)) (filter (\<lambda>r. channel r = Some (lit ''sha256:'' @ hex)) (assertions st))"

definition object_rows :: "pystr \<Rightarrow> store \<Rightarrow> (nat \<times> bytes) list" where
  "object_rows hex st =
     map (\<lambda>r. (seq r, envelope r)) (filter (\<lambda>r. object_hash r = Some (lit ''sha256:'' @ hex)) (assertions st))"

definition advertised_rows :: "store \<Rightarrow> (nat \<times> pystr) list" where
  "advertised_rows st =
     concat (map (\<lambda>ac. map (\<lambda>a. (seq a, rid a)) (filter (\<lambda>a. rid a = snd ac) (assertions st))) (advertised st))"

definition channel_assertions :: "pystr \<Rightarrow> int \<Rightarrow> store \<Rightarrow> exn + (bytes list \<times> pystr option)" where
  "channel_assertions hex after st = fetch_page (page_size st) after (channel_rows hex st)"

definition object_assertions :: "pystr \<Rightarrow> int \<Rightarrow> store \<Rightarrow> exn + (bytes list \<times> pystr option)" where
  "object_assertions hex after st = fetch_page (page_size st) after (object_rows hex st)"

definition advertised_channels :: "int \<Rightarrow> store \<Rightarrow> exn + (pystr list \<times> pystr option)" where
  "advertised_channels after st = fetch_page (page_size st) after (advertised_rows st)"

section \<open>Invariant\<close>

text \<open>
  Rows stand in ascending order of sequence numbers between 1 and \<open>last_seq\<close>, which fits an
  SQLite integer, identifiers are unique, and the advertised channels are exactly the identifiers of channel assertions, in order.
\<close>

definition store_ok :: "store \<Rightarrow> bool" where
  "store_ok st =
     (0 < page_size st \<and> last_seq st < 2 ^ 63 \<and> sorted_wrt (<) (map seq (assertions st)) \<and>
      list_all (\<lambda>r. 0 < seq r \<and> seq r \<le> last_seq st) (assertions st) \<and>
      distinct (map rid (assertions st)) \<and>
      advertised st = map (\<lambda>r. (rid r, rid r)) (filter (\<lambda>r. rtype r = lit ''channel'') (assertions st)))"

lemma store_ok_new: "store_ok (new_store ps)"
  by (simp add: store_ok_def new_store_def)

lemma add_known: "rid r = ident \<Longrightarrow> r \<in> set (assertions st) \<Longrightarrow> add n t ident env ty a c h st = (False, st)"
  by (auto simp: add_def list_ex_iff)

lemma add_new:
  assumes "store_ok st" "ident \<notin> rid ` set (assertions st)"
  shows "fst (add n t ident env ty a c h st)"
    "assertions (snd (add n t ident env ty a c h st)) = assertions st @
       [\<lparr>seq = n, rid = ident, envelope = env, rtype = ty, actor = a, channel = c, object_hash = h, accepted_at = t\<rparr>]"
    "last_seq (snd (add n t ident env ty a c h st)) = n"
    "page_size (snd (add n t ident env ty a c h st)) = page_size st"
    "advertised (snd (add n t ident env ty a c h st)) =
       advertised st @ (if ty = lit ''channel'' then [(ident, ident)] else [])"
proof -
  have "\<not> list_ex (\<lambda>r. rid r = ident) (assertions st)" using assms(2) by (auto simp: list_ex_iff)
  moreover have "\<not> list_ex (\<lambda>c. fst c = ident) (advertised st)" using assms by (auto simp: list_ex_iff store_ok_def)
  ultimately show "fst (add n t ident env ty a c h st)"
    "assertions (snd (add n t ident env ty a c h st)) = assertions st @
       [\<lparr>seq = n, rid = ident, envelope = env, rtype = ty, actor = a, channel = c, object_hash = h, accepted_at = t\<rparr>]"
    "last_seq (snd (add n t ident env ty a c h st)) = n"
    "page_size (snd (add n t ident env ty a c h st)) = page_size st"
    "advertised (snd (add n t ident env ty a c h st)) =
       advertised st @ (if ty = lit ''channel'' then [(ident, ident)] else [])"
    by (auto simp: add_def Let_def)
qed

lemma store_ok_add:
  assumes "store_ok st" "last_seq st < n" "n < 2 ^ 63"
  shows "store_ok (snd (add n t ident env ty a c h st))"
proof (cases "ident \<in> rid ` set (assertions st)")
  case True
  then show ?thesis using assms add_known [of _ ident st] by auto
next
  case False
  have le: "\<forall>r\<in>set (assertions st). seq r \<le> last_seq st" using assms(1) by (simp add: store_ok_def list_all_iff)
  then have "\<forall>r\<in>set (assertions st). seq r < n \<and> seq r \<le> n" using assms(2) by fastforce
  then show ?thesis
    using assms False unfolding store_ok_def add_new [OF assms(1) False]
    by (auto simp: sorted_wrt_append list_all_iff)
qed

section \<open>Rows of a query\<close>

lemma sorted_seq_filter: "sorted_wrt (<) (map seq rs) \<Longrightarrow> sorted_wrt (<) (map seq (filter Q rs))"
  by (induction rs) auto

lemma filter_rid: "distinct (map rid rs) \<Longrightarrow> r \<in> set rs \<Longrightarrow> filter (\<lambda>a. rid a = rid r) rs = [r]"
proof (induction rs)
  case (Cons x rs)
  have "filter (\<lambda>a. rid a = rid x) rs = []" using Cons.prems(1) by (auto simp: filter_empty_conv image_iff)
  then show ?case using Cons by auto
qed simp

lemma advertised_rows_eq:
  "store_ok st \<Longrightarrow> advertised_rows st = map (\<lambda>r. (seq r, rid r)) (filter (\<lambda>r. rtype r = lit ''channel'') (assertions st))"
proof -
  assume ok: "store_ok st"
  have "concat (map (\<lambda>ac. map (\<lambda>a. (seq a, rid a)) (filter (\<lambda>a. rid a = snd ac) (assertions st))) (map (\<lambda>r. (rid r, rid r)) rs)) =
      map (\<lambda>r. (seq r, rid r)) rs" if "set rs \<subseteq> set (assertions st)" for rs
    using that ok by (induction rs) (auto simp: filter_rid store_ok_def)
  then show ?thesis using ok by (simp add: advertised_rows_def store_ok_def)
qed

lemma rows_fst:
  "map fst (channel_rows hex st) = map seq (filter (\<lambda>r. channel r = Some (lit ''sha256:'' @ hex)) (assertions st))"
  "map fst (object_rows hex st) = map seq (filter (\<lambda>r. object_hash r = Some (lit ''sha256:'' @ hex)) (assertions st))"
  "store_ok st \<Longrightarrow> map fst (advertised_rows st) = map seq (filter (\<lambda>r. rtype r = lit ''channel'') (assertions st))"
  by (simp_all add: channel_rows_def object_rows_def advertised_rows_eq)

definition rows_ok :: "store \<Rightarrow> (nat \<times> 'a) list \<Rightarrow> bool" where
  "rows_ok st rows = (sorted_wrt (<) (map fst rows) \<and> list_all (\<lambda>r. 0 < fst r \<and> fst r \<le> last_seq st) rows)"

lemma seqs_ok:
  assumes "store_ok st" "map fst rows = map seq (filter Q (assertions st))"
  shows "rows_ok st rows"
proof -
  have "list_all (\<lambda>n. 0 < n \<and> n \<le> last_seq st) (map fst rows)"
    using assms by (auto simp: assms(2) store_ok_def list_all_iff)
  then have "list_all (\<lambda>r. 0 < fst r \<and> fst r \<le> last_seq st) rows" by (simp add: list.pred_map o_def)
  then show ?thesis
    using assms sorted_seq_filter [of "assertions st" Q] by (simp add: rows_ok_def assms(2) store_ok_def)
qed

lemma query_rows_ok:
  assumes "store_ok st"
  shows "rows_ok st (channel_rows hex st)" "rows_ok st (object_rows hex st)" "rows_ok st (advertised_rows st)"
  by (rule seqs_ok [OF assms rows_fst(1)] seqs_ok [OF assms rows_fst(2)] seqs_ok [OF assms rows_fst(3) [OF assms]])+

section \<open>Evolution\<close>

text \<open>One insertion, with the rowid SQLite may hand out, and any number of them.\<close>

inductive store_step :: "store \<Rightarrow> store \<Rightarrow> bool" where
  added: "last_seq st < n \<Longrightarrow> n < 2 ^ 63 \<Longrightarrow> store_step st (snd (add n t ident env ty a c h st))"

inductive_cases store_stepE: "store_step st st'"

abbreviation store_grows :: "store \<Rightarrow> store \<Rightarrow> bool" where
  "store_grows \<equiv> store_step\<^sup>*\<^sup>*"

lemma store_step_cases:
  assumes "store_step st st'" "store_ok st"
  obtains "st' = st" | r where "assertions st' = assertions st @ [r]" "page_size st' = page_size st" "rid r \<notin> rid ` set (assertions st)"
  using assms(1)
proof (rule store_stepE)
  fix n t ident env ty a c h
  assume st': "st' = snd (add n t ident env ty a c h st)"
  show thesis
  proof (cases "ident \<in> rid ` set (assertions st)")
    case True
    then show ?thesis using st' that(1) add_known [of _ ident st] by auto
  next
    case False
    then show ?thesis using st' that(2) add_new [OF assms(2) False] by simp
  qed
qed

lemma store_ok_step: "store_step st st' \<Longrightarrow> store_ok st \<Longrightarrow> store_ok st'"
  by (auto elim!: store_stepE intro: store_ok_add)

lemma rows_step:
  assumes "store_step st st'" "store_ok st"
  shows "prefix (channel_rows hex st) (channel_rows hex st')" "prefix (object_rows hex st) (object_rows hex st')"
    "prefix (advertised_rows st) (advertised_rows st')" "page_size st' = page_size st" "prefix (assertions st) (assertions st')"
  using assms(1,2) store_ok_step [OF assms]
  by (cases rule: store_step_cases; simp add: channel_rows_def object_rows_def advertised_rows_eq)+

lemma store_grows_ok: "store_grows st st' \<Longrightarrow> store_ok st \<Longrightarrow> store_ok st'"
  by (induction rule: rtranclp_induct) (auto intro: store_ok_step)

lemma rows_grow:
  assumes "store_grows st st'" "store_ok st"
  shows "prefix (channel_rows hex st) (channel_rows hex st')" "prefix (object_rows hex st) (object_rows hex st')"
    "prefix (advertised_rows st) (advertised_rows st')" "prefix (assertions st) (assertions st')"
  using assms
  by (induction rule: rtranclp_induct)
    (auto intro: prefix_order.trans rows_step store_grows_ok)

section \<open>Lookup\<close>

lemma get_assertion_iff:
  assumes "store_ok st"
  shows "get_assertion hex st = Some e \<longleftrightarrow> (\<exists>r\<in>set (assertions st). rid r = lit ''sha256:'' @ hex \<and> envelope r = e)"
proof (cases "\<exists>r\<in>set (assertions st). rid r = lit ''sha256:'' @ hex")
  case True
  then obtain r where r: "r \<in> set (assertions st)" "rid r = lit ''sha256:'' @ hex" by blast
  have d: "distinct (map rid (assertions st))" using assms by (simp add: store_ok_def)
  have g: "get_assertion hex st = Some (envelope r)"
    using filter_rid [OF d r(1)] r(2) by (simp add: get_assertion_def)
  have u: "q = r" if "q \<in> set (assertions st)" "rid q = lit ''sha256:'' @ hex" for q
    using d r that by (metis distinct_map inj_onD)
  show ?thesis unfolding g option.inject using r u by blast
next
  case False
  then have "filter (\<lambda>r. rid r = lit ''sha256:'' @ hex) (assertions st) = []" by (simp add: filter_empty_conv)
  then show ?thesis using False by (auto simp: get_assertion_def)
qed

lemma get_assertion_stable:
  "store_grows st st' \<Longrightarrow> store_ok st \<Longrightarrow> get_assertion hex st = Some e \<Longrightarrow> get_assertion hex st' = Some e"
  using set_mono_prefix [OF rows_grow(4) [of st st']] store_grows_ok [of st st'] by (auto simp: get_assertion_iff)

section \<open>Properties\<close>

text \<open>C20: insertion keeps the store's invariant: sequence numbers ascend and stay in range, identifiers are
  unique, and the advertised channels are exactly the channel assertions.\<close>
theorem add_keeps_store_ok:
  assumes "store_ok st" "last_seq st < n" "n < 2 ^ 63"
  shows "store_ok (snd (add n t ident env ty a c h st))"
  by (rule store_ok_add [OF assms])

theorem add_keeps_store_ok_witness:
  "store_ok (snd (add 7 0 (lit ''sha256:aa'') [1] (lit ''channel'') [] None None (new_store 2)))"
  by (rule add_keeps_store_ok) (simp_all add: store_ok_new, simp_all add: new_store_def)

text \<open>Insertion is idempotent by identifier: a second insertion under the same identifier reports a
  duplicate and changes nothing, and the first envelope stays retrievable.\<close>
lemma add_idempotent:
  assumes "store_ok st" "last_seq st < n" "n < 2 ^ 63" "lit ''sha256:'' @ hex \<notin> rid ` set (assertions st)"
  shows "add n t (lit ''sha256:'' @ hex) env ty a c h st = (True, st') \<Longrightarrow>
    add n' t' (lit ''sha256:'' @ hex) env' ty' a' c' h' st' = (False, st') \<and> get_assertion hex st' = Some env"
proof -
  assume "add n t (lit ''sha256:'' @ hex) env ty a c h st = (True, st')"
  then have st': "st' = snd (add n t (lit ''sha256:'' @ hex) env ty a c h st)" by simp
  let ?r = "\<lparr>seq = n, rid = lit ''sha256:'' @ hex, envelope = env, rtype = ty, actor = a, channel = c, object_hash = h, accepted_at = t\<rparr>"
  have r: "?r \<in> set (assertions st')" unfolding st' add_new [OF assms(1,4)] by simp
  have "store_ok st'" unfolding st' by (rule store_ok_add [OF assms(1-3)])
  then have "get_assertion hex st' = Some env" using r by (force simp: get_assertion_iff)
  then show ?thesis using add_known [OF _ r] by simp
qed

end
