(* ===== verification/Paging.thy ===== *)
theory Paging
  imports Store
begin

text \<open>
  Following a listing from page to page. The interface \<open>paged_table\<close> states what a listing
  promises: rows in strictly ascending sequence order, pages cut by \<open>fetch_page\<close>, and growth at the
  end only. Its client is a crawler that follows the \<open>next\<close> cursors while the store may grow
  between requests; it ends, and sees every row that was there when it started, in order and once.
  The three listings of the store are its instances.
\<close>

section \<open>One page\<close>

abbreviation seq_sorted :: "(nat \<times> 'a) list \<Rightarrow> bool" where
  "seq_sorted rows \<equiv> sorted_wrt (<) (map fst rows)"

lemma seq_sorted_filter: "seq_sorted rows \<Longrightarrow> seq_sorted (filter Q rows)"
  by (induction rows) auto

lemma sort_key_sorted: "seq_sorted rows \<Longrightarrow> sort_key fst rows = rows"
  by (intro sort_key_id_if_sorted strict_sorted_imp_sorted)

lemma fetch_page_eq:
  assumes "seq_sorted rows" "after < 2 ^ 63" "0 < ps"
  defines "R \<equiv> filter (\<lambda>r. after < int (fst r)) rows"
  shows "fetch_page ps after rows =
    Inr (map snd (take ps R), if ps < length R then Some (encode_cursor (int (fst (R ! (ps - 1))))) else None)"
proof -
  have sel: "select_after ps after rows = Inr (take (Suc ps) R)"
    using assms by (simp add: select_after_def sort_key_sorted seq_sorted_filter)
  have "last (take ps R) = R ! (ps - 1)" "R \<noteq> []" if "ps < length R"
  proof -
    show "R \<noteq> []" using that by auto
    then have "take ps R \<noteq> []" using assms(3) by simp
    then show "last (take ps R) = R ! (ps - 1)" using that assms(3) by (simp add: last_conv_nth)
  qed
  then show ?thesis
    unfolding fetch_page_def sel using assms(3) by (auto simp: paginate_def Let_def min_def)
qed

lemma filter_after_nth:
  assumes "seq_sorted W" "i < length W"
  shows "filter (\<lambda>r. fst (W ! i) < fst r) W = drop (Suc i) W"
proof -
  have lt: "fst (W ! a) < fst (W ! b)" if "a < b" "b < length W" for a b
    using sorted_wrt_nth_less [OF assms(1), of a b] that by simp
  have "filter (\<lambda>r. fst (W ! i) < fst r) (take (Suc i) W) = []"
  proof -
    have "fst (W ! a) \<le> fst (W ! i)" if "a < Suc i" for a
      using that lt [of a i] assms(2) by (cases "a = i") auto
    then show ?thesis by (fastforce simp: filter_empty_conv in_set_conv_nth not_less)
  qed
  moreover have "filter (\<lambda>r. fst (W ! i) < fst r) (drop (Suc i) W) = drop (Suc i) W"
  proof -
    have "fst (W ! i) < fst (W ! Suc (i + a))" if "a < length W - Suc i" for a
      using that by (intro lt) auto
    then show ?thesis by (fastforce simp: filter_id_conv in_set_conv_nth)
  qed
  ultimately show ?thesis by (metis append_take_drop_id filter_append append_Nil)
qed

lemma page_split:
  assumes "seq_sorted T" "prefix U T" "0 < ps" "ps \<le> length (filter (\<lambda>r. after < int (fst r)) U)"
  defines "R \<equiv> filter (\<lambda>r. after < int (fst r)) U"
  shows "filter (\<lambda>r. after < int (fst r)) T = take ps R @ filter (\<lambda>r. int (fst (R ! (ps - 1))) < int (fst r)) T"
proof -
  define W where "W = filter (\<lambda>r. after < int (fst r)) T"
  obtain V where V: "W = R @ V" using assms(2) by (auto simp: prefix_def W_def R_def)
  have i: "ps - 1 < length R" using assms(3,4) by (simp add: R_def)
  then have nth: "W ! (ps - 1) = R ! (ps - 1)" by (simp add: V nth_append)
  have "R ! (ps - 1) \<in> set R" using i by simp
  then have "after < int (fst (R ! (ps - 1)))" by (simp add: R_def)
  then have "filter (\<lambda>r. int (fst (R ! (ps - 1))) < int (fst r)) T = filter (\<lambda>r. fst (W ! (ps - 1)) < fst r) W"
    unfolding nth by (auto simp: W_def intro!: filter_cong)
  also have "\<dots> = drop ps W"
  proof -
    have "ps - 1 < length W" using i by (simp add: V)
    moreover have "seq_sorted W" using assms(1) by (simp add: W_def seq_sorted_filter)
    ultimately show ?thesis using filter_after_nth [of W "ps - 1"] assms(3) by simp
  qed
  finally show ?thesis using assms(3,4) by (simp add: W_def [symmetric]) (simp add: V R_def)
qed

section \<open>Crawling\<close>

text \<open>
  A client that asks for a page, then for the page after its \<open>next\<close> cursor, until there is none. The
  list holds the state of the store at each request; \<open>None\<close> is a failed request or a crawl that
  needs more requests than the list grants.
\<close>

fun crawl :: "(int \<Rightarrow> 's \<Rightarrow> exn + ('a list \<times> pystr option)) \<Rightarrow> int \<Rightarrow> 's list \<Rightarrow> 'a list option" where
  "crawl fetch after [] = None"
| "crawl fetch after (s # ss) = (case fetch after s of
       Inl _ \<Rightarrow> None
     | Inr (items, None) \<Rightarrow> Some items
     | Inr (items, Some c) \<Rightarrow> (case decode_cursor c of
           Inl _ \<Rightarrow> None
         | Inr k \<Rightarrow> map_option (\<lambda>rest. items @ rest) (crawl fetch k ss)))"

locale paged_table =
  fixes table :: "'s \<Rightarrow> (nat \<times> 'a) list"
    and fetch :: "int \<Rightarrow> 's \<Rightarrow> exn + ('a list \<times> pystr option)"
    and size_of :: "'s \<Rightarrow> nat"
    and inv_of :: "'s \<Rightarrow> bool"
    and grows :: "'s \<Rightarrow> 's \<Rightarrow> bool"
  assumes size_pos: "inv_of s \<Longrightarrow> 0 < size_of s"
    and table_sorted: "inv_of s \<Longrightarrow> seq_sorted (table s)"
    and table_range: "inv_of s \<Longrightarrow> r \<in> set (table s) \<Longrightarrow> 0 < fst r \<and> fst r < 2 ^ 63"
    and fetch_law: "inv_of s \<Longrightarrow> fetch after s = fetch_page (size_of s) after (table s)"
    and grows_prefix: "grows s s' \<Longrightarrow> inv_of s \<Longrightarrow> prefix (table s) (table s')"
    and grows_inv: "grows s s' \<Longrightarrow> inv_of s \<Longrightarrow> inv_of s'"
    and grows_trans: "grows s s' \<Longrightarrow> grows s' s'' \<Longrightarrow> grows s s''"
begin

abbreviation rest_after :: "int \<Rightarrow> 's \<Rightarrow> (nat \<times> 'a) list" where
  "rest_after after s \<equiv> filter (\<lambda>r. after < int (fst r)) (table s)"

lemma cursor_back:
  assumes "inv_of s" "r \<in> set (table s)"
  shows "decode_cursor (encode_cursor (int (fst r))) = Inr (int (fst r))" "int (fst r) < 2 ^ 63"
proof -
  have "fst r < 2 ^ 63" using table_range [OF assms] by simp
  moreover have "(2 :: nat) ^ 63 \<le> 10 ^ 19" by simp
  moreover have "(10 :: nat) ^ 19 \<le> 10 ^ int_max_str_digits" by (rule power_increasing) (simp_all add: int_max_str_digits_def)
  ultimately show "decode_cursor (encode_cursor (int (fst r))) = Inr (int (fst r))"
    by (intro decode_encode_cursor) (meson less_le_trans order_trans)
  show "int (fst r) < 2 ^ 63" using \<open>fst r < 2 ^ 63\<close> by (metis of_nat_less_iff of_nat_numeral of_nat_power)
qed

lemma rest_shrinks:
  assumes "after < int (fst r)" "r \<in> set (table s)"
  shows "length (rest_after (int (fst r)) s) < length (rest_after after s)"
proof -
  have "rest_after (int (fst r)) s = filter (\<lambda>x. fst r < fst x) (rest_after after s)"
    using assms(1) by (auto intro!: filter_cong)
  moreover have "r \<in> set (rest_after after s)" using assms by simp
  ultimately show ?thesis by (metis (no_types, lifting) length_filter_less less_irrefl)
qed

lemma chain_inv: "sorted_wrt grows (s # ss) \<Longrightarrow> inv_of s \<Longrightarrow> t \<in> set ss \<Longrightarrow> inv_of t \<and> prefix (table s) (table t)"
  using grows_prefix grows_inv by auto

lemma crawl_from:
  assumes "sorted_wrt grows ss" "ss \<noteq> []" "inv_of (hd ss)" "0 \<le> after" "after < 2 ^ 63"
    "length (rest_after after (last ss)) < length ss"
  shows "\<exists>t\<in>set ss. crawl fetch after ss = Some (map snd (rest_after after t))"
  using assms
proof (induction ss arbitrary: after)
  case (Cons s ss)
  let ?R = "rest_after after s" and ?ps = "size_of s"
  have ok: "inv_of s" "0 < ?ps" "seq_sorted (table s)" using Cons.prems(3) size_pos table_sorted by simp_all
  have page: "fetch after s = Inr (map snd (take ?ps ?R),
      if ?ps < length ?R then Some (encode_cursor (int (fst (?R ! (?ps - 1))))) else None)"
    using fetch_law [OF ok(1)] fetch_page_eq [OF ok(3) Cons.prems(5) ok(2)] by simp
  show ?case
  proof (cases "?ps < length ?R")
    case False
    then show ?thesis using page by simp
  next
    case True
    define r where "r = ?R ! (?ps - 1)"
    have r: "r \<in> set (table s)" "after < int (fst r)"
      using nth_mem [of "?ps - 1" ?R] True by (auto simp: r_def)
    note cb = cursor_back [OF ok(1) r(1)]
    have ne: "ss \<noteq> []" using Cons.prems(6) True by (cases ss) auto
    have hd: "inv_of (hd ss)" "prefix (table s) (table (last ss))"
      using chain_inv [OF Cons.prems(1) ok(1)] ne by simp_all
    then have "r \<in> set (table (last ss))" using r(1) set_mono_prefix by blast
    then have "length (rest_after (int (fst r)) (last ss)) < length ss"
      using rest_shrinks [OF r(2), of "last ss"] Cons.prems(6) ne by simp
    then obtain t where t: "t \<in> set ss" "crawl fetch (int (fst r)) ss = Some (map snd (rest_after (int (fst r)) t))"
      using Cons.IH [of "int (fst r)"] Cons.prems(1) ne hd(1) cb(2) by auto
    have "prefix (table s) (table t)" "inv_of t" using chain_inv [OF Cons.prems(1) ok(1) t(1)] by simp_all
    then have "rest_after after t = take ?ps ?R @ rest_after (int (fst r)) t"
      using page_split [OF table_sorted, of t "table s" ?ps after] ok(2) True by (simp add: r_def)
    moreover have "fetch after s = Inr (map snd (take ?ps ?R), Some (encode_cursor (int (fst r))))"
      using page True by (simp add: r_def)
    ultimately have "crawl fetch after (s # ss) = Some (map snd (rest_after after t))" using cb(1) t(2) by simp
    then show ?thesis using t(1) by auto
  qed
qed simp

lemma prefix_last: "sorted_wrt grows ss \<Longrightarrow> t \<in> set ss \<Longrightarrow> inv_of (hd ss) \<Longrightarrow>
    prefix (table (hd ss)) (table t) \<and> prefix (table t) (table (last ss))"
proof (induction ss)
  case (Cons s ss)
  show ?case
  proof (cases "t = s")
    case True
    then show ?thesis using Cons.prems chain_inv [of s ss "last ss"] by auto
  next
    case False
    then have "t \<in> set ss" "inv_of (hd ss)" "ss \<noteq> []" using Cons.prems chain_inv [of s ss "hd ss"] by (cases ss; auto)+
    then show ?thesis using Cons chain_inv [of s ss t] by auto
  qed
qed simp

theorem crawl_complete:
  assumes "sorted_wrt grows ss" "ss \<noteq> []" "inv_of (hd ss)" "length (table (last ss)) < length ss"
  shows "\<exists>items. crawl fetch 0 ss = Some items \<and> prefix (map snd (table (hd ss))) items \<and> prefix items (map snd (table (last ss)))"
proof -
  have inv: "inv_of t" if "t \<in> set ss" for t
    using that assms(1-3) chain_inv [of "hd ss" "tl ss" t] by (cases ss) auto
  have all: "rest_after 0 t = table t" if "t \<in> set ss" for t
    using table_range [OF inv [OF that]] by (auto intro!: filter_True)
  have "length (rest_after 0 (last ss)) < length ss" using assms(2,4) all [of "last ss"] by simp
  then obtain t where t: "t \<in> set ss" "crawl fetch 0 ss = Some (map snd (table t))"
    using crawl_from [OF assms(1-3), of 0] all by auto
  then show ?thesis using prefix_last [OF assms(1) t(1) assms(3)] by (auto simp: map_mono_prefix)
qed

end

section \<open>The listings of the store\<close>

lemma rows_ok_range: "rows_ok st rows \<Longrightarrow> store_ok st \<Longrightarrow> r \<in> set rows \<Longrightarrow> 0 < fst r \<and> fst r < 2 ^ 63"
  by (auto simp: rows_ok_def store_ok_def list_all_iff dest!: bspec intro: le_less_trans)

lemma rows_ok_sorted: "rows_ok st rows \<Longrightarrow> seq_sorted rows"
  by (simp add: rows_ok_def)

lemma store_ok_page: "store_ok st \<Longrightarrow> 0 < page_size st"
  by (simp add: store_ok_def)

lemma query_range:
  "store_ok st \<Longrightarrow> p \<in> set (channel_rows hex st) \<Longrightarrow> 0 < fst p \<and> fst p < 2 ^ 63"
  "store_ok st \<Longrightarrow> p \<in> set (object_rows hex st) \<Longrightarrow> 0 < fst p \<and> fst p < 2 ^ 63"
  "store_ok st \<Longrightarrow> q \<in> set (advertised_rows st) \<Longrightarrow> 0 < fst q \<and> fst q < 2 ^ 63"
  by (rule rows_ok_range [OF query_rows_ok(1)] rows_ok_range [OF query_rows_ok(2)] rows_ok_range [OF query_rows_ok(3)]; assumption)+

interpretation chan_list: paged_table "channel_rows hex" "channel_assertions hex" page_size store_ok store_grows for hex
  by unfold_locales
    (erule store_ok_page, erule rows_ok_sorted [OF query_rows_ok(1)], erule (1) query_range(1), simp add: channel_assertions_def,
      erule (1) rows_grow(1), erule (1) store_grows_ok, erule (1) rtranclp_trans)

interpretation obj_list: paged_table "object_rows hex" "object_assertions hex" page_size store_ok store_grows for hex
  by unfold_locales
    (erule store_ok_page, erule rows_ok_sorted [OF query_rows_ok(2)], erule (1) query_range(2), simp add: object_assertions_def,
      erule (1) rows_grow(2), erule (1) store_grows_ok, erule (1) rtranclp_trans)

interpretation adv_list: paged_table advertised_rows advertised_channels page_size store_ok store_grows
  by unfold_locales
    (erule store_ok_page, erule rows_ok_sorted [OF query_rows_ok(3)], erule (1) query_range(3), simp add: advertised_channels_def,
      erule (1) rows_grow(3), erule (1) store_grows_ok, erule (1) rtranclp_trans)

section \<open>Properties\<close>

text \<open>C18: a client that follows the \<open>next\<close> cursors of a channel listing, while the store may grow between
  its requests, ends within one request more than there are rows, and returns every assertion of
  the channel that was stored when it started, in order and without repetition, followed by some
  of those added meanwhile.\<close>
theorem channel_crawl_complete:
  assumes "sorted_wrt store_grows ss" "ss \<noteq> []" "store_ok (hd ss)" "length (channel_rows hex (last ss)) < length ss"
  shows "\<exists>items. crawl (channel_assertions hex) 0 ss = Some items \<and>
    prefix (map snd (channel_rows hex (hd ss))) items \<and> prefix items (map snd (channel_rows hex (last ss)))"
  by (rule chan_list.crawl_complete [OF assms])

theorem channel_crawl_complete_witness:
  "\<exists>items. crawl (channel_assertions (lit ''aa'')) 0
      [new_store 1, snd (add 3 0 (lit ''x'') [1] (lit ''pointer'') [] (Some (lit ''sha256:aa'')) None (new_store 1))] = Some items \<and>
    prefix (map snd (channel_rows (lit ''aa'') (new_store 1))) items \<and>
    prefix items (map snd (channel_rows (lit ''aa'')
      (snd (add 3 0 (lit ''x'') [1] (lit ''pointer'') [] (Some (lit ''sha256:aa'')) None (new_store 1)))))"
proof -
  let ?s = "snd (add 3 0 (lit ''x'') [1] (lit ''pointer'') [] (Some (lit ''sha256:aa'')) None (new_store 1))"
  have "store_step (new_store 1) ?s" by (rule added) (simp_all add: new_store_def)
  then have g: "sorted_wrt store_grows [new_store 1, ?s]" by auto
  have "length (channel_rows (lit ''aa'') ?s) \<le> length (assertions ?s)" by (simp add: channel_rows_def)
  also have "\<dots> = 1" by (simp add: new_store_def add_def Let_def)
  finally have "length (channel_rows (lit ''aa'') (last [new_store 1, ?s])) < length [new_store 1, ?s]" by simp
  from channel_crawl_complete [OF g _ _ this] show ?thesis by (simp add: store_ok_new del: crawl.simps)
qed

text \<open>The listing of assertions about an object is complete under crawling in the same way.\<close>
theorem object_crawl_complete:
  assumes "sorted_wrt store_grows ss" "ss \<noteq> []" "store_ok (hd ss)" "length (object_rows hex (last ss)) < length ss"
  shows "\<exists>items. crawl (object_assertions hex) 0 ss = Some items \<and>
    prefix (map snd (object_rows hex (hd ss))) items \<and> prefix items (map snd (object_rows hex (last ss)))"
  by (rule obj_list.crawl_complete [OF assms])

theorem object_crawl_complete_witness:
  "\<exists>items. crawl (object_assertions (lit ''aa'')) 0 [new_store 1] = Some items \<and>
    prefix (map snd (object_rows (lit ''aa'') (new_store 1))) items \<and> prefix items (map snd (object_rows (lit ''aa'') (new_store 1)))"
proof -
  have "length (object_rows (lit ''aa'') (last [new_store 1])) < length [new_store 1]" by (simp add: new_store_def object_rows_def)
  from object_crawl_complete [OF _ _ _ this] show ?thesis by (simp add: store_ok_new del: crawl.simps)
qed

text \<open>C19: the directory of advertised channels lists exactly the channel assertions, and a crawl of it is
  complete in the same way.\<close>
theorem directory_crawl_complete:
  assumes "sorted_wrt store_grows ss" "ss \<noteq> []" "store_ok (hd ss)" "length (advertised_rows (last ss)) < length ss"
  shows "\<exists>items. crawl advertised_channels 0 ss = Some items \<and>
    prefix (map rid (filter (\<lambda>r. rtype r = lit ''channel'') (assertions (hd ss)))) items \<and>
    prefix items (map rid (filter (\<lambda>r. rtype r = lit ''channel'') (assertions (last ss))))"
proof -
  have "store_ok (last ss)" using assms(1-3) store_grows_ok [of "hd ss" "last ss"] by (cases ss) auto
  then show ?thesis
    using adv_list.crawl_complete [OF assms] assms(3) by (simp add: advertised_rows_eq o_def)
qed

theorem directory_crawl_complete_witness:
  "\<exists>items. crawl advertised_channels 0 [new_store 1] = Some items \<and>
    prefix (map rid (filter (\<lambda>r. rtype r = lit ''channel'') (assertions (new_store 1)))) items \<and>
    prefix items (map rid (filter (\<lambda>r. rtype r = lit ''channel'') (assertions (new_store 1))))"
proof -
  have "length (advertised_rows (last [new_store 1])) < length [new_store 1]" by (simp add: new_store_def advertised_rows_def)
  from directory_crawl_complete [OF _ _ _ this] show ?thesis by (simp add: store_ok_new del: crawl.simps)
qed

end
