(* ===== verification/Server.thy ===== *)
theory Server
  imports Revalidation Paging
begin

text \<open>
  \<^verbatim>\<open>implementations/relay/server.py\<close>: the durable relay's request handlers and its configuration.

  A \<open>request\<close> holds what the HTTP layer has parsed: the path of the target, the first \<^verbatim>\<open>cursor\<close> query
  value, the three headers the handlers read, and the bytes that follow the headers. A handler's
  outcome is a reply, or the exception that escapes it. \<^verbatim>\<open>_send\<close> gets bytes or a value to be dumped
  as JSON; the reply keeps the value, and the theory \<open>Http_Send\<close> writes it. Logging and threads are I/O.
\<close>

section \<open>Text helpers\<close>

definition lower :: "pystr \<Rightarrow> pystr" where
  "lower s = map (\<lambda>c. if 65 \<le> c \<and> c \<le> 90 then c + 32 else c) s"

definition py_space :: "nat \<Rightarrow> bool" where
  "py_space c = (9 \<le> c \<and> c \<le> 13 \<or> 28 \<le> c \<and> c \<le> 32 \<or> c = 0x85 \<or> c = 0xA0)"

fun split_on :: "nat \<Rightarrow> pystr \<Rightarrow> pystr list" where
  "split_on x [] = [[]]"
| "split_on x (c # s) =
     (if c = x then [] # split_on x s
      else case split_on x s of p # ps \<Rightarrow> (c # p) # ps | [] \<Rightarrow> [[c]])"

text \<open>\<^verbatim>\<open>json.dumps\<close> of a string, ASCII only.\<close>

definition dumps_char :: "nat \<Rightarrow> pystr" where
  "dumps_char c =
     (if c = 34 \<or> c = 92 then [92, c]
      else if c = 8 then [92, ch CHR ''b''] else if c = 12 then [92, ch CHR ''f'']
      else if c = 10 then [92, ch CHR ''n''] else if c = 13 then [92, ch CHR ''r'']
      else if c = 9 then [92, ch CHR ''t'']
      else if 32 \<le> c \<and> c \<le> 126 then [c]
      else concat (map (\<lambda>u. [92, ch CHR ''u''] @ fmt_hex 4 u) (utf16_units c)))"

definition dumps_str :: "pystr \<Rightarrow> bytes" where
  "dumps_str s = map of_nat ([34] @ concat (map dumps_char s) @ [34])"

section \<open>Configuration record\<close>

record config =
  host :: pystr
  port :: int
  db :: pystr
  page_size_cfg :: int
  pow_multiplier :: int
  max_record_bytes :: int
  max_locators :: int
  max_locator_bytes :: int
  max_parents :: int
  block_actor :: pystr
  block_channel :: pystr
  bootstrap_channels :: "pystr list"

definition default_config :: config where
  "default_config = \<lparr>host = lit ''127.0.0.1'', port = 18760, db = lit ''./relay.sqlite3'', page_size_cfg = 32,
     pow_multiplier = 1, max_record_bytes = 65536, max_locators = 256, max_locator_bytes = 8192,
     max_parents = 1024, block_actor = [], block_channel = [], bootstrap_channels = []\<rparr>"

section \<open>Requests and replies\<close>

record request =
  path :: pystr
  cursor_query :: "pystr option"
  content_encoding :: "pystr option"
  content_type :: "pystr option"
  content_length :: "pystr option"
  stream :: bytes

datatype rbody = BBytes bytes | BJson pyval

record reply =
  status :: nat
  body :: rbody

datatype outcome = Raised exn | Replied reply

text \<open>A reply as it goes to the socket: the status line, the two headers and the body.\<close>

record http_reply =
  rp_status :: nat
  rp_type :: string
  rp_length :: pystr
  rp_body :: bytes

definition send :: "nat \<Rightarrow> rbody \<Rightarrow> reply" where
  "send code b = \<lparr>status = code, body = b\<rparr>"

definition err :: "nat \<Rightarrow> string \<Rightarrow> string \<Rightarrow> reply" where
  "err code token message =
     send code (BJson (PDict [(lit ''error'', PStr (lit token)), (lit ''message'', PStr (lit message))]))"

definition reply_if :: "bool \<Rightarrow> reply \<Rightarrow> outcome + unit" where
  "reply_if b r = (if b then Inl (Replied r) else Inr ())"

definition lift_exn :: "exn + 'a \<Rightarrow> outcome + 'a" where
  "lift_exn m = (case m of Inl e \<Rightarrow> Inl (Raised e) | Inr x \<Rightarrow> Inr x)"

lemma reply_if_eq_Inr [res_simps]: "reply_if b r = Inr u \<longleftrightarrow> \<not> b"
  by (simp add: reply_if_def)

lemma lift_exn_eq_Inr [res_simps]: "lift_exn m = Inr x \<longleftrightarrow> m = Inr x"
  by (simp add: lift_exn_def split: sum.splits)

section \<open>Local policy\<close>

definition local_work_ok :: "pystr \<Rightarrow> nat \<Rightarrow> int \<Rightarrow> exn + bool" where
  "local_work_ok ident units multiplier =
     (let h = int (nat_of_hex (drop 7 ident)); q = int (units * UNIT_SCALE) * multiplier in
      if q = 0 then Inl ZeroDivisionError else Inr (h \<le> int MAX_H div q))"

definition reference_locators :: "obj \<Rightarrow> pyval list" where
  "reference_locators u =
     (case (if dget u (lit ''type'') = Some (PStr (lit ''pointer'')) then dget u (lit ''ref'') else dget u (lit ''descriptor'')) of
         Some (PDict r) \<Rightarrow> (case dget r (lit ''locators'') of Some (PList ls) \<Rightarrow> ls | _ \<Rightarrow> [])
       | _ \<Rightarrow> [])"

definition list_body :: "bytes \<Rightarrow> pystr option \<Rightarrow> bytes" where
  "list_body items nxt =
     asc [CHR 0x7B, CHR 0x22] @ asc ''items'' @ asc [CHR 0x22, CHR 0x3A] @ items @
     asc [CHR 0x2C, CHR 0x22] @ asc ''next'' @ asc [CHR 0x22, CHR 0x3A] @
     (case nxt of None \<Rightarrow> asc ''null'' | Some t \<Rightarrow> dumps_str t) @ asc [CHR 0x7D]"

section \<open>GET\<close>

definition hex64_match :: "pystr \<Rightarrow> bool" where
  "hex64_match s = (length s = 64 \<and> list_all is_lower_hex s)"

definition manifest :: "config \<Rightarrow> pyval" where
  "manifest cfg = PDict
     [(lit ''v'', PInt 1), (lit ''submit'', PStr (lit ''/v1/assertions'')),
      (lit ''channels'', PStr (lit ''/v1/channels'')),
      (lit ''assertion'', PStr (lit ''/v1/assertions/sha256/{hex}'')),
      (lit ''channel'', PStr (lit ''/v1/channels/sha256/{hex}/assertions'')),
      (lit ''object'', PStr (lit ''/v1/objects/sha256/{hex}/assertions'')),
      (lit ''bootstrap_channels'', PList (map PStr (bootstrap_channels cfg))),
      (lit ''policy'', PDict
        [(lit ''pow_multiplier'', PInt (pow_multiplier cfg)), (lit ''max_record_bytes'', PInt (max_record_bytes cfg)),
         (lit ''max_locators'', PInt (max_locators cfg)), (lit ''max_locator_bytes'', PInt (max_locator_bytes cfg)),
         (lit ''max_parents'', PInt (max_parents cfg))])]"

definition not_found :: reply where
  "not_found = err 404 ''not_found'' ''route''"

definition bracketed :: "bytes list \<Rightarrow> bytes" where
  "bracketed items = asc [CHR 0x5B] @ join (asc [CHR 0x2C]) items @ asc [CHR 0x5D]"

definition get_listing :: "pystr \<Rightarrow> (pystr \<Rightarrow> exn + (bytes list \<times> pystr option)) \<Rightarrow> exn + reply" where
  "get_listing hex query =
     (if \<not> hex64_match hex then Inr not_found
      else bindr (query hex) (\<lambda>(blobs, nxt). Inr (send 200 (BBytes (list_body (bracketed blobs) nxt)))))"

definition route_GET :: "int \<Rightarrow> pystr \<Rightarrow> store \<Rightarrow> exn + reply" where
  "route_GET after p st =
     (let parts = split_on (ch CHR ''/'') (strip_by (\<lambda>c. c = ch CHR ''/'') p) in
      if take 3 parts = map lit [''v1'', ''assertions'', ''sha256''] \<and> length parts = 4 then
        (if \<not> hex64_match (parts ! 3) then Inr not_found
         else case get_assertion (parts ! 3) st of
             None \<Rightarrow> Inr (err 404 ''not_found'' ''unknown assertion'')
           | Some blob \<Rightarrow> Inr (send 200 (BBytes blob)))
      else if take 3 parts = map lit [''v1'', ''channels'', ''sha256''] \<and> length parts = 5 \<and> parts ! 4 = lit ''assertions'' then
        get_listing (parts ! 3) (\<lambda>hex. channel_assertions hex after st)
      else if take 3 parts = map lit [''v1'', ''objects'', ''sha256''] \<and> length parts = 5 \<and> parts ! 4 = lit ''assertions'' then
        get_listing (parts ! 3) (\<lambda>hex. object_assertions hex after st)
      else Inr not_found)"

definition do_GET :: "config \<Rightarrow> request \<Rightarrow> store \<Rightarrow> exn + reply" where
  "do_GET cfg req st =
     (case (case cursor_query req of None \<Rightarrow> Inr 0 | Some c \<Rightarrow> decode_cursor c) of
         Inl (BadCursor m) \<Rightarrow> Inr (err 400 ''bad_cursor'' m)
       | Inl e \<Rightarrow> Inl e
       | Inr after \<Rightarrow>
           if path req = lit ''/.well-known/spp'' then Inr (send 200 (BJson (manifest cfg)))
           else if path req = lit ''/v1/channels'' then
             bindr (advertised_channels after st) (\<lambda>(ids, nxt).
               Inr (send 200 (BBytes (list_body (bracketed (map dumps_str ids)) nxt))))
           else route_GET after (path req) st)"

section \<open>POST\<close>

definition header :: "pystr option \<Rightarrow> pystr" where
  "header h = (case h of None \<Rightarrow> [] | Some s \<Rightarrow> s)"

text \<open>Lines 199 to 215: the transport checks and the body.\<close>

definition read_body :: "config \<Rightarrow> request \<Rightarrow> outcome + bytes" where
  "read_body cfg req =
     bindr (reply_if (path req \<noteq> lit ''/v1/assertions'') not_found) (\<lambda>_.
     let enc = header (content_encoding req) in
     bindr (reply_if (enc \<noteq> [] \<and> lower enc \<noteq> lit ''identity'') (err 400 ''bad_encoding'' ''non-identity Content-Encoding'')) (\<lambda>_.
     let ctype = lower (strip_by py_space (takeWhile (\<lambda>c. c \<noteq> ch CHR '';'') (header (content_type req)))) in
     bindr (reply_if (ctype \<noteq> lit ''application/json'' \<and> ctype \<noteq> lit ''application/spp+json'') (err 400 ''bad_type'' ''Content-Type'')) (\<lambda>_.
     bindr (case py_int (if header (content_length req) = [] then lit ''0'' else header (content_length req)) of
         Inl _ \<Rightarrow> Inl (Replied (err 400 ''bad_length'' ''Content-Length'')) | Inr n \<Rightarrow> Inr n) (\<lambda>n.
     bindr (reply_if (n < 0 \<or> max_record_bytes cfg < n) (err 400 ''too_large'' ''max_record_bytes'')) (\<lambda>_.
     let b = take (nat n) (stream req) in
     bindr (reply_if (max_record_bytes cfg < int (length b)) (err 400 ''too_large'' ''max_record_bytes'')) (\<lambda>_.
       Inr b))))))"

text \<open>Lines 217 to 222: validation and its error replies.\<close>

definition judge :: "bytes \<Rightarrow> outcome + vinfo" where
  "judge b = (case validate_bytes b of
       Inr info \<Rightarrow> Inr info
     | Inl (UnsupportedError stage reason) \<Rightarrow> Inl (Replied (err 400 ''unsupported_assertion'' reason))
     | Inl (SppError stage reason) \<Rightarrow> Inl (Replied (err 400 ''invalid_assertion'' (stage @ '':'' @ reason)))
     | Inl e \<Rightarrow> Inl (Raised e))"

text \<open>\<^verbatim>\<open>str(env.get(k, ""))\<close>; the schema has established that a member present is a string.\<close>

definition text_member :: "obj \<Rightarrow> string \<Rightarrow> pystr" where
  "text_member d k = (case dget d (lit k) of Some (PStr s) \<Rightarrow> s | _ \<Rightarrow> [])"

definition utf8_len :: "pyval \<Rightarrow> exn + nat" where
  "utf8_len v = (case v of PStr s \<Rightarrow> bindr (utf8_encode s) (\<lambda>b. Inr (length b)) | _ \<Rightarrow> Inl TypeError)"

primrec any_longer :: "int \<Rightarrow> pyval list \<Rightarrow> exn + bool" where
  "any_longer m [] = Inr False"
| "any_longer m (v # vs) = bindr (utf8_len v) (\<lambda>n. if m < int n then Inr True else any_longer m vs)"

text \<open>Lines 230 to 247: the policy of this relay.\<close>

definition policy :: "config \<Rightarrow> obj \<Rightarrow> vinfo \<Rightarrow> outcome + unit" where
  "policy cfg env info =
     bindr (reply_if (block_actor cfg \<noteq> [] \<and> text_member env ''actor'' = block_actor cfg) (err 403 ''policy'' ''actor blocked'')) (\<lambda>_.
     bindr (reply_if (block_channel cfg \<noteq> [] \<and> text_member env ''channel'' = block_channel cfg) (err 403 ''policy'' ''channel blocked'')) (\<lambda>_.
     bindr (lift_exn (local_work_ok (vid info) (vunits info) (pow_multiplier cfg))) (\<lambda>ok.
     bindr (reply_if (\<not> ok) (err 403 ''policy'' ''local proof-of-work multiplier'')) (\<lambda>_.
     let u = reconstruct_u env; locators = reference_locators u in
     bindr (reply_if (max_locators cfg < int (length locators)) (err 403 ''policy'' ''max_locators'')) (\<lambda>_.
     bindr (lift_exn (any_longer (max_locator_bytes cfg) locators)) (\<lambda>long.
     bindr (reply_if long (err 403 ''policy'' ''max_locator_bytes'')) (\<lambda>_.
     reply_if (case dget u (lit ''parents'') of Some (PList ps) \<Rightarrow> max_parents cfg < int (length ps) | _ \<Rightarrow> False)
       (err 403 ''policy'' ''max_parents''))))))))"

definition as_text :: "pyval \<Rightarrow> exn + pystr" where
  "as_text v = (case v of PStr s \<Rightarrow> Inr s | _ \<Rightarrow> Inl TypeError)"

text \<open>Lines 248 to 254: the index columns \<^verbatim>\<open>type\<close>, \<^verbatim>\<open>channel\<close> and \<^verbatim>\<open>object_hash\<close>.\<close>

definition index_columns :: "obj \<Rightarrow> pystr \<Rightarrow> exn + (pystr \<times> pystr \<times> pystr option)" where
  "index_columns u ident =
     bindr (bindr (getitem u ''type'') as_text) (\<lambda>t.
     if t = lit ''channel'' then
       bindr (case dget u (lit ''descriptor'') of
           Some (PDict r) \<Rightarrow> bindr (bindr (getitem r ''hash'') as_text) (\<lambda>h. Inr (Some h))
         | _ \<Rightarrow> Inr None) (\<lambda>h. Inr (t, ident, h))
     else
       bindr (bindr (getitem u ''channel'') as_text) (\<lambda>c.
       bindr (bindr (bindr (getitem u ''ref'') (\<lambda>r. subscript r ''hash'')) as_text) (\<lambda>h.
         Inr (t, c, Some h))))"

text \<open>Everything up to the insertion: the validated body, its envelope, canonical bytes and columns.\<close>

record accepted =
  a_info :: vinfo
  a_canonical :: bytes
  a_actor :: pystr
  a_type :: pystr
  a_channel :: pystr
  a_object :: "pystr option"

definition admit_valid :: "config \<Rightarrow> bytes \<Rightarrow> vinfo \<Rightarrow> outcome + accepted" where
  "admit_valid cfg b info =
     bindr (lift_exn (parse_object b)) (\<lambda>env.
     bindr (lift_exn (canonicalize_bytes (PDict env))) (\<lambda>canonical.
     bindr (policy cfg env info) (\<lambda>_.
     bindr (lift_exn (index_columns (reconstruct_u env) (vid info))) (\<lambda>(t, c, h).
       Inr \<lparr>a_info = info, a_canonical = canonical, a_actor = text_member env ''actor'', a_type = t,
         a_channel = c, a_object = h\<rparr>))))"

definition admit :: "config \<Rightarrow> request \<Rightarrow> outcome + accepted" where
  "admit cfg req = bindr (read_body cfg req) (\<lambda>b. bindr (judge b) (\<lambda>info. admit_valid cfg b info))"

definition do_POST :: "config \<Rightarrow> nat \<Rightarrow> int \<Rightarrow> request \<Rightarrow> store \<Rightarrow> store \<times> outcome" where
  "do_POST cfg rowid now req st =
     (case admit cfg req of
         Inl out \<Rightarrow> (st, out)
       | Inr a \<Rightarrow>
           let (inserted, st') = add rowid now (vid (a_info a)) (a_canonical a) (a_type a) (a_actor a)
                 (Some (a_channel a)) (a_object a) st
           in (st', Replied (send 200 (BJson (PDict
                [(lit ''id'', PStr (vid (a_info a))), (lit ''duplicate'', PBool (\<not> inserted))])))))"

section \<open>Start-up\<close>

text \<open>\<^verbatim>\<open>_pairs_no_duplicates\<close>: the hook that builds every object of the configuration file.\<close>

fun pairs_no_duplicates :: "obj \<Rightarrow> obj \<Rightarrow> exn + obj" where
  "pairs_no_duplicates out [] = Inr out"
| "pairs_no_duplicates out ((k, v) # ps) =
     (if dhas out k then Inl (ConfigError ''duplicate config key'')
      else pairs_no_duplicates (dset out k v) ps)"

fun check_bootstrap :: "pystr list \<Rightarrow> pyval list \<Rightarrow> exn + pystr list" where
  "check_bootstrap seen [] = Inr seen"
| "check_bootstrap seen (c # cs) = (case c of
       PStr s \<Rightarrow>
         if \<not> sha256_id_match s then Inl (ConfigError ''not a sha256:<64hex> identifier'')
         else if s \<in> set seen then Inl (ConfigError ''duplicate bootstrap channel'')
         else check_bootstrap (seen @ [s]) cs
     | _ \<Rightarrow> Inl (ConfigError ''not a sha256:<64hex> identifier''))"

text \<open>\<^verbatim>\<open>load_config_file\<close> from the parsed document on (line 301).\<close>

definition load_config :: "pyval \<Rightarrow> exn + pystr list" where
  "load_config doc = (case doc of
       PDict d \<Rightarrow>
         bindr (raise_if (\<not> list_all (\<lambda>p. fst p = lit ''bootstrap_channels'' \<or> fst p = lit ''_comment'') d) (ConfigError ''unknown config key(s)'')) (\<lambda>_.
         bindr (raise_if (case dget d (lit ''_comment'') of None \<Rightarrow> False | Some (PStr _) \<Rightarrow> False | Some _ \<Rightarrow> True) (ConfigError ''_comment must be a string'')) (\<lambda>_.
         case dget d (lit ''bootstrap_channels'') of
             None \<Rightarrow> Inr []
           | Some (PList cs) \<Rightarrow> check_bootstrap [] cs
           | Some _ \<Rightarrow> Inl (ConfigError ''bootstrap_channels must be an array'')))
     | _ \<Rightarrow> Inl (ConfigError ''config root must be a JSON object''))"

definition env_int :: "pystr pydict \<Rightarrow> string \<Rightarrow> int \<Rightarrow> exn + int" where
  "env_int env name dflt = (case dget env (lit name) of Some s \<Rightarrow> int_text s | None \<Rightarrow> Inr dflt)"

definition env_str :: "pystr pydict \<Rightarrow> string \<Rightarrow> string \<Rightarrow> pystr" where
  "env_str env name dflt = (case dget env (lit name) of Some s \<Rightarrow> s | None \<Rightarrow> lit dflt)"

definition local_limit :: "pystr pydict \<Rightarrow> string \<Rightarrow> int \<Rightarrow> exn + int" where
  "local_limit env name proto_max = bindr (env_int env name proto_max) (\<lambda>n. Inr (max 0 (min n proto_max)))"

text \<open>
  The command line after \<^verbatim>\<open>argparse\<close>: an option given, or \<open>None\<close> for the default taken from the
  environment. The configuration file, when named, is given by its parsed document.
\<close>

record arguments =
  arg_host :: "pystr option"
  arg_port :: "int option"
  arg_db :: "pystr option"
  arg_page_size :: "int option"
  arg_config :: "(exn + pyval) option"

definition build_config :: "pystr pydict \<Rightarrow> arguments \<Rightarrow> exn + config" where
  "build_config env args =
     bindr (env_int env ''SPP_PORT'' 18760) (\<lambda>dport.
     bindr (env_int env ''SPP_PAGE_SIZE'' 32) (\<lambda>dpage.
     bindr (case arg_config args of
         None \<Rightarrow> Inr []
       | Some doc \<Rightarrow> (case bindr doc load_config of
             Inl (ConfigError m) \<Rightarrow> Inl (SystemExit m) | Inl e \<Rightarrow> Inl e | Inr cs \<Rightarrow> Inr cs)) (\<lambda>boot.
     bindr (env_int env ''SPP_POW_MULTIPLIER'' 1) (\<lambda>mult.
     bindr (env_int env ''SPP_MAX_RECORD_BYTES'' 65536) (\<lambda>rec_bytes.
     bindr (local_limit env ''SPP_MAX_LOCATORS'' 256) (\<lambda>ml.
     bindr (local_limit env ''SPP_MAX_LOCATOR_BYTES'' 8192) (\<lambda>mlb.
     bindr (local_limit env ''SPP_MAX_PARENTS'' 1024) (\<lambda>mp.
       Inr \<lparr>host = (case arg_host args of Some h \<Rightarrow> h | None \<Rightarrow> env_str env ''SPP_HOST'' ''127.0.0.1''),
         port = (case arg_port args of Some p \<Rightarrow> p | None \<Rightarrow> dport),
         db = (case arg_db args of Some d \<Rightarrow> d | None \<Rightarrow> env_str env ''SPP_DB'' ''./relay.sqlite3''),
         page_size_cfg = max 1 (case arg_page_size args of Some p \<Rightarrow> p | None \<Rightarrow> dpage),
         pow_multiplier = max 1 mult, max_record_bytes = rec_bytes, max_locators = ml,
         max_locator_bytes = mlb, max_parents = mp, block_actor = env_str env ''SPP_BLOCK_ACTOR'' [],
         block_channel = env_str env ''SPP_BLOCK_CHANNEL'' [], bootstrap_channels = boot\<rparr>))))))))"

text \<open>
  \<^verbatim>\<open>_find_verifier_dir\<close>: where the verifier's modules are. A path is the list of its components from the
  root; the file system says what a path resolves to, if anything, and which paths are files.
\<close>

fun path_parents :: "pystr list \<Rightarrow> pystr list list" where
  "path_parents p = (if p = [] then [] else butlast p # path_parents (butlast p))"

declare path_parents.simps [simp del]

definition verifier_candidates :: "pystr list \<Rightarrow> pystr list list" where
  "verifier_candidates here = [here, butlast here] @
     concat (map (\<lambda>base. [base @ [lit ''implementations'', lit ''python''], base @ [lit ''python'']]) (here # path_parents here))"

definition holds_verifier :: "(pystr list \<Rightarrow> bool) \<Rightarrow> pystr list \<Rightarrow> bool" where
  "holds_verifier is_file d = (is_file (d @ [lit ''jcs.py'']) \<and> is_file (d @ [lit ''protocol.py'']))"

fun search_verifier :: "(pystr list \<Rightarrow> pystr list option) \<Rightarrow> (pystr list \<Rightarrow> bool) \<Rightarrow> pystr list list \<Rightarrow> pystr list list \<Rightarrow> pystr list option" where
  "search_verifier resolve is_file seen [] = None"
| "search_verifier resolve is_file seen (c # cs) = (case resolve c of
       None \<Rightarrow> search_verifier resolve is_file seen cs
     | Some d \<Rightarrow>
         if d \<in> set seen then search_verifier resolve is_file seen cs
         else if holds_verifier is_file d then Some d
         else search_verifier resolve is_file (d # seen) cs)"

definition find_verifier_dir :: "(pystr list \<Rightarrow> pystr list option) \<Rightarrow> (pystr list \<Rightarrow> bool) \<Rightarrow> pystr list \<Rightarrow> pystr list option" where
  "find_verifier_dir resolve is_file here = search_verifier resolve is_file [] (verifier_candidates here)"

text \<open>Skipping what was seen loses nothing: the result is the first candidate that resolves to a directory with both modules.\<close>

lemma search_verifier_first:
  "\<forall>d\<in>set seen. \<not> holds_verifier is_file d \<Longrightarrow>
   search_verifier resolve is_file seen cs = List.find (holds_verifier is_file) (List.map_filter resolve cs)"
  by (induction cs arbitrary: seen) (auto simp: map_filter_simps split: option.split)

lemma find_verifier_dir_first:
  "find_verifier_dir resolve is_file here =
   List.find (holds_verifier is_file) (List.map_filter resolve (verifier_candidates here))"
  by (simp add: find_verifier_dir_def search_verifier_first)

text \<open>\<^verbatim>\<open>main\<close>: the handler's configuration and the store it opens on a fresh database.\<close>

definition start_relay :: "pystr pydict \<Rightarrow> arguments \<Rightarrow> exn + (config \<times> store)" where
  "start_relay env args = bindr (build_config env args) (\<lambda>cfg. Inr (cfg, new_store (page_size_cfg cfg)))"

end
