(* ===== verification/Server_Facts.thy ===== *)
theory Server_Facts
  imports Server
begin

text \<open>
  What the relay guarantees: a submission is refused with an error reply and no effect, or it is
  validated, admitted by local policy and stored canonically; every envelope ever stored
  revalidates to its own identifier and is indexed by its own members; what was accepted is served.
  Handlers run concurrently, but a submission reads the store only in the single transaction of
  \<open>add\<close>, so every interleaving is a sequence of \<open>do_POST\<close> steps.
\<close>

section \<open>Validated submissions\<close>

lemma validate_bytes_Inr:
  assumes "validate_bytes b = Inr info"
  obtains d where "parse_object b = Inr d" "valid_envelope d info" "json_val (PDict d)"
proof -
  obtain d where "parse_object b = Inr d" "validate_object d = Inr info"
    using assms by (auto simp: validate_bytes_def split: sum.splits exn.splits)
  then show ?thesis using that parse_object_json validate_iff by blast
qed

lemma judge_eq_Inr: "judge b = Inr info \<longleftrightarrow> validate_bytes b = Inr info"
  by (auto simp: judge_def split: sum.splits exn.splits)

definition refusal :: "outcome \<Rightarrow> bool" where
  "refusal out = (\<exists>code t m. out = Replied (err code t m) \<and> code \<in> {400, 403, 404})"

lemma refusal_err [simp]: "code \<in> {400, 403, 404} \<Longrightarrow> refusal (Replied (err code t m))"
  unfolding refusal_def by blast

lemma status_err [simp]: "status (err code t m) = code"
  by (simp add: err_def send_def)

lemma refusal_status: "refusal out \<Longrightarrow> \<exists>r. out = Replied r \<and> status r \<in> {400, 403, 404}"
  unfolding refusal_def by force

lemma refusal_not_found [simp]: "refusal (Replied not_found)"
  by (simp add: not_found_def)

lemma judge_refuses: "judge b = Inl out \<Longrightarrow> refusal out"
  using spp_only_validate_bytes [of b]
  by (auto simp: judge_def spp_only_def spp_error_def split: sum.splits exn.splits)

definition refuses :: "outcome + 'a \<Rightarrow> bool" where
  "refuses m = (\<forall>out. m = Inl out \<longrightarrow> refusal out)"

lemma refuses_simps [simp]:
  "refuses (Inr x)" "refuses (reply_if b r) = (b \<longrightarrow> refusal (Replied r))" "refuses (Inl out) = refusal out"
  "refuses (lift_exn (Inr x))"
  by (auto simp: refuses_def reply_if_def lift_exn_def)

lemma refuses_bindr: "refuses m \<Longrightarrow> (\<And>x. m = Inr x \<Longrightarrow> refuses (f x)) \<Longrightarrow> refuses (bindr m f)"
  by (cases m) (auto simp: refuses_def)

lemma read_body_refuses: "refuses (read_body cfg req)"
  unfolding read_body_def Let_def
  by (intro refuses_bindr) (auto split: sum.splits)

lemma read_body_Inr:
  "read_body cfg req = Inr b \<Longrightarrow> path req = lit ''/v1/assertions'' \<and> int (length b) \<le> max_record_bytes cfg \<and> prefix b (stream req)"
  by (auto simp: read_body_def Let_def res_simps take_is_prefix)

section \<open>Policy and index columns of a valid envelope\<close>

lemma reference_locators_ok:
  assumes "schema_ok u"
  shows "list_all locator_ok (reference_locators u)"
proof -
  have "list_all locator_ok (case v of Some (PDict r) \<Rightarrow> (case dget r (lit ''locators'') of Some (PList ls) \<Rightarrow> ls | _ \<Rightarrow> []) | _ \<Rightarrow> [])"
    if "v = None \<or> (\<exists>r. v = Some r \<and> ref_ok r)" for v
    using that by (auto simp: ref_ok_def list_all_iff)
  moreover have "(if dget u (lit ''type'') = Some (PStr (lit ''pointer'')) then dget u (lit ''ref'') else dget u (lit ''descriptor'')) = None \<or>
      (\<exists>r. (if dget u (lit ''type'') = Some (PStr (lit ''pointer'')) then dget u (lit ''ref'') else dget u (lit ''descriptor'')) = Some r \<and> ref_ok r)"
    using assms by (cases "dget u (lit ''descriptor'')") (auto simp: schema_ok_def pointer_ok_def channel_ok_def)
  ultimately show ?thesis unfolding reference_locators_def by blast
qed

lemma any_longer_ok: "list_all locator_ok vs \<Longrightarrow> any_longer m vs = Inr (list_ex (\<lambda>v. \<exists>s. v = PStr s \<and> m < int (length (utf8_bytes s))) vs)"
  by (induction vs) (auto simp: locator_ok_def utf8_len_def utf8_encode_def)

lemma valid_schema: "valid_envelope d info \<Longrightarrow> schema_ok (reconstruct_u d)"
  by (auto simp: valid_envelope_def)

lemma valid_units_pos: "valid_envelope d info \<Longrightarrow> 0 < vunits info"
  by (auto simp: valid_envelope_def)

lemma local_work_total: "1 \<le> m \<Longrightarrow> 0 < units \<Longrightarrow> local_work_ok ident units m = Inr (int (nat_of_hex (drop 7 ident)) \<le> int MAX_H div (int (units * UNIT_SCALE) * m))"
  by (auto simp: local_work_ok_def Let_def UNIT_SCALE_def)

lemma policy_refuses:
  assumes "valid_envelope d info" "1 \<le> pow_multiplier cfg"
  shows "refuses (policy cfg d info)"
  unfolding policy_def Let_def
  using any_longer_ok [OF reference_locators_ok [OF valid_schema [OF assms(1)]]]
    local_work_total [OF assms(2) valid_units_pos [OF assms(1)]]
  by (intro refuses_bindr) auto

lemma ref_hash: "ref_ok r \<Longrightarrow> \<exists>d h. r = PDict d \<and> dget d (lit ''hash'') = Some (PStr h) \<and> sha256_id_match h"
  by (auto simp: ref_ok_def id_ok_def)

lemma index_columns_ok:
  assumes "schema_ok u"
  shows "\<exists>t c h. index_columns u ident = Inr (t, c, h)"
proof -
  consider (p) "pointer_ok u" | (c) "channel_ok u" using assms by (auto simp: schema_ok_def)
  then show ?thesis
  proof cases
    case p
    then obtain r c where r: "dget u (lit ''ref'') = Some r" "ref_ok r" "dget u (lit ''channel'') = Some c" "id_ok c"
      by (auto simp: pointer_ok_def)
    then show ?thesis
      using p ref_hash [OF r(2)] by (auto simp: index_columns_def getitem_def as_text_def subscript_def pointer_ok_def id_ok_def)
  next
    case c
    then show ?thesis
      using ref_hash by (cases "dget u (lit ''descriptor'')")
        (fastforce simp: index_columns_def getitem_def as_text_def channel_ok_def)+
  qed
qed

lemma admit_valid_refuses:
  assumes "validate_bytes b = Inr info" "1 \<le> pow_multiplier cfg"
  shows "refuses (admit_valid cfg b info)"
proof -
  obtain d where d: "parse_object b = Inr d" "valid_envelope d info" "json_val (PDict d)"
    using validate_bytes_Inr [OF assms(1)] by blast
  obtain t c h where "index_columns (reconstruct_u d) (vid info) = Inr (t, c, h)"
    using index_columns_ok [OF valid_schema [OF d(2)]] by blast
  then show ?thesis
    unfolding admit_valid_def using d(1) canonicalize_bytes_eq [OF d(3)] policy_refuses [OF d(2) assms(2)]
    by (intro refuses_bindr) (auto simp: res_simps)
qed

lemma admit_refuses: "1 \<le> pow_multiplier cfg \<Longrightarrow> refuses (admit cfg req)"
  unfolding admit_def
  by (intro refuses_bindr read_body_refuses admit_valid_refuses)
    (auto simp: refuses_def judge_eq_Inr dest: judge_refuses)

lemma admit_Inr:
  assumes "admit cfg req = Inr a"
  obtains b d where "read_body cfg req = Inr b" "validate_bytes b = Inr (a_info a)" "parse_object b = Inr d"
    "canonicalize_bytes (PDict d) = Inr (a_canonical a)" "policy cfg d (a_info a) = Inr ()"
    "index_columns (reconstruct_u d) (vid (a_info a)) = Inr (a_type a, a_channel a, a_object a)"
    "a_actor a = text_member d ''actor''"
  using assms that by (auto simp: admit_def admit_valid_def res_simps judge_eq_Inr)

section \<open>What is stored\<close>

text \<open>
  A row holds the canonical bytes of a valid envelope, its identifier is the one they validate to,
  and its index columns are those of that envelope.
\<close>

definition row_ok :: "row \<Rightarrow> bool" where
  "row_ok r = (\<exists>d info c. parse_object (envelope r) = Inr d \<and> canonicalize_bytes (PDict d) = Inr (envelope r) \<and>
     validate_bytes (envelope r) = Inr info \<and> vid info = rid r \<and>
     index_columns (reconstruct_u d) (rid r) = Inr (rtype r, c, object_hash r) \<and> channel r = Some c \<and>
     actor r = text_member d ''actor'')"

lemma as_text_norm [simp]: "as_text (norm v) = as_text v"
  by (simp add: as_text_def case_norm)

lemma index_columns_norm:
  assumes j: "json_val (PDict u)"
  shows "index_columns (norm_obj u) ident = index_columns u ident"
proof -
  have wf: "wf_dict u" using j by (simp add: wf_dict_def)
  have ref: "bindr (getitem u ''ref'') (\<lambda>v. bindr (subscript (norm v) ''hash'') (\<lambda>x. bindr (as_text x) f)) =
      bindr (getitem u ''ref'') (\<lambda>v. bindr (subscript v ''hash'') (\<lambda>x. bindr (as_text x) f))"
    for f :: "pystr \<Rightarrow> exn + pystr \<times> pystr \<times> pystr option"
    by (rule bindr_cong_json [OF j]) (simp add: subscript_norm bindr_assoc)
  have desc: "(case map_option norm x of Some (PDict r) \<Rightarrow> bindr (getitem r ''hash'') (\<lambda>v. bindr (as_text v) f) | _ \<Rightarrow> z) =
      (case x of Some (PDict r) \<Rightarrow> bindr (getitem r ''hash'') (\<lambda>v. bindr (as_text v) f) | _ \<Rightarrow> z)"
    if "\<And>v. x = Some v \<Longrightarrow> json_val v" for x z and f :: "pystr \<Rightarrow> exn + pystr option"
  proof (cases x)
    case (Some v)
    then show ?thesis using that [OF Some]
      by (cases v) (simp_all add: norm_PDict getitem_norm wf_dict_def bindr_assoc del: norm.simps(2))
  qed simp
  note desc_u = desc [where x = "dget u k" for k, OF json_val_dget [OF j]]
  show ?thesis
    unfolding index_columns_def
    by (simp only: getitem_norm [OF wf] dget_norm_obj [OF wf] bindr_assoc bindr_simps as_text_norm ref desc_u)
qed

lemma text_member_norm: "wf_dict d \<Longrightarrow> text_member (norm_obj d) k = text_member d k"
  unfolding text_member_def by (simp only: dget_norm_obj get_norm)

lemma admitted_row_ok:
  assumes "admit cfg req = Inr a"
  shows "row_ok \<lparr>seq = n, rid = vid (a_info a), envelope = a_canonical a, rtype = a_type a, actor = a_actor a,
    channel = Some (a_channel a), object_hash = a_object a, accepted_at = t\<rparr>"
proof -
  obtain b d where a: "validate_bytes b = Inr (a_info a)" "parse_object b = Inr d"
    "canonicalize_bytes (PDict d) = Inr (a_canonical a)"
    "index_columns (reconstruct_u d) (vid (a_info a)) = Inr (a_type a, a_channel a, a_object a)"
    "a_actor a = text_member d ''actor''"
    using admit_Inr [OF assms] by metis
  note j = parse_object_json [OF a(2)]
  have p: "parse_object (a_canonical a) = Inr (norm_obj d)" "validate_bytes (a_canonical a) = Inr (a_info a)"
    using revalidate [OF a(2)] a by auto
  have "canonicalize_bytes (PDict (norm_obj d)) = Inr (a_canonical a)"
    using canonicalize_norm [OF j] a(3) by (simp add: norm_PDict del: norm.simps json_val.simps)
  moreover have "index_columns (reconstruct_u (norm_obj d)) (vid (a_info a)) = Inr (a_type a, a_channel a, a_object a)"
    using a(4) index_columns_norm [OF json_val_reconstruct [OF j]] by (simp add: reconstruct_norm)
  moreover have "text_member (norm_obj d) ''actor'' = a_actor a"
    using a(5) j by (simp add: text_member_norm wf_dict_def)
  ultimately show ?thesis using p by (auto simp: row_ok_def)
qed

inductive relay_reach :: "config \<Rightarrow> store \<Rightarrow> bool" for cfg where
  started: "relay_reach cfg (new_store (page_size_cfg cfg))"
| posted: "relay_reach cfg st \<Longrightarrow> last_seq st < n \<Longrightarrow> n < 2 ^ 63 \<Longrightarrow> relay_reach cfg (fst (do_POST cfg n t req st))"

lemma do_POST_store:
  "fst (do_POST cfg n t req st) = (case admit cfg req of Inl _ \<Rightarrow> st
     | Inr a \<Rightarrow> snd (add n t (vid (a_info a)) (a_canonical a) (a_type a) (a_actor a) (Some (a_channel a)) (a_object a) st))"
  by (auto simp: do_POST_def Let_def split: sum.splits prod.splits)

lemma do_POST_grows: "last_seq st < n \<Longrightarrow> n < 2 ^ 63 \<Longrightarrow> store_grows st (fst (do_POST cfg n t req st))"
  by (cases "admit cfg req") (simp_all add: do_POST_store added r_into_rtranclp)

lemma rows_ok_add:
  assumes "store_ok st" "\<forall>r\<in>set (assertions st). row_ok r"
    "row_ok \<lparr>seq = n, rid = ident, envelope = env, rtype = ty, actor = a, channel = c, object_hash = h, accepted_at = t\<rparr>"
  shows "\<forall>r\<in>set (assertions (snd (add n t ident env ty a c h st))). row_ok r"
proof (cases "ident \<in> rid ` set (assertions st)")
  case True
  then show ?thesis using assms(2) add_known [of _ ident st] by auto
next
  case False
  then show ?thesis using assms(2,3) unfolding add_new(2) [OF assms(1) False] by auto
qed

lemma relay_reach_ok: "relay_reach cfg st \<Longrightarrow> store_ok st \<and> (\<forall>r\<in>set (assertions st). row_ok r)"
proof (induction rule: relay_reach.induct)
  case started
  then show ?case by (simp add: store_ok_new) (simp add: new_store_def)
next
  case (posted st n t req)
  have "store_ok (fst (do_POST cfg n t req st))"
    using posted store_grows_ok do_POST_grows by blast
  moreover have "\<forall>r\<in>set (assertions (fst (do_POST cfg n t req st))). row_ok r"
  proof (cases "admit cfg req")
    case (Inr a)
    then show ?thesis using rows_ok_add [OF _ _ admitted_row_ok [OF Inr]] posted.IH unfolding do_POST_store Inr sum.case by blast
  qed (use posted.IH in \<open>simp add: do_POST_store\<close>)
  ultimately show ?case by simp
qed

section \<open>Serving an accepted assertion\<close>

lemma assertion_id_hex: "assertion_id jcs = lit ''sha256:'' @ bytes_hex (sha256 jcs)"
  by (simp add: assertion_id_def)

lemma hex64_sha: "hex64_match (bytes_hex (sha256 jcs))"
  by (simp add: hex64_match_def bytes_hex_lower)

lemma split_no_sep: "x \<notin> set s \<Longrightarrow> split_on x s = [s]"
  by (induction s) auto

lemma split_on_append: "x \<notin> set s \<Longrightarrow> split_on x (s @ x # r) = s # split_on x r"
  by (induction s) auto

definition assertion_path :: "pystr \<Rightarrow> pystr" where
  "assertion_path hex = lit ''/v1/assertions/sha256/'' @ hex"

lemma parts_assertion:
  assumes "hex64_match hex"
  shows "split_on 47 (strip_by (\<lambda>c. c = 47) (assertion_path hex)) = map lit [''v1'', ''assertions'', ''sha256''] @ [hex]"
proof -
  have h: "hex \<noteq> []" "47 \<notin> set hex" using assms by (auto simp: hex64_match_def list_all_iff is_lower_hex_def is_digit_def)
  then have "last hex \<noteq> 47" by (metis last_in_set)
  then have "dropWhile (\<lambda>c. c = 47) (rev (lit ''v1/assertions/sha256/'' @ hex)) = rev (lit ''v1/assertions/sha256/'' @ hex)"
    using h(1) by (simp add: dropWhile_eq_self_iff hd_append hd_rev)
  then have "strip_by (\<lambda>c. c = 47) (assertion_path hex) = lit ''v1/assertions/sha256/'' @ hex"
    by (simp add: strip_by_def assertion_path_def lit_Cons)
  also have "\<dots> = lit ''v1'' @ 47 # lit ''assertions'' @ 47 # lit ''sha256'' @ 47 # hex" by (simp add: lit_def)
  finally show ?thesis
    using h(2) by (simp add: split_on_append split_no_sep lit_def)
qed

lemma get_stored:
  assumes "hex64_match hex" "get_assertion hex st = Some e" "path req = assertion_path hex" "cursor_query req = None"
  shows "do_GET cfg req st = Inr (send 200 (BBytes e))"
  using assms parts_assertion [OF assms(1)]
  by (simp add: do_GET_def route_GET_def Let_def assertion_path_def lit_def)

lemma vid_hex: "valid_envelope d info \<Longrightarrow> \<exists>hex. vid info = lit ''sha256:'' @ hex \<and> hex64_match hex"
  by (auto simp: valid_envelope_def assertion_id_hex hex64_sha)

lemma row_after_add:
  assumes "store_ok st"
  shows "\<exists>r\<in>set (assertions (snd (add n t ident e ty a c h st))). rid r = ident"
proof (cases "ident \<in> rid ` set (assertions st)")
  case True
  then obtain r where "r \<in> set (assertions st)" "rid r = ident" by auto
  then show ?thesis using add_known [of r ident st] by auto
next
  case False
  then show ?thesis unfolding add_new(2) [OF assms False] by simp
qed

lemma row_served:
  assumes "store_ok st" "\<forall>r\<in>set (assertions st). row_ok r" "r \<in> set (assertions st)" "rid r = lit ''sha256:'' @ hex"
    "hex64_match hex" "path g = assertion_path hex" "cursor_query g = None"
  shows "\<exists>e info. do_GET cfg g st = Inr (send 200 (BBytes e)) \<and> validate_bytes e = Inr info \<and> vid info = rid r"
proof -
  have "get_assertion hex st = Some (envelope r)" using assms(1,3,4) by (auto simp: get_assertion_iff)
  then have "do_GET cfg g st = Inr (send 200 (BBytes (envelope r)))" by (rule get_stored [OF assms(5) _ assms(6,7)])
  moreover obtain info where "validate_bytes (envelope r) = Inr info" "vid info = rid r" using assms(2,3) by (auto simp: row_ok_def)
  ultimately show ?thesis by blast
qed

lemma do_POST_accepts:
  assumes "admit cfg req = Inr a" "store_ok st"
  defines "dup \<equiv> vid (a_info a) \<in> rid ` set (assertions st)"
  shows "snd (do_POST cfg n t req st) = Replied (send 200 (BJson (PDict [(lit ''id'', PStr (vid (a_info a))), (lit ''duplicate'', PBool dup)])))"
    "dup \<Longrightarrow> fst (do_POST cfg n t req st) = st"
    "\<exists>r\<in>set (assertions (fst (do_POST cfg n t req st))). rid r = vid (a_info a)"
proof -
  let ?ad = "add n t (vid (a_info a)) (a_canonical a) (a_type a) (a_actor a) (Some (a_channel a)) (a_object a) st"
  have st: "fst (do_POST cfg n t req st) = snd ?ad" by (simp add: do_POST_store assms(1))
  have d: "?ad = (False, st)" if dup using that add_known [of _ "vid (a_info a)" st] by (auto simp: dup_def)
  then show "dup \<Longrightarrow> fst (do_POST cfg n t req st) = st" by (simp add: st)
  have "fst ?ad = (\<not> dup)" using d add_new(1) [OF assms(2), of "vid (a_info a)"] by (cases dup) (simp_all add: dup_def)
  then show "snd (do_POST cfg n t req st) = Replied (send 200 (BJson (PDict [(lit ''id'', PStr (vid (a_info a))), (lit ''duplicate'', PBool dup)])))"
    by (auto simp: do_POST_def assms(1) Let_def split: prod.splits)
  show "\<exists>r\<in>set (assertions (fst (do_POST cfg n t req st))). rid r = vid (a_info a)"
    unfolding st by (rule row_after_add [OF assms(2)])
qed

definition sample_request :: request where
  "sample_request = \<lparr>path = lit ''/v1/assertions'', cursor_query = None, content_encoding = None,
     content_type = Some (lit ''application/json; charset=utf-8''), content_length = Some (lit ''2''), stream = [0x7B, 0x7D]\<rparr>"

lemma reach_sample: "relay_reach default_config (new_store 32)"
  using started [of default_config] by (simp add: default_config_def)

lemma fetch_page_error: "fetch_page ps after rows = Inl e \<longleftrightarrow> e = OverflowError \<and> 2 ^ 63 \<le> after"
  by (auto simp: fetch_page_def select_after_def bindr_eq_Inl split: if_splits prod.splits)

lemma do_GET_error:
  assumes "do_GET cfg req st = Inl e"
  shows "e = OverflowError \<and> (\<exists>c k. cursor_query req = Some c \<and> decode_cursor c = Inr k \<and> 2 ^ 63 \<le> k)"
proof -
  have list: "get_listing hex q = Inl e \<Longrightarrow> q hex = Inl e" for hex q
    by (auto simp: get_listing_def bindr_eq_Inl split: if_splits prod.splits)
  have cur: "decode_cursor c = Inl x \<Longrightarrow> \<exists>m. x = BadCursor m" for c x
    by (auto simp: decode_cursor_def split: if_splits sum.splits)
  obtain after where after: "(case cursor_query req of None \<Rightarrow> Inr 0 | Some c \<Rightarrow> decode_cursor c) = Inr after"
    using assms cur by (auto simp: do_GET_def split: option.splits sum.splits exn.splits)
  have "e = OverflowError \<and> 2 ^ 63 \<le> after"
    using assms unfolding do_GET_def after sum.case route_GET_def Let_def
    by (auto simp: bindr_eq_Inl fetch_page_error channel_assertions_def object_assertions_def advertised_channels_def
        split: if_splits option.splits prod.splits dest!: list)
  then show ?thesis using after by (auto split: option.splits)
qed

section \<open>Properties\<close>

text \<open>C22: every store the relay can reach from an empty database by any sequence of submissions satisfies
  the table invariant, and every row holds the canonical bytes of an envelope that validates to
  the row's identifier, with index columns taken from that envelope.\<close>
theorem stored_envelopes_revalidate:
  assumes "relay_reach cfg st"
  shows "store_ok st \<and> (\<forall>r\<in>set (assertions st). row_ok r)"
  by (rule relay_reach_ok [OF assms])

theorem stored_envelopes_revalidate_witness:
  "store_ok (fst (do_POST default_config 4 0 sample_request (new_store 32))) \<and>
     list_all row_ok (assertions (fst (do_POST default_config 4 0 sample_request (new_store 32))))"
  unfolding list_all_iff
  by (rule stored_envelopes_revalidate, rule posted [OF reach_sample]) (simp_all add: new_store_def)

text \<open>C23: a submission never raises. It is refused with status 400, 403 or 404 and leaves the store
  unchanged, or it is accepted with status 200: then the body validates, fits the record limit
  and passes local policy, the reply tells whether the identifier was already stored, a duplicate
  changes nothing, and a request for the assertion returns bytes that validate to that identifier.\<close>
theorem post_refuses_or_serves:
  assumes "relay_reach cfg st" "1 \<le> pow_multiplier cfg" "last_seq st < n" "n < 2 ^ 63"
  shows "case do_POST cfg n t req st of
      (st', Raised e) \<Rightarrow> False
    | (st', Replied r) \<Rightarrow> status r \<in> {400, 403, 404} \<and> st' = st \<or>
        (\<exists>b d info hex. read_body cfg req = Inr b \<and> int (length b) \<le> max_record_bytes cfg \<and>
           parse_object b = Inr d \<and> validate_bytes b = Inr info \<and> policy cfg d info = Inr () \<and>
           vid info = lit ''sha256:'' @ hex \<and> (vid info \<in> rid ` set (assertions st) \<longrightarrow> st' = st) \<and>
           r = send 200 (BJson (PDict [(lit ''id'', PStr (vid info)),
                 (lit ''duplicate'', PBool (vid info \<in> rid ` set (assertions st)))])) \<and>
           (\<forall>g. path g = assertion_path hex \<and> cursor_query g = None \<longrightarrow>
              (\<exists>e i. do_GET cfg g st' = Inr (send 200 (BBytes e)) \<and> validate_bytes e = Inr i \<and> vid i = vid info)))"
proof (cases "admit cfg req")
  case (Inl out)
  then obtain r where "out = Replied r" "status r \<in> {400, 403, 404}"
    using admit_refuses [OF assms(2), of req] refusal_status by (auto simp: refuses_def)
  then show ?thesis using Inl by (auto simp: do_POST_def)
next
  case (Inr a)
  let ?st = "fst (do_POST cfg n t req st)"
  have ok: "store_ok st" using relay_reach_ok [OF assms(1)] by simp
  have ok': "store_ok ?st" "\<forall>r\<in>set (assertions ?st). row_ok r"
    using relay_reach_ok [OF posted [OF assms(1,3,4)]] by simp_all
  note p = do_POST_accepts [OF Inr ok, where n = n and t = t]
  obtain b d where b: "read_body cfg req = Inr b" "validate_bytes b = Inr (a_info a)" "parse_object b = Inr d"
    "policy cfg d (a_info a) = Inr ()" using admit_Inr [OF Inr] by metis
  then obtain d' where "valid_envelope d' (a_info a)" using validate_bytes_Inr by blast
  then obtain hex where hex: "vid (a_info a) = lit ''sha256:'' @ hex" "hex64_match hex" using vid_hex by blast
  have get: "\<exists>e i. do_GET cfg g ?st = Inr (send 200 (BBytes e)) \<and> validate_bytes e = Inr i \<and> vid i = vid (a_info a)"
    if "path g = assertion_path hex" "cursor_query g = None" for g
    using p(3) row_served [OF ok' _ _ hex(2) that] hex(1) by metis
  have "do_POST cfg n t req st = (?st, Replied (send 200 (BJson (PDict [(lit ''id'', PStr (vid (a_info a))),
      (lit ''duplicate'', PBool (vid (a_info a) \<in> rid ` set (assertions st)))]))))" using p(1) by (metis prod.collapse)
  then show ?thesis using b read_body_Inr [OF b(1)] hex(1) p(2) get by (subst (1) \<open>do_POST cfg n t req st = _\<close>) auto
qed

text \<open>What is served for an assertion never changes while the store grows.\<close>
lemma served_assertion_is_stable:
  assumes "store_ok st" "store_grows st st'" "hex64_match hex" "get_assertion hex st = Some e"
    "path g = assertion_path hex" "cursor_query g = None"
  shows "do_GET cfg g st = Inr (send 200 (BBytes e)) \<and> do_GET cfg g st' = Inr (send 200 (BBytes e))"
  using get_stored [OF assms(3) _ assms(5,6)] get_assertion_stable [OF assms(2,1,4)] assms(4) by simp

text \<open>A read request raises only \<open>OverflowError\<close>, and only for a cursor that decodes to \<open>2^63\<close> or more;
  every other request gets a reply.\<close>
lemma get_raises_only_overflow:
  "case do_GET cfg req st of
       Inr r \<Rightarrow> True
     | Inl e \<Rightarrow> e = OverflowError \<and> (\<exists>c k. cursor_query req = Some c \<and> decode_cursor c = Inr k \<and> 2 ^ 63 \<le> k)"
  using do_GET_error [of cfg req st] by (cases "do_GET cfg req st") auto

text \<open>C24: such a cursor exists: a well-formed cursor for \<open>2^63\<close> on the channel directory makes the handler
  raise instead of replying with \<open>bad_cursor\<close>.\<close>
theorem get_cursor_overflow:
  "do_GET cfg \<lparr>path = lit ''/v1/channels'', cursor_query = Some (encode_cursor (int (2 ^ 63))), content_encoding = None,
     content_type = None, content_length = None, stream = []\<rparr> st = Inl OverflowError"
proof -
  have "(10 :: nat) ^ 19 \<le> 10 ^ int_max_str_digits" by (rule power_increasing) (simp_all add: int_max_str_digits_def)
  then have "(2 :: nat) ^ 63 < 10 ^ int_max_str_digits" by (rule less_le_trans [rotated]) simp
  then have "decode_cursor (encode_cursor (int (2 ^ 63))) = Inr (int (2 ^ 63))" by (rule decode_encode_cursor)
  then show ?thesis
    by (simp add: do_GET_def advertised_channels_def fetch_page_def select_after_def)
qed

theorem post_refuses_or_serves_witness:
  "\<exists>r. snd (do_POST default_config 1 0 sample_request (new_store 32)) = Replied r"
  using post_refuses_or_serves [OF reach_sample, where n = 1 and t = 0 and req = sample_request]
  by (simp add: default_config_def new_store_def split: prod.splits outcome.splits)

section \<open>Configuration\<close>

lemma check_bootstrap_iff:
  "check_bootstrap seen vs = Inr out \<longleftrightarrow>
     (\<exists>cs. vs = map PStr cs \<and> out = seen @ cs \<and> list_all sha256_id_match cs \<and> distinct cs \<and> set cs \<inter> set seen = {})"
proof (induction seen vs rule: check_bootstrap.induct)
  case (2 seen c vs)
  show ?case
  proof (cases c)
    case (PStr s)
    show ?thesis
    proof (cases "sha256_id_match s \<and> s \<notin> set seen")
      case True
      then have "check_bootstrap seen (c # vs) = Inr out \<longleftrightarrow> (\<exists>cs. vs = map PStr cs \<and> out = (seen @ [s]) @ cs \<and>
          list_all sha256_id_match cs \<and> distinct cs \<and> set cs \<inter> set (seen @ [s]) = {})"
        using 2 [OF PStr] PStr by simp
      also have "\<dots> \<longleftrightarrow> (\<exists>cs. c # vs = map PStr cs \<and> out = seen @ cs \<and> list_all sha256_id_match cs \<and> distinct cs \<and> set cs \<inter> set seen = {})"
      proof
        assume "\<exists>cs. c # vs = map PStr cs \<and> out = seen @ cs \<and> list_all sha256_id_match cs \<and> distinct cs \<and> set cs \<inter> set seen = {}"
        then show "\<exists>cs. vs = map PStr cs \<and> out = (seen @ [s]) @ cs \<and> list_all sha256_id_match cs \<and> distinct cs \<and> set cs \<inter> set (seen @ [s]) = {}"
          using PStr by (auto simp: Cons_eq_map_conv)
      next
        assume "\<exists>cs. vs = map PStr cs \<and> out = (seen @ [s]) @ cs \<and> list_all sha256_id_match cs \<and> distinct cs \<and> set cs \<inter> set (seen @ [s]) = {}"
        then obtain cs where "vs = map PStr cs" "out = (seen @ [s]) @ cs" "list_all sha256_id_match cs" "distinct cs" "set cs \<inter> set (seen @ [s]) = {}" by blast
        then show "\<exists>cs. c # vs = map PStr cs \<and> out = seen @ cs \<and> list_all sha256_id_match cs \<and> distinct cs \<and> set cs \<inter> set seen = {}"
          using True PStr by (intro exI [of _ "s # cs"]) auto
      qed
      finally show ?thesis .
    next
      case False
      then show ?thesis using PStr by (auto simp: Cons_eq_map_conv)
    qed
  qed (auto simp: Cons_eq_map_conv)
qed auto

definition config_doc_ok :: "pyval \<Rightarrow> pystr list \<Rightarrow> bool" where
  "config_doc_ok doc cs = (\<exists>d. doc = PDict d \<and> set (map fst d) \<subseteq> {lit ''bootstrap_channels'', lit ''_comment''} \<and>
     (\<forall>v. dget d (lit ''_comment'') = Some v \<longrightarrow> (\<exists>s. v = PStr s)) \<and>
     (case dget d (lit ''bootstrap_channels'') of
        None \<Rightarrow> cs = []
      | Some v \<Rightarrow> v = PList (map PStr cs) \<and> distinct cs \<and> list_all sha256_id_match cs))"

lemma load_config_iff: "load_config doc = Inr cs \<longleftrightarrow> config_doc_ok doc cs"
proof (cases doc)
  case (PDict d)
  have keys: "list_all (\<lambda>p. fst p = lit ''bootstrap_channels'' \<or> fst p = lit ''_comment'') d \<longleftrightarrow>
      set (map fst d) \<subseteq> {lit ''bootstrap_channels'', lit ''_comment''}" by (auto simp: list_all_iff)
  have com: "\<not> (case x of None \<Rightarrow> False | Some (PStr _) \<Rightarrow> False | Some _ \<Rightarrow> True) \<longleftrightarrow> (\<forall>v. x = Some v \<longrightarrow> (\<exists>s. v = PStr s))" for x
    by (auto split: option.splits pyval.splits)
  have boot: "(case x of None \<Rightarrow> Inr [] | Some (PList vs) \<Rightarrow> check_bootstrap [] vs | Some _ \<Rightarrow> Inl e) = Inr cs \<longleftrightarrow>
      (case x of None \<Rightarrow> cs = [] | Some v \<Rightarrow> v = PList (map PStr cs) \<and> distinct cs \<and> list_all sha256_id_match cs)" for x e
    by (auto simp: check_bootstrap_iff split: option.splits pyval.splits)
  show ?thesis
    unfolding load_config_def config_doc_ok_def PDict pyval.case pyval.inject res_simps boot com not_not keys by auto
qed (auto simp: load_config_def config_doc_ok_def)

lemma local_limit_range: "local_limit env name m = Inr n \<Longrightarrow> 0 \<le> m \<Longrightarrow> 0 \<le> n \<and> n \<le> m"
  by (auto simp: local_limit_def res_simps)

lemma start_relay_limits:
  assumes "start_relay env args = Inr (cfg, st)"
  shows "1 \<le> page_size_cfg cfg \<and> 1 \<le> pow_multiplier cfg \<and> 0 \<le> max_locators cfg \<and> max_locators cfg \<le> 256 \<and>
    0 \<le> max_locator_bytes cfg \<and> max_locator_bytes cfg \<le> 8192 \<and> 0 \<le> max_parents cfg \<and> max_parents cfg \<le> 1024 \<and>
    distinct (bootstrap_channels cfg) \<and> list_all sha256_id_match (bootstrap_channels cfg) \<and>
    relay_reach cfg st \<and> page_size st = nat (page_size_cfg cfg)"
proof -
  obtain dp boot ml mlb mp where b: "(case arg_config args of None \<Rightarrow> Inr [] | Some doc \<Rightarrow> (case bindr doc load_config of
         Inl (ConfigError m) \<Rightarrow> Inl (SystemExit m) | Inl e \<Rightarrow> Inl e | Inr cs \<Rightarrow> Inr cs)) = Inr boot"
    and l: "local_limit env ''SPP_MAX_LOCATORS'' 256 = Inr ml" "local_limit env ''SPP_MAX_LOCATOR_BYTES'' 8192 = Inr mlb"
      "local_limit env ''SPP_MAX_PARENTS'' 1024 = Inr mp"
    and c: "1 \<le> page_size_cfg cfg" "1 \<le> pow_multiplier cfg" "max_locators cfg = ml" "max_locator_bytes cfg = mlb" "max_parents cfg = mp"
      "bootstrap_channels cfg = boot" and st: "st = new_store (page_size_cfg cfg)"
    using assms by (auto simp: start_relay_def build_config_def res_simps)
  have "boot = [] \<or> (\<exists>doc. load_config doc = Inr boot)"
    using b by (auto simp: res_simps split: option.splits sum.splits exn.splits)
  then have "distinct boot \<and> list_all sha256_id_match boot"
    by (auto simp: load_config_iff config_doc_ok_def split: option.splits)
  then show ?thesis
    using c st local_limit_range [OF l(1)] local_limit_range [OF l(2)] local_limit_range [OF l(3)] started [of cfg]
    by (simp add: new_store_def)
qed

text \<open>C25: the configuration file is accepted exactly when it is an object with no other member than a textual
  comment and a list of distinct channel identifiers, which is what the relay then advertises.\<close>
theorem config_file_checked: "load_config doc = Inr cs \<longleftrightarrow> config_doc_ok doc cs"
  by (rule load_config_iff)



text \<open>Local policy can only tighten the protocol's work requirement: an envelope that passes the local
  multiplier meets the protocol's own target.\<close>
theorem local_work_implies_protocol_work:
  assumes "1 \<le> m" "0 < units" "local_work_ok ident units m = Inr True"
  shows "work_ok (nat_of_hex (drop 7 ident)) units"
proof -
  let ?q = "int (units * UNIT_SCALE)"
  have q: "0 < ?q" using assms(2) by (simp add: UNIT_SCALE_def)
  have "int (nat_of_hex (drop 7 ident)) \<le> int MAX_H div (?q * m)" using assms local_work_total by simp
  also have "\<dots> \<le> int MAX_H div ?q"
    using q assms(1) mult_left_mono [of 1 m ?q] by (intro zdiv_mono2) simp_all
  also have "\<dots> = int (MAX_H div (units * UNIT_SCALE))" by (rule zdiv_int [symmetric])
  finally show ?thesis by (simp only: work_ok_def target_for_units_def of_nat_le_iff)
qed

theorem local_work_implies_protocol_work_witness: "work_ok (nat_of_hex (drop 7 (lit ''sha256:0a''))) 3"
proof (rule local_work_implies_protocol_work [of 2])
  show "local_work_ok (lit ''sha256:0a'') 3 2 = Inr True"
    by (simp add: local_work_ok_def Let_def UNIT_SCALE_def MAX_H_def lit_def nat_of_hex_def of_digits_def hex_val_def is_digit_def)
qed simp_all

end
