(* ===== verification/Ref_Relay.thy ===== *)
theory Ref_Relay
  imports Server_Facts
begin

text \<open>
  \<^verbatim>\<open>implementations/python/relay.py\<close>: the small in-memory relay. Its state is the module's one
  \<^verbatim>\<open>Store\<close>; handlers take the request as the HTTP layer parsed it, as the durable relay's do. The
  policy settings come from the environment when the store is created.
\<close>

section \<open>Store\<close>

record rstore =
  envelopes :: "obj pydict"
  order :: "pystr list"
  channel_of :: "pystr list pydict"
  object_of :: "pystr list pydict"
  advertised :: "pystr list"
  multiplier :: int
  max_record :: int
  page_len :: int
  blocked_actor :: pystr
  blocked_channel :: pystr

definition init_store :: "pystr pydict \<Rightarrow> exn + rstore" where
  "init_store env =
     bindr (env_int env ''SPP_POW_MULTIPLIER'' 1) (\<lambda>mult.
     bindr (env_int env ''SPP_MAX_RECORD_BYTES'' 65536) (\<lambda>rec_bytes.
     bindr (env_int env ''SPP_PAGE_SIZE'' 2) (\<lambda>psize.
       Inr \<lparr>envelopes = [], order = [], channel_of = [], object_of = [], advertised = [],
         multiplier = max 1 mult, max_record = rec_bytes, page_len = max 1 psize,
         blocked_actor = env_str env ''SPP_BLOCK_ACTOR'' [], blocked_channel = env_str env ''SPP_BLOCK_CHANNEL'' []\<rparr>)))"

text \<open>\<^verbatim>\<open>d.setdefault(k, []).append(x)\<close>\<close>

definition append_to :: "pystr list pydict \<Rightarrow> pystr \<Rightarrow> pystr \<Rightarrow> pystr list pydict" where
  "append_to d k x = dset d k ((case dget d k of Some xs \<Rightarrow> xs | None \<Rightarrow> []) @ [x])"

text \<open>Python's truth value of an object.\<close>

fun truthy :: "pyval \<Rightarrow> bool" where
  "truthy PNone = False"
| "truthy (PBool b) = b"
| "truthy (PInt i) = (i \<noteq> 0)"
| "truthy (PFloat x) = (\<not> is_zero x)"
| "truthy (PStr s) = (s \<noteq> [])"
| "truthy (PList vs) = (vs \<noteq> [])"
| "truthy (PDict d) = (d \<noteq> [])"

text \<open>
  \<^verbatim>\<open>x = u.get(k) or {}\<close>, then \<^verbatim>\<open>x.get("hash")\<close>: the digest to index, if it is a \<^verbatim>\<open>sha256:\<close> string.
\<close>

definition hash_of :: "obj \<Rightarrow> string \<Rightarrow> exn + pystr option" where
  "hash_of u k = (case dget u (lit k) of
       None \<Rightarrow> Inr None
     | Some v \<Rightarrow>
         if \<not> truthy v then Inr None
         else case v of
             PDict r \<Rightarrow> Inr (case dget r (lit ''hash'') of
                 Some (PStr h) \<Rightarrow> (if prefix (lit ''sha256:'') h then Some (drop 7 h) else None)
               | _ \<Rightarrow> None)
           | _ \<Rightarrow> Inl AttributeError)"

definition index_object :: "obj \<Rightarrow> string \<Rightarrow> pystr \<Rightarrow> rstore \<Rightarrow> (exn + unit) \<times> rstore" where
  "index_object u k digest st = (case hash_of u k of
       Inl e \<Rightarrow> (Inl e, st)
     | Inr None \<Rightarrow> (Inr (), st)
     | Inr (Some h) \<Rightarrow> (Inr (), st\<lparr>object_of := append_to (object_of st) h digest\<rparr>))"

definition put :: "obj \<Rightarrow> pystr \<Rightarrow> rstore \<Rightarrow> (exn + unit) \<times> rstore" where
  "put env ident st =
     (let digest = drop 7 ident in
      if dhas (envelopes st) digest then (Inr (), st)
      else
        let st1 = st\<lparr>envelopes := dset (envelopes st) digest env, order := order st @ [digest]\<rparr>;
            u = reconstruct_u env
        in if dget u (lit ''type'') = Some (PStr (lit ''channel'')) then
             index_object u ''descriptor'' digest
               (st1\<lparr>advertised := advertised st1 @ [digest], channel_of := append_to (channel_of st1) digest digest\<rparr>)
           else if dget u (lit ''type'') = Some (PStr (lit ''pointer'')) then
             (let c = text_member u ''channel'' in
              index_object u ''ref'' digest
                (if prefix (lit ''sha256:'') c then st1\<lparr>channel_of := append_to (channel_of st1) (drop 7 c) digest\<rparr> else st1))
           else (Inr (), st1))"

section \<open>Paging and local work\<close>

definition page :: "nat \<Rightarrow> 'a list \<Rightarrow> pystr option \<Rightarrow> exn + ('a list \<times> pystr option)" where
  "page psize items cursor =
     bindr (case cursor of None \<Rightarrow> Inr 0 | Some c \<Rightarrow> if c = [] then Inr 0 else
         (case int_text c of Inl (ValueError _) \<Rightarrow> Inl (ValueError ''bad-cursor'') | r \<Rightarrow> r)) (\<lambda>i.
     let start = nat (max 0 i);
         chunk = take psize (drop start items);
         nxt = start + length chunk
     in Inr (chunk, if nxt < length items then Some (str_int (int nxt)) else None))"

definition ref_work_ok :: "pystr \<Rightarrow> nat \<Rightarrow> rstore \<Rightarrow> exn + bool" where
  "ref_work_ok ident units st =
     (let h = int (nat_of_hex (drop 7 ident)); q = int units * 65536 * multiplier st in
      if q = 0 then Inl ZeroDivisionError else Inr (h \<le> int MAX_H div q))"

section \<open>GET\<close>

definition ref_manifest :: "rstore \<Rightarrow> pyval" where
  "ref_manifest st = PDict
     [(lit ''v'', PInt 1), (lit ''submit'', PStr (lit ''/v1/assertions'')),
      (lit ''channels'', PStr (lit ''/v1/channels'')),
      (lit ''assertion'', PStr (lit ''/v1/assertions/sha256/{hex}'')),
      (lit ''channel'', PStr (lit ''/v1/channels/sha256/{hex}/assertions'')),
      (lit ''object'', PStr (lit ''/v1/objects/sha256/{hex}/assertions'')),
      (lit ''bootstrap_channels'', PList []),
      (lit ''policy'', PDict
        [(lit ''pow_multiplier'', PInt (multiplier st)), (lit ''max_record_bytes'', PInt (max_record st))])]"

definition list_reply :: "pyval list \<Rightarrow> pystr option \<Rightarrow> reply" where
  "list_reply items nxt = send 200 (BJson (PDict
     [(lit ''items'', PList items), (lit ''next'', case nxt of None \<Rightarrow> PNone | Some t \<Rightarrow> PStr t)]))"

text \<open>\<^verbatim>\<open>STORE.envelopes[i]\<close>\<close>

definition env_at :: "rstore \<Rightarrow> pystr \<Rightarrow> exn + pyval" where
  "env_at st i = (case dget (envelopes st) i of Some e \<Rightarrow> Inr (PDict e) | None \<Rightarrow> Inl (KeyError i))"

definition ref_listing :: "pystr list pydict \<Rightarrow> pystr \<Rightarrow> pystr option \<Rightarrow> rstore \<Rightarrow> exn + reply" where
  "ref_listing index hex cursor st =
     (if \<not> hex64_match hex then Inr not_found
      else bindr (page (nat (page_len st)) (case dget index hex of Some ids \<Rightarrow> ids | None \<Rightarrow> []) cursor) (\<lambda>(ids, nxt).
           bindr (mapr (env_at st) ids) (\<lambda>items. Inr (list_reply items nxt))))"

definition ref_route :: "pystr option \<Rightarrow> pystr \<Rightarrow> rstore \<Rightarrow> exn + reply" where
  "ref_route cursor p st =
     (let parts = split_on (ch CHR ''/'') (strip_by (\<lambda>c. c = ch CHR ''/'') p) in
      if take 3 parts = map lit [''v1'', ''assertions'', ''sha256''] \<and> length parts = 4 then
        (if \<not> hex64_match (parts ! 3) then Inr not_found
         else case dget (envelopes st) (parts ! 3) of
             None \<Rightarrow> Inr (err 404 ''not_found'' ''unknown assertion'')
           | Some env \<Rightarrow>
               if env = [] then Inr (err 404 ''not_found'' ''unknown assertion'')
               else bindr (canonicalize_bytes (PDict env)) (\<lambda>b. Inr (send 200 (BBytes b))))
      else if take 3 parts = map lit [''v1'', ''channels'', ''sha256''] \<and> length parts = 5 \<and> parts ! 4 = lit ''assertions'' then
        ref_listing (channel_of st) (parts ! 3) cursor st
      else if take 3 parts = map lit [''v1'', ''objects'', ''sha256''] \<and> length parts = 5 \<and> parts ! 4 = lit ''assertions'' then
        ref_listing (object_of st) (parts ! 3) cursor st
      else Inr not_found)"

definition ref_GET :: "request \<Rightarrow> rstore \<Rightarrow> exn + reply" where
  "ref_GET req st =
     (case (case cursor_query req of None \<Rightarrow> Inr 0 | Some c \<Rightarrow> int_text c) of
         Inl (ValueError _) \<Rightarrow> Inr (err 400 ''bad_cursor'' ''cursor must be an integer'')
       | Inl e \<Rightarrow> Inl e
       | Inr _ \<Rightarrow>
           if path req = lit ''/.well-known/spp'' then Inr (send 200 (BJson (ref_manifest st)))
           else if path req = lit ''/v1/channels'' then
             bindr (page (nat (page_len st)) (map (\<lambda>h. lit ''sha256:'' @ h) (advertised st)) (cursor_query req)) (\<lambda>(ids, nxt).
               Inr (list_reply (map PStr ids) nxt))
           else ref_route (cursor_query req) (path req) st)"

section \<open>POST\<close>

text \<open>
  \<^verbatim>\<open>rfile.read(n)\<close> on the bytes the client sends before it closes: minus one reads to the end, any
  other negative size is refused.
\<close>

definition read_n :: "int \<Rightarrow> bytes \<Rightarrow> exn + bytes" where
  "read_n n s =
     (if n < - (2 ^ 63) \<or> 2 ^ 63 \<le> n then Inl OverflowError
      else if n < - 1 then Inl (ValueError ''read length must be non-negative or -1'')
      else Inr (if n = - 1 then s else take (nat n) s))"

definition ref_read_body :: "request \<Rightarrow> rstore \<Rightarrow> outcome + bytes" where
  "ref_read_body req st =
     bindr (reply_if (path req \<noteq> lit ''/v1/assertions'') not_found) (\<lambda>_.
     let enc = header (content_encoding req) in
     bindr (reply_if (enc \<noteq> [] \<and> lower enc \<noteq> lit ''identity'') (err 400 ''bad_encoding'' ''non-identity Content-Encoding'')) (\<lambda>_.
     let ctype = strip_by py_space (takeWhile (\<lambda>c. c \<noteq> ch CHR '';'') (header (content_type req))) in
     bindr (reply_if (ctype \<noteq> lit ''application/json'' \<and> ctype \<noteq> lit ''application/spp+json'') (err 400 ''bad_type'' ''Content-Type'')) (\<lambda>_.
     bindr (lift_exn (py_int (if header (content_length req) = [] then lit ''0'' else header (content_length req)))) (\<lambda>n.
     bindr (reply_if (max_record st < n) (err 400 ''too_large'' ''max_record_bytes'')) (\<lambda>_.
     bindr (lift_exn (read_n n (stream req))) (\<lambda>b.
     bindr (reply_if (max_record st < int (length b)) (err 400 ''too_large'' ''max_record_bytes'')) (\<lambda>_.
       Inr b)))))))"

definition ref_policy :: "obj \<Rightarrow> vinfo \<Rightarrow> rstore \<Rightarrow> outcome + unit" where
  "ref_policy env info st =
     bindr (reply_if (blocked_actor st \<noteq> [] \<and> text_member env ''actor'' = blocked_actor st) (err 403 ''policy'' ''actor blocked'')) (\<lambda>_.
     bindr (reply_if (blocked_channel st \<noteq> [] \<and> text_member env ''channel'' = blocked_channel st) (err 403 ''policy'' ''channel blocked'')) (\<lambda>_.
     bindr (lift_exn (ref_work_ok (vid info) (vunits info) st)) (\<lambda>ok.
     reply_if (\<not> ok) (err 403 ''policy'' ''local proof-of-work multiplier''))))"

definition ref_admit :: "request \<Rightarrow> rstore \<Rightarrow> outcome + (obj \<times> vinfo)" where
  "ref_admit req st =
     bindr (ref_read_body req st) (\<lambda>b.
     bindr (judge b) (\<lambda>info.
     bindr (lift_exn (parse_object b)) (\<lambda>env.
     bindr (ref_policy env info st) (\<lambda>_. Inr (env, info)))))"

definition ref_POST :: "request \<Rightarrow> rstore \<Rightarrow> rstore \<times> outcome" where
  "ref_POST req st =
     (case ref_admit req st of
         Inl out \<Rightarrow> (st, out)
       | Inr (env, info) \<Rightarrow>
           let existed = dhas (envelopes st) (drop 7 (vid info)) in
           case put env (vid info) st of
               (Inl e, st') \<Rightarrow> (st', Raised e)
             | (Inr _, st') \<Rightarrow> (st', Replied (send 200 (BJson (PDict
                 [(lit ''id'', PStr (vid info)), (lit ''duplicate'', PBool existed)])))))"

end
