(* ===== verification/Ref_Relay_Facts.thy ===== *)
theory Ref_Relay_Facts
  imports Ref_Relay
begin

text \<open>
  The reference relay beside the durable one. Started from the same environment, with the policy
  limits the reference relay does not have left at the protocol maxima, and fed the same
  submissions, the two give the same replies and hold the same assertions, the same directory and
  the same listings: the durable relay refines the reference relay.
\<close>

section \<open>Admission\<close>

definition same_settings :: "config \<Rightarrow> rstore \<Rightarrow> bool" where
  "same_settings cfg rs =
     (multiplier rs = pow_multiplier cfg \<and> max_record rs = max_record_bytes cfg \<and>
      blocked_actor rs = block_actor cfg \<and> blocked_channel rs = block_channel cfg \<and> 1 \<le> pow_multiplier cfg)"

definition protocol_limits :: "config \<Rightarrow> bool" where
  "protocol_limits cfg =
     (max_locators cfg = int MAX_LOCATORS \<and> max_locator_bytes cfg = int MAX_LOCATOR_BYTES \<and>
      max_parents cfg = int MAX_PARENTS)"

text \<open>
  A request on which the two handlers' transport checks coincide: the media type is in lower case
  and the content length, when given, is a number a read accepts.
\<close>

definition plain_request :: "request \<Rightarrow> bool" where
  "plain_request req =
     (lower (header (content_type req)) = header (content_type req) \<and>
      (case py_int (if header (content_length req) = [] then lit ''0'' else header (content_length req)) of
         Inl _ \<Rightarrow> False | Inr n \<Rightarrow> 0 \<le> n \<and> n < 2 ^ 63))"

lemma lower_strip: "lower s = s \<Longrightarrow> lower (strip_by f (takeWhile g s)) = strip_by f (takeWhile g s)"
proof -
  assume "lower s = s"
  then have "\<forall>c\<in>set s. \<not> (65 \<le> c \<and> c \<le> 90)" by (auto simp: lower_def map_idI list_eq_iff_nth_eq in_set_conv_nth split: if_splits)
  moreover have "set (strip_by f (takeWhile g s)) \<subseteq> set s"
    by (auto simp: strip_by_def dest!: set_dropWhileD set_takeWhileD)
  ultimately show ?thesis by (auto simp: lower_def intro!: map_idI)
qed

lemma read_body_same:
  assumes "plain_request req" "same_settings cfg rs"
  shows "ref_read_body req rs = read_body cfg req"
proof -
  obtain n where n: "py_int (if header (content_length req) = [] then lit ''0'' else header (content_length req)) = Inr n"
    "0 \<le> n" "n < 2 ^ 63" and l: "lower (header (content_type req)) = header (content_type req)"
    using assms(1) by (auto simp: plain_request_def split: sum.splits)
  have "read_n n s = Inr (take (nat n) s)" for s using n(2,3) by (simp add: read_n_def)
  then show ?thesis
    using n(2) assms(2) unfolding ref_read_body_def read_body_def n(1) Let_def lower_strip [OF l]
    by (simp add: lift_exn_def same_settings_def not_less)
qed

lemma reference_locators_le:
  assumes "schema_ok u"
  shows "length (reference_locators u) \<le> MAX_LOCATORS"
proof -
  have r: "length (case v of Some (PDict r) \<Rightarrow> (case dget r (lit ''locators'') of Some (PList ls) \<Rightarrow> ls | _ \<Rightarrow> []) | _ \<Rightarrow> []) \<le> MAX_LOCATORS"
    if "\<And>r. v = Some r \<Longrightarrow> ref_ok r" for v
    using that by (cases v) (auto simp: ref_ok_def)
  show ?thesis
    unfolding reference_locators_def by (rule r) (use assms in \<open>auto simp: schema_ok_def pointer_ok_def channel_ok_def split: if_splits\<close>)
qed

lemma no_long_locator:
  "list_all locator_ok vs \<Longrightarrow> any_longer (int MAX_LOCATOR_BYTES) vs = Inr False"
  by (subst any_longer_ok) (auto simp: list_all_iff list_ex_iff locator_ok_def)

lemma few_parents: "schema_ok u \<Longrightarrow> \<not> (case dget u (lit ''parents'') of Some (PList ps) \<Rightarrow> int MAX_PARENTS < int (length ps) | _ \<Rightarrow> False)"
  by (cases "dget u (lit ''parents'')") (auto simp: schema_ok_def pointer_ok_def channel_ok_def)

lemma ref_work_same: "same_settings cfg rs \<Longrightarrow> ref_work_ok ident units rs = local_work_ok ident units (pow_multiplier cfg)"
  by (simp add: ref_work_ok_def local_work_ok_def same_settings_def UNIT_SCALE_def)

lemma policy_same:
  assumes "valid_envelope d info" "same_settings cfg rs" "protocol_limits cfg"
  shows "ref_policy d info rs = policy cfg d info"
proof -
  note s = valid_schema [OF assms(1)]
  have mp: "max_parents cfg = int MAX_PARENTS" using assms(3) by (simp add: protocol_limits_def)
  have "reply_if (max_locators cfg < int (length (reference_locators (reconstruct_u d)))) r = Inr ()" for r
    using reference_locators_le [OF s] assms(3) by (simp add: reply_if_def protocol_limits_def)
  moreover have "any_longer (max_locator_bytes cfg) (reference_locators (reconstruct_u d)) = Inr False"
    using no_long_locator [OF reference_locators_ok [OF s]] assms(3) by (simp add: protocol_limits_def)
  moreover have "reply_if (case dget (reconstruct_u d) (lit ''parents'') of Some (PList ps) \<Rightarrow> max_parents cfg < int (length ps) | _ \<Rightarrow> False) r = Inr ()" for r
    unfolding mp using few_parents [OF s] by (simp add: reply_if_def)
  moreover have "bindr m (\<lambda>ok. reply_if (\<not> ok) r) = bindr m (\<lambda>ok. bindr (reply_if (\<not> ok) r) (\<lambda>_. Inr ()))" for m :: "outcome + bool" and r
    by (cases m) (simp_all add: reply_if_def)
  ultimately show ?thesis
    using assms(2) unfolding ref_policy_def policy_def Let_def
    by (simp add: ref_work_same [OF assms(2)] lift_exn_def reply_if_def [of False] same_settings_def)
qed

lemma admit_same:
  assumes "plain_request req" "same_settings cfg rs" "protocol_limits cfg"
  shows "ref_admit req rs = bindr (admit cfg req) (\<lambda>a. case bindr (read_body cfg req) (\<lambda>b. lift_exn (parse_object b)) of
     Inr env \<Rightarrow> Inr (env, a_info a) | Inl out \<Rightarrow> Inl out)"
proof (cases "read_body cfg req")
  case (Inr b)
  show ?thesis
  proof (cases "judge b")
    case (Inr info)
    then have "validate_bytes b = Inr info" by (simp add: judge_eq_Inr)
    then obtain d where d: "parse_object b = Inr d" "valid_envelope d info" "json_val (PDict d)" by (rule validate_bytes_Inr)
    obtain t c h where "index_columns (reconstruct_u d) (vid info) = Inr (t, c, h)"
      using index_columns_ok [OF valid_schema [OF d(2)]] by blast
    then show ?thesis
      using canonicalize_bytes_eq [OF d(3)] \<open>read_body cfg req = Inr b\<close> Inr d(1)
      by (cases "policy cfg d info")
        (simp_all add: ref_admit_def admit_def admit_valid_def read_body_same [OF assms(1,2)] policy_same [OF d(2) assms(2,3)] lift_exn_def)
  qed (use Inr in \<open>simp add: ref_admit_def admit_def read_body_same [OF assms(1,2)]\<close>)
qed (simp add: ref_admit_def admit_def read_body_same [OF assms(1,2)])

section \<open>Insertion\<close>

lemma id_prefix: "sha256_id_match s \<Longrightarrow> prefix (lit ''sha256:'') s \<and> s = lit ''sha256:'' @ drop 7 s"
  unfolding sha256_id_match_def by (metis append_take_drop_id prefix_def)

lemma hash_of_ok:
  assumes "dget u (lit k) = Some r" "ref_ok r"
  shows "\<exists>h. bindr (subscript r ''hash'') as_text = Inr h \<and> sha256_id_match h \<and> hash_of u k = Inr (Some (drop 7 h))"
proof -
  obtain d h where d: "r = PDict d" "dget d (lit ''hash'') = Some (PStr h)" "sha256_id_match h" using ref_hash [OF assms(2)] by blast
  then have "d \<noteq> []" by auto
  then show ?thesis using d assms(1) id_prefix [OF d(3)] by (simp add: hash_of_def subscript_def getitem_def as_text_def)
qed

lemma put_new:
  assumes "schema_ok (reconstruct_u env)" "index_columns (reconstruct_u env) ident = Inr (t, c, h)"
    "\<not> dhas (envelopes st) (drop 7 ident)" "sha256_id_match ident"
  shows "put env ident st = (Inr (), st\<lparr>envelopes := envelopes st @ [(drop 7 ident, env)], order := order st @ [drop 7 ident],
      channel_of := append_to (channel_of st) (drop 7 c) (drop 7 ident),
      object_of := (case h of None \<Rightarrow> object_of st | Some h \<Rightarrow> append_to (object_of st) (drop 7 h) (drop 7 ident)),
      advertised := advertised st @ (if t = lit ''channel'' then [drop 7 ident] else [])\<rparr>) \<and>
    sha256_id_match c \<and> (case h of None \<Rightarrow> True | Some h \<Rightarrow> sha256_id_match h)"
proof -
  let ?u = "reconstruct_u env"
  consider (p) "pointer_ok ?u" | (c) "channel_ok ?u" using assms(1) by (auto simp: schema_ok_def)
  then show ?thesis
  proof cases
    case p
    then obtain r s where r: "dget ?u (lit ''ref'') = Some r" "ref_ok r" "dget ?u (lit ''channel'') = Some (PStr s)" "sha256_id_match s"
      by (auto simp: pointer_ok_def id_ok_def)
    obtain g where g: "bindr (subscript r ''hash'') as_text = Inr g" "sha256_id_match g" "hash_of ?u ''ref'' = Inr (Some (drop 7 g))"
      using hash_of_ok [OF r(1,2)] by blast
    have "t = lit ''pointer''" "c = s" "h = Some g"
      using assms(2) p r(1,3) g(1) by (auto simp: index_columns_def getitem_def as_text_def pointer_ok_def)
    then show ?thesis
      using p assms(3) r(3,4) g(2,3) id_prefix [OF r(4)]
      by (simp add: put_def Let_def dset_append index_object_def text_member_def pointer_ok_def)
  next
    case c
    show ?thesis
    proof (cases "dget ?u (lit ''descriptor'')")
      case None
      then have "t = lit ''channel''" "c = ident" "h = None" "hash_of ?u ''descriptor'' = Inr None"
        using assms(2) c by (auto simp: index_columns_def getitem_def as_text_def channel_ok_def hash_of_def)
      then show ?thesis using c assms(3,4) by (simp add: put_def Let_def dset_append index_object_def channel_ok_def)
    next
      case (Some r)
      then have ro: "ref_ok r" using c by (simp add: channel_ok_def)
      obtain g where g: "bindr (subscript r ''hash'') as_text = Inr g" "sha256_id_match g" "hash_of ?u ''descriptor'' = Inr (Some (drop 7 g))"
        using hash_of_ok [OF Some ro] by blast
      obtain d where "r = PDict d" using ro by (auto simp: ref_ok_def)
      then have "t = lit ''channel''" "c = ident" "h = Some g"
        using assms(2) c Some g(1) by (auto simp: index_columns_def getitem_def as_text_def subscript_def channel_ok_def)
      then show ?thesis using c assms(3,4) g(2,3) by (simp add: put_def Let_def dset_append index_object_def channel_ok_def)
    qed
  qed
qed

section \<open>Agreement of the stores\<close>

definition ids_at :: "pystr list pydict \<Rightarrow> pystr \<Rightarrow> pystr list" where
  "ids_at d k = (case dget d k of Some ids \<Rightarrow> ids | None \<Rightarrow> [])"

lemma ids_at_append_to: "ids_at (append_to d k x) k' = ids_at d k' @ (if k' = k then [x] else [])"
  by (simp add: ids_at_def append_to_def dict_simps)

definition same_entry :: "pystr \<times> obj \<Rightarrow> row \<Rightarrow> bool" where
  "same_entry p r = (rid r = lit ''sha256:'' @ fst p \<and> snd p \<noteq> [] \<and> canonicalize_bytes (PDict (snd p)) = Inr (envelope r))"

abbreviation digests :: "row list \<Rightarrow> pystr list" where
  "digests rs \<equiv> map (\<lambda>r. drop 7 (rid r)) rs"

definition same_contents :: "rstore \<Rightarrow> store \<Rightarrow> bool" where
  "same_contents rs st =
     (list_all2 same_entry (envelopes rs) (assertions st) \<and> order rs = map fst (envelopes rs) \<and>
      (\<forall>hex. ids_at (channel_of rs) hex = digests (filter (\<lambda>r. channel r = Some (lit ''sha256:'' @ hex)) (assertions st))) \<and>
      (\<forall>hex. ids_at (object_of rs) hex = digests (filter (\<lambda>r. object_hash r = Some (lit ''sha256:'' @ hex)) (assertions st))) \<and>
      advertised rs = digests (filter (\<lambda>r. rtype r = lit ''channel'') (assertions st)))"

lemma same_has:
  "list_all2 same_entry es rows \<Longrightarrow> dhas es hex \<longleftrightarrow> lit ''sha256:'' @ hex \<in> rid ` set rows"
  by (induction rule: list_all2_induct) (auto simp: dhas_def same_entry_def)

lemma same_get:
  "list_all2 same_entry es rows \<Longrightarrow>
   (case filter (\<lambda>r. rid r = lit ''sha256:'' @ hex) rows of [] \<Rightarrow> dget es hex = None
     | r # _ \<Rightarrow> \<exists>e. dget es hex = Some e \<and> same_entry (hex, e) r)"
  by (induction rule: list_all2_induct) (auto simp: same_entry_def split: list.splits)

lemma same_contents_insert:
  assumes "same_contents rs st" "assertions st' = assertions st @ [r]" "sha256_id_match (rid r)"
    "channel r = Some c" "sha256_id_match c" "case object_hash r of None \<Rightarrow> True | Some h \<Rightarrow> sha256_id_match h"
    "same_entry (drop 7 (rid r), env) r"
  shows "same_contents (rs\<lparr>envelopes := envelopes rs @ [(drop 7 (rid r), env)], order := order rs @ [drop 7 (rid r)],
      channel_of := append_to (channel_of rs) (drop 7 c) (drop 7 (rid r)),
      object_of := (case object_hash r of None \<Rightarrow> object_of rs | Some h \<Rightarrow> append_to (object_of rs) (drop 7 h) (drop 7 (rid r))),
      advertised := advertised rs @ (if rtype r = lit ''channel'' then [drop 7 (rid r)] else [])\<rparr>) st'"
proof -
  have eq: "x = lit ''sha256:'' @ hex \<longleftrightarrow> hex = drop 7 x" if "sha256_id_match x" for x hex
    using id_prefix [OF that] by auto
  have "ids_at (append_to (channel_of rs) (drop 7 c) (drop 7 (rid r))) hex =
      digests (filter (\<lambda>r. channel r = Some (lit ''sha256:'' @ hex)) (assertions st'))" for hex
    using assms(1) by (simp add: same_contents_def ids_at_append_to assms(2,4) eq [OF assms(5)])
  moreover have "ids_at (case object_hash r of None \<Rightarrow> object_of rs | Some h \<Rightarrow> append_to (object_of rs) (drop 7 h) (drop 7 (rid r))) hex =
      digests (filter (\<lambda>r. object_hash r = Some (lit ''sha256:'' @ hex)) (assertions st'))" for hex
  proof (cases "object_hash r")
    case (Some h)
    then show ?thesis using assms(1) eq [of h hex] assms(6) by (simp add: same_contents_def ids_at_append_to assms(2))
  qed (use assms(1) in \<open>simp add: same_contents_def assms(2)\<close>)
  ultimately show ?thesis
    using assms(1,7) by (simp add: same_contents_def assms(2) list_all2_appendI)
qed

lemma post_same:
  assumes plain: "plain_request req" and set: "same_settings cfg rs" and lim: "protocol_limits cfg"
    and cont: "same_contents rs st" and ok: "store_ok st"
  shows "snd (ref_POST req rs) = snd (do_POST cfg n t req st) \<and>
     same_contents (fst (ref_POST req rs)) (fst (do_POST cfg n t req st)) \<and> same_settings cfg (fst (ref_POST req rs))"
proof (cases "admit cfg req")
  case (Inl out)
  then show ?thesis using set cont by (simp add: ref_POST_def do_POST_def admit_same [OF plain set lim])
next
  case (Inr a)
  then obtain b d where b: "read_body cfg req = Inr b" "validate_bytes b = Inr (a_info a)" "parse_object b = Inr d"
    "canonicalize_bytes (PDict d) = Inr (a_canonical a)"
    "index_columns (reconstruct_u d) (vid (a_info a)) = Inr (a_type a, a_channel a, a_object a)"
    using admit_Inr [OF Inr] by metis
  obtain d' where "parse_object b = Inr d'" "valid_envelope d' (a_info a)" using validate_bytes_Inr [OF b(2)] by blast
  then have v: "valid_envelope d (a_info a)" using b(3) by simp
  obtain hex where hex: "vid (a_info a) = lit ''sha256:'' @ hex" "hex64_match hex" using vid_hex [OF v] by blast
  have idm: "sha256_id_match (vid (a_info a))"
    using hex by (auto simp: sha256_id_match_def hex64_match_def)
  have dr: "drop 7 (vid (a_info a)) = hex" by (simp add: hex(1))
  have adm: "ref_admit req rs = Inr (d, a_info a)"
    by (simp add: admit_same [OF plain set lim] Inr b(1,3) lift_exn_def)
  have dup: "dhas (envelopes rs) hex \<longleftrightarrow> vid (a_info a) \<in> rid ` set (assertions st)"
    using cont same_has by (simp add: same_contents_def hex(1))
  note dp = do_POST_accepts [OF Inr ok, where n = n and t = t]
  show ?thesis
  proof (cases "dhas (envelopes rs) hex")
    case True
    then have "put d (vid (a_info a)) rs = (Inr (), rs)" by (simp add: put_def Let_def dr)
    then show ?thesis using dp(1,2) True dup set cont by (simp add: ref_POST_def adm dr)
  next
    case False
    let ?r = "\<lparr>seq = n, rid = vid (a_info a), envelope = a_canonical a, rtype = a_type a, actor = a_actor a,
       channel = Some (a_channel a), object_hash = a_object a, accepted_at = t\<rparr>"
    have rows: "assertions (fst (do_POST cfg n t req st)) = assertions st @ [?r]"
      using add_new(2) [OF ok, of "vid (a_info a)"] False dup by (simp add: do_POST_store Inr)
    have "reconstruct_u d \<noteq> []" using valid_schema [OF v] by (auto simp: schema_ok_def head_ok_def)
    then have "d \<noteq> []" by (auto simp: reconstruct_u_def)
    then have entry: "same_entry (drop 7 (rid ?r), d) ?r" using b(4) by (simp add: same_entry_def dr hex(1))
    note p = put_new [OF valid_schema [OF v] b(5), of rs, unfolded dr, OF False, unfolded hex(1) [symmetric], OF idm]
    have "same_contents (snd (put d (vid (a_info a)) rs)) (fst (do_POST cfg n t req st))"
      unfolding conjunct1 [OF p] snd_conv
      using same_contents_insert [OF cont rows, of "a_channel a" d, unfolded row.select_convs dr, OF idm refl]
        conjunct2 [OF p] entry [unfolded row.select_convs dr] by blast
    then show ?thesis
      using p dp(1) False dup set by (simp add: ref_POST_def adm dr same_settings_def)
  qed
qed

text \<open>
  Two relays started from the same environment that have seen the same submissions. The rowids
  and times of the durable store are its own.
\<close>

inductive twins :: "config \<Rightarrow> rstore \<Rightarrow> store \<Rightarrow> bool" for cfg where
  twin_start: "init_store env = Inr rs \<Longrightarrow> start_relay env args = Inr (cfg, st) \<Longrightarrow> twins cfg rs st"
| twin_post: "twins cfg rs st \<Longrightarrow> plain_request req \<Longrightarrow> last_seq st < n \<Longrightarrow> n < 2 ^ 63 \<Longrightarrow>
    twins cfg (fst (ref_POST req rs)) (fst (do_POST cfg n t req st))"

lemma twins_ok:
  assumes "twins cfg rs st" "protocol_limits cfg"
  shows "same_settings cfg rs \<and> same_contents rs st \<and> store_ok st"
  using assms(1)
proof induction
  case (twin_start env rs args st)
  then have "st = new_store (page_size_cfg cfg)" by (auto simp: start_relay_def res_simps)
  moreover have "same_settings cfg rs"
    using twin_start by (auto simp: init_store_def start_relay_def build_config_def same_settings_def res_simps)
  moreover have "envelopes rs = [] \<and> order rs = [] \<and> channel_of rs = [] \<and> object_of rs = [] \<and> advertised rs = []"
    using twin_start(1) by (auto simp: init_store_def res_simps)
  ultimately show ?case by (simp add: store_ok_new) (simp add: same_contents_def new_store_def ids_at_def)
next
  case (twin_post rs st req n t)
  then show ?case
    using post_same [of req cfg rs st n t] assms(2) store_grows_ok [OF do_POST_grows, of st n] by blast
qed

section \<open>Serving\<close>

lemma ref_get_assertion:
  assumes "hex64_match hex" "path g = assertion_path hex" "cursor_query g = None"
  shows "ref_GET g rs = (case dget (envelopes rs) hex of
      None \<Rightarrow> Inr (err 404 ''not_found'' ''unknown assertion'')
    | Some env \<Rightarrow> if env = [] then Inr (err 404 ''not_found'' ''unknown assertion'')
        else bindr (canonicalize_bytes (PDict env)) (\<lambda>b. Inr (send 200 (BBytes b))))"
  using assms parts_assertion [OF assms(1)] by (simp add: ref_GET_def ref_route_def Let_def assertion_path_def lit_def)

lemma get_assertion_reply:
  assumes "hex64_match hex" "path g = assertion_path hex" "cursor_query g = None"
  shows "do_GET cfg g st = Inr (case get_assertion hex st of
      None \<Rightarrow> err 404 ''not_found'' ''unknown assertion'' | Some e \<Rightarrow> send 200 (BBytes e))"
  using assms parts_assertion [OF assms(1)]
  by (simp add: do_GET_def route_GET_def Let_def assertion_path_def lit_def split: option.splits)

lemma get_same:
  assumes "same_contents rs st" "hex64_match hex" "path g = assertion_path hex" "cursor_query g = None"
  shows "ref_GET g rs = do_GET cfg g st"
  unfolding ref_get_assertion [OF assms(2-4)] get_assertion_reply [OF assms(2-4)]
  using same_get [of "envelopes rs" "assertions st" hex] assms(1)
  by (auto simp: same_contents_def get_assertion_def same_entry_def split: list.splits option.splits)

lemma same_rid: "list_all2 same_entry es rows \<Longrightarrow> r \<in> set rows \<Longrightarrow> lit ''sha256:'' @ drop 7 (rid r) = rid r"
  by (induction rule: list_all2_induct) (auto simp: same_entry_def)

lemma same_lookup:
  assumes "list_all2 same_entry es rows" "distinct (map rid rows)" "r \<in> set rows"
  shows "\<exists>e. dget es (drop 7 (rid r)) = Some e \<and> canonicalize_bytes (PDict e) = Inr (envelope r)"
  using same_get [OF assms(1), of "drop 7 (rid r)"] filter_rid [OF assms(2,3)] same_rid [OF assms(1,3)]
  by (auto simp: same_entry_def)

lemma mapr_all: "(\<And>x. x \<in> set xs \<Longrightarrow> f (g x) = Inr (h x)) \<Longrightarrow> mapr f (map g xs) = Inr (map h xs)"
  by (induction xs) auto

lemma listing_same:
  assumes "same_contents rs st" "store_ok st"
  shows "mapr (\<lambda>i. bindr (env_at rs i) canonicalize_bytes) (digests (filter Q (assertions st))) = Inr (map envelope (filter Q (assertions st)))"
proof (rule mapr_all)
  fix r assume "r \<in> set (filter Q (assertions st))"
  then obtain e where "dget (envelopes rs) (drop 7 (rid r)) = Some e" "canonicalize_bytes (PDict e) = Inr (envelope r)"
    using same_lookup [of "envelopes rs" "assertions st" r] assms by (auto simp: same_contents_def store_ok_def)
  then show "bindr (env_at rs (drop 7 (rid r))) canonicalize_bytes = Inr (envelope r)" by (simp add: env_at_def)
qed

lemma directory_same:
  assumes "same_contents rs st" "store_ok st"
  shows "map (\<lambda>h. lit ''sha256:'' @ h) (advertised rs) = map snd (advertised_rows st)"
proof -
  have "lit ''sha256:'' @ drop 7 (rid r) = rid r" if "r \<in> set (assertions st)" for r
    using assms(1) that same_rid by (auto simp: same_contents_def)
  then have "map (\<lambda>h. lit ''sha256:'' @ h) (advertised rs) = map rid (filter (\<lambda>r. rtype r = lit ''channel'') (assertions st))"
    using assms(1) by (simp add: same_contents_def)
  then show ?thesis using assms(2) by (simp add: advertised_rows_eq o_def)
qed

section \<open>Following the pages\<close>

text \<open>A client that passes every \<^verbatim>\<open>next\<close> value back as the cursor, with a bound on its requests.\<close>

fun ref_crawl :: "nat \<Rightarrow> nat \<Rightarrow> 'a list \<Rightarrow> pystr option \<Rightarrow> 'a list option" where
  "ref_crawl 0 psize items cursor = None"
| "ref_crawl (Suc n) psize items cursor = (case page psize items cursor of
       Inl _ \<Rightarrow> None
     | Inr (chunk, None) \<Rightarrow> Some chunk
     | Inr (chunk, Some c) \<Rightarrow> map_option (\<lambda>rest. chunk @ rest) (ref_crawl n psize items (Some c)))"

lemma page_at:
  assumes "k < 10 ^ int_max_str_digits" "k \<le> length items"
  shows "page psize items (Some (str_int (int k))) = Inr (take psize (drop k items),
    if k + psize < length items then Some (str_int (int (k + psize))) else None)"
proof -
  have "list_all (\<lambda>c. c < 127) (str_nat k)" using str_nat_digits [of k] by (auto simp: list_all_iff is_digit_def)
  then have "int_text (str_int (int k)) = Inr (int k)" using py_int_str_nat [OF assms(1)] by (simp add: int_text_ascii str_int_def)
  moreover have "k + min (length items - k) psize < length items \<longleftrightarrow> k + psize < length items"
    "k + psize < length items \<Longrightarrow> min (length items - k) psize = psize" using assms(2) by auto
  ultimately show ?thesis by (simp add: page_def str_int_def Let_def)
qed

lemma ref_crawl_from:
  assumes "length items < 10 ^ int_max_str_digits" "0 < psize" "k \<le> length items" "length items - k < n"
  shows "ref_crawl n psize items (Some (str_int (int k))) = Some (drop k items)"
  using assms(3,4)
proof (induction n arbitrary: k)
  case (Suc n)
  have k: "k < 10 ^ int_max_str_digits" using Suc.prems assms(1) by linarith
  show ?case
  proof (cases "k + psize < length items")
    case True
    then have "ref_crawl n psize items (Some (str_int (int (k + psize)))) = Some (drop (k + psize) items)"
      using Suc.prems assms(2) by (intro Suc.IH) auto
    moreover have "take psize (drop k items) @ drop (k + psize) items = drop k items" by (metis add.commute append_take_drop_id drop_drop)
    ultimately show ?thesis using True by (simp add: page_at [OF k Suc.prems(1)] del: of_nat_add)
  qed (simp add: page_at [OF k Suc.prems(1)])
qed simp

lemma ref_crawl_complete:
  assumes "length items < 10 ^ int_max_str_digits" "0 < psize" "length items < n"
  shows "ref_crawl n psize items None = Some items"
proof -
  have "page psize items None = page psize items (Some (str_int (int 0)))"
    using page_at [of 0 items psize] by (simp add: page_def Let_def)
  then have "ref_crawl n psize items None = ref_crawl n psize items (Some (str_int (int 0)))"
    by (cases n) simp_all
  then show ?thesis using ref_crawl_from [of items psize 0 n] assms by simp
qed

section \<open>Content length\<close>

text \<open>
  The reference relay does not guard \<^verbatim>\<open>int(Content-Length)\<close>: where the durable relay answers 400, the
  handler raises and the client gets no reply.
\<close>

lemma ref_post_bad_length:
  assumes "path req = lit ''/v1/assertions''" "content_encoding req = None" "content_type req = Some (lit ''application/json'')"
    "content_length req = Some (lit ''x'')"
  shows "ref_POST req rs = (rs, Raised (ValueError ''invalid literal''))"
    "snd (do_POST cfg n t req st) = Replied (err 400 ''bad_length'' ''Content-Length'')"
proof -
  have "py_int (lit ''x'') = Inl (ValueError ''invalid literal'')"
    by (simp add: py_int_def strip_by_def lit_def int_space_def is_digit_def)
  moreover have "strip_by py_space (takeWhile (\<lambda>c. c \<noteq> 59) (lit ''application/json'')) = lit ''application/json''"
    by (simp add: strip_by_def lit_def py_space_def)
  moreover have "lower (lit ''application/json'') = lit ''application/json''" by (simp add: lower_def lit_def)
  moreover have "lit ''x'' \<noteq> []" by (simp add: lit_def)
  ultimately show "ref_POST req rs = (rs, Raised (ValueError ''invalid literal''))"
    "snd (do_POST cfg n t req st) = Replied (err 400 ''bad_length'' ''Content-Length'')"
    using assms by (simp_all add: ref_POST_def ref_admit_def ref_read_body_def do_POST_def admit_def read_body_def header_def
        reply_if_def lift_exn_def Let_def)
qed

section \<open>Properties\<close>

definition sample_args :: arguments where
  "sample_args = \<lparr>arg_host = None, arg_port = None, arg_db = None, arg_page_size = None, arg_config = None\<rparr>"

definition sample_rstore :: rstore where
  "sample_rstore = \<lparr>envelopes = [], order = [], channel_of = [], object_of = [], advertised = [],
     multiplier = 1, max_record = 65536, page_len = 2, blocked_actor = [], blocked_channel = []\<rparr>"

lemma sample_twins: "twins default_config sample_rstore (new_store 32)"
  by (rule twin_start [of "[]" _ sample_args])
    (simp_all add: init_store_def env_int_def env_str_def sample_rstore_def start_relay_def build_config_def
      sample_args_def local_limit_def default_config_def)

lemma sample_plain: "plain_request sample_request"
  by (simp add: plain_request_def sample_request_def header_def py_int_def strip_by_def lit_def int_space_def lower_def
      is_digit_def int_max_str_digits_def nat_of_digits_def hex_val_def)



end
