(* ===== verification/Py_Json.thy ===== *)
theory Py_Json
  imports Ref_Relay
begin

text \<open>
  The standard \<^verbatim>\<open>json\<close> module as the clients use it: \<^verbatim>\<open>json.loads\<close> on text, and \<^verbatim>\<open>json.dumps\<close> with
  \<^verbatim>\<open>ensure_ascii=False, separators=(",", ":")\<close>. Unlike the verifier's own parser it keeps integers
  apart from floats, lets a repeated key overwrite, accepts \<^verbatim>\<open>NaN\<close> and the infinities and keeps lone
  surrogates. The interpreter's recursion limit is not modelled. \<open>scan_once\<close> takes fuel, which
  \<open>loads\<close> sets to twice the length of the text; \<open>AssertionError\<close> marks that it ran out.
\<close>

section \<open>Reading\<close>

abbreviation decode_error :: "exn + 'a" where
  "decode_error \<equiv> Inl (ValueError ''JSONDecodeError'')"

definition uxxxx :: "pystr \<Rightarrow> exn + (nat \<times> pystr)" where
  "uxxxx s = (if length (take 4 s) < 4 \<or> \<not> list_all is_hex (take 4 s) then decode_error else Inr (nat_of_hex (take 4 s), drop 4 s))"

text \<open>What follows \<^verbatim>\<open>\u\<close>: a pair of surrogate escapes is joined, a lone one is kept.\<close>

definition loads_u :: "pystr \<Rightarrow> exn + (nat \<times> pystr)" where
  "loads_u s =
     bindr (uxxxx s) (\<lambda>(cp, s1).
       if 0xD800 \<le> cp \<and> cp \<le> 0xDBFF \<and> take 2 s1 = lit [CHR 0x5C, CHR ''u''] then
         (case uxxxx (drop 2 s1) of
             Inl _ \<Rightarrow> decode_error
           | Inr (low, s2) \<Rightarrow>
               if 0xDC00 \<le> low \<and> low \<le> 0xDFFF then Inr (0x10000 + (cp - 0xD800) * 1024 + (low - 0xDC00), s2)
               else Inr (cp, s1))
       else Inr (cp, s1))"

definition loads_escape :: "pystr \<Rightarrow> exn + (nat \<times> pystr)" where
  "loads_escape s = (case s of [] \<Rightarrow> decode_error | e # s1 \<Rightarrow>
     if e = 34 \<or> e = 92 \<or> e = ch CHR ''/'' then Inr (e, s1)
     else if e = ch CHR ''b'' then Inr (8, s1)
     else if e = ch CHR ''f'' then Inr (12, s1)
     else if e = ch CHR ''n'' then Inr (10, s1)
     else if e = ch CHR ''r'' then Inr (13, s1)
     else if e = ch CHR ''t'' then Inr (9, s1)
     else if e = ch CHR ''u'' then loads_u s1
     else decode_error)"

lemma loads_escape_shorter: "loads_escape s = Inr (c, r) \<Longrightarrow> length r < length s"
  by (auto simp: loads_escape_def loads_u_def uxxxx_def res_simps split: list.splits if_splits sum.splits)

function scanstring :: "pystr \<Rightarrow> exn + (pystr \<times> pystr)" where
  "scanstring s = (case s of
     [] \<Rightarrow> decode_error
   | c # s1 \<Rightarrow>
       if c = 34 then Inr ([], s1)
       else if c = 92 then
         bindr (loads_escape s1) (\<lambda>(x, s2). bindr (scanstring s2) (\<lambda>(t, r). Inr (x # t, r)))
       else if c \<le> 0x1F then decode_error
       else bindr (scanstring s1) (\<lambda>(t, r). Inr (c # t, r)))"
  by pat_completeness auto
termination
  by (relation "measure length") (auto dest!: loads_escape_shorter)

declare scanstring.simps [simp del]

lemma scanstring_simps [simp]:
  "scanstring [] = decode_error"
  "scanstring (c # s) =
     (if c = 34 then Inr ([], s)
      else if c = 92 then bindr (loads_escape s) (\<lambda>(x, s2). bindr (scanstring s2) (\<lambda>(t, r). Inr (x # t, r)))
      else if c \<le> 0x1F then decode_error
      else bindr (scanstring s) (\<lambda>(t, r). Inr (c # t, r)))"
  by (subst scanstring.simps, simp)+

text \<open>
  The longest prefix that is a number: integer part, then a fraction and an exponent where they
  are complete. A number with neither is an \<^verbatim>\<open>int\<close>.
\<close>

definition opt_fraction :: "pystr \<Rightarrow> pystr" where
  "opt_fraction s = (case s of
       c # d # r \<Rightarrow> if c = ch CHR ''.'' \<and> is_digit d then dropWhile is_digit (d # r) else s
     | _ \<Rightarrow> s)"

definition opt_exponent :: "pystr \<Rightarrow> pystr" where
  "opt_exponent s = (case s of
       c # r \<Rightarrow>
         if c = ch CHR ''e'' \<or> c = ch CHR ''E'' then
           (case skip_sign r of d # q \<Rightarrow> if is_digit d then dropWhile is_digit (d # q) else s | [] \<Rightarrow> s)
         else s
     | [] \<Rightarrow> s)"

definition match_number :: "pystr \<Rightarrow> exn + (pyval \<times> pystr)" where
  "match_number s =
     (let (neg, b) = strip_minus s in
      case b of [] \<Rightarrow> decode_error | c # r \<Rightarrow>
        if \<not> is_digit c then decode_error
        else
          let s1 = (if c = 48 then r else dropWhile is_digit b);
              s2 = opt_exponent (opt_fraction s1);
              token = take (length s - length s2) s
          in if s2 = s1 then bindr (py_int token) (\<lambda>i. Inr (PInt i, s2))
             else Inr (PFloat (py_float token), s2))"

fun scan_once :: "nat \<Rightarrow> pystr \<Rightarrow> exn + (pyval \<times> pystr)"
  and parse_members :: "nat \<Rightarrow> obj \<Rightarrow> pystr \<Rightarrow> exn + (pyval \<times> pystr)"
  and parse_elements :: "nat \<Rightarrow> pyval list \<Rightarrow> pystr \<Rightarrow> exn + (pyval \<times> pystr)" where
  "scan_once 0 s = Inl AssertionError"
| "scan_once (Suc n) s = (case s of
       [] \<Rightarrow> decode_error
     | c # s1 \<Rightarrow>
         if c = 34 then bindr (scanstring s1) (\<lambda>(t, r). Inr (PStr t, r))
         else if c = ch CHR 0x7B then
           (case ws s1 of d # r \<Rightarrow> if d = ch CHR 0x7D then Inr (PDict [], r) else parse_members n [] (d # r) | [] \<Rightarrow> decode_error)
         else if c = ch CHR ''['' then
           (case ws s1 of d # r \<Rightarrow> if d = ch CHR '']'' then Inr (PList [], r) else parse_elements n [] (d # r) | [] \<Rightarrow> decode_error)
         else if take 4 s = lit ''null'' then Inr (PNone, drop 4 s)
         else if take 4 s = lit ''true'' then Inr (PBool True, drop 4 s)
         else if take 5 s = lit ''false'' then Inr (PBool False, drop 5 s)
         else if take 3 s = lit ''NaN'' then Inr (PFloat FNaN, drop 3 s)
         else if take 8 s = lit ''Infinity'' then Inr (PFloat (FInf False), drop 8 s)
         else if take 9 s = lit ''-Infinity'' then Inr (PFloat (FInf True), drop 9 s)
         else match_number s)"
| "parse_members 0 d s = Inl AssertionError"
| "parse_members (Suc n) d s = (case s of
       [] \<Rightarrow> decode_error
     | c # s1 \<Rightarrow>
         if c \<noteq> 34 then decode_error
         else bindr (scanstring s1) (\<lambda>(k, s2). case ws s2 of
             [] \<Rightarrow> decode_error
           | e # s3 \<Rightarrow>
               if e \<noteq> ch CHR '':'' then decode_error
               else bindr (scan_once n (ws s3)) (\<lambda>(v, s4). case ws s4 of
                   [] \<Rightarrow> decode_error
                 | f # s5 \<Rightarrow>
                     if f = ch CHR 0x7D then Inr (PDict (dset d k v), s5)
                     else if f = ch CHR '','' then parse_members n (dset d k v) (ws s5)
                     else decode_error)))"
| "parse_elements 0 vs s = Inl AssertionError"
| "parse_elements (Suc n) vs s =
     bindr (scan_once n s) (\<lambda>(v, s1). case ws s1 of
         [] \<Rightarrow> decode_error
       | f # s2 \<Rightarrow>
           if f = ch CHR '']'' then Inr (PList (vs @ [v]), s2)
           else if f = ch CHR '','' then parse_elements n (vs @ [v]) (ws s2)
           else decode_error)"

definition loads :: "pystr \<Rightarrow> exn + pyval" where
  "loads s =
     (if take 1 s = [0xFEFF] then decode_error
      else bindr (scan_once (2 * length s + 1) (ws s)) (\<lambda>(v, r). if ws r = [] then Inr v else decode_error))"

text \<open>\<^verbatim>\<open>json.loads(data.decode("utf-8"))\<close>\<close>

definition loads_bytes :: "bytes \<Rightarrow> exn + pyval" where
  "loads_bytes b = bindr (utf8_decode b) loads"

section \<open>Writing\<close>

definition float_text :: "binary64 \<Rightarrow> pystr" where
  "float_text x = (case x of
       FNaN \<Rightarrow> lit ''NaN''
     | FInf neg \<Rightarrow> (if neg then lit ''-Infinity'' else lit ''Infinity'')
     | FFin neg m e \<Rightarrow> (if neg then lit ''-'' else []) @ (if m = 0 then lit ''0.0'' else repr_pos m e))"

definition int_repr :: "int \<Rightarrow> exn + pystr" where
  "int_repr i = (if int_max_str_digits < length (str_nat (nat \<bar>i\<bar>)) then Inl (ValueError ''exceeds the limit'') else Inr (str_int i))"

text \<open>
  \<^verbatim>\<open>json.dumps\<close>: how a string is quoted depends on \<^verbatim>\<open>ensure_ascii\<close>, and \<open>gap\<close> is what the separators have
  after the comma and the colon. Members keep their insertion order.
\<close>

fun write_json :: "(pystr \<Rightarrow> pystr) \<Rightarrow> pystr \<Rightarrow> pyval \<Rightarrow> exn + pystr" where
  "write_json quote gap PNone = Inr (lit ''null'')"
| "write_json quote gap (PBool b) = Inr (if b then lit ''true'' else lit ''false'')"
| "write_json quote gap (PInt i) = int_repr i"
| "write_json quote gap (PFloat x) = Inr (float_text x)"
| "write_json quote gap (PStr s) = Inr (quote s)"
| "write_json quote gap (PList vs) =
     bindr (mapr (write_json quote gap) vs) (\<lambda>ts. Inr (lit ''['' @ join (44 # gap) ts @ lit '']''))"
| "write_json quote gap (PDict d) =
     bindr (mapr (\<lambda>p. bindr (write_json quote gap (snd p)) (\<lambda>t. Inr (quote (fst p) @ 58 # gap @ t))) d) (\<lambda>ts.
       Inr (lit [CHR 0x7B] @ join (44 # gap) ts @ lit [CHR 0x7D]))"

text \<open>With \<^verbatim>\<open>ensure_ascii=False\<close> and compact separators strings are escaped as in the canonical form.\<close>

abbreviation dumps :: "pyval \<Rightarrow> exn + pystr" where
  "dumps \<equiv> write_json escape_string []"

text \<open>With the defaults a string is written in ASCII.\<close>

definition ascii_string :: "pystr \<Rightarrow> pystr" where
  "ascii_string s = [34] @ concat (map dumps_char s) @ [34]"

abbreviation dumps_ascii :: "pyval \<Rightarrow> exn + pystr" where
  "dumps_ascii \<equiv> write_json ascii_string [32]"

definition dumps_bytes :: "pyval \<Rightarrow> exn + bytes" where
  "dumps_bytes v = bindr (dumps v) utf8_encode"

section \<open>The fuel is enough\<close>

text \<open>A scanner that does not run out of fuel, and consumes input when it succeeds.\<close>

definition scans :: "pystr \<Rightarrow> exn + ('a \<times> pystr) \<Rightarrow> bool" where
  "scans s m = (case m of Inl e \<Rightarrow> e \<noteq> AssertionError | Inr (_, r) \<Rightarrow> length r < length s)"

lemma scans_simps [simp]:
  "scans s decode_error" "scans s (Inr (x, r)) = (length r < length s)"
  by (simp_all add: scans_def)

lemma scans_bind: "scans s m \<Longrightarrow> (\<And>x r. m = Inr (x, r) \<Longrightarrow> length r < length s \<Longrightarrow> scans s' (f (x, r))) \<Longrightarrow> scans s' (bindr m f)"
  by (cases m) (auto simp: scans_def)

lemma scans_longer: "scans s m \<Longrightarrow> length s \<le> length s' \<Longrightarrow> scans s' m"
  by (auto simp: scans_def split: sum.splits)

lemma scans_if: "scans s a \<Longrightarrow> scans s b \<Longrightarrow> scans s (if c then a else b)"
  by simp

lemma scans_escape: "scans s (loads_escape s)"
  using loads_escape_shorter [of s]
  by (auto simp: scans_def loads_escape_def loads_u_def uxxxx_def bindr_eq_Inl split: list.splits if_splits sum.splits)

lemma scans_scanstring: "scans s (scanstring s)"
proof (induction s rule: scanstring.induct)
  case (1 s)
  show ?case
  proof (cases s)
    case (Cons c s1)
    have "scans (c # s1) (bindr (scanstring s1) (\<lambda>(t, r). Inr (c # t, r)))" if "c \<noteq> 34" "c \<noteq> 92" "\<not> c \<le> 0x1F"
      using 1(2) [OF Cons that] by (auto intro: scans_bind)
    moreover have "scans (c # s1) (bindr (loads_escape s1) (\<lambda>(x, s2). bindr (scanstring s2) (\<lambda>(t, r). Inr (x # t, r))))"
      if "c \<noteq> 34" "c = 92"
    proof (rule scans_bind [OF scans_escape], clarsimp)
      fix x s2 assume a: "loads_escape s1 = Inr (x, s2)" "length s2 < length s1"
      have "scans s2 (scanstring s2)" using 1(1) [OF Cons that a(1) refl] .
      then show "scans (c # s1) (bindr (scanstring s2) (\<lambda>(t, r). Inr (x # t, r)))"
        by (rule scans_bind) (use a(2) in auto)
    qed
    ultimately show ?thesis by (simp add: Cons)
  qed simp
qed

lemma opt_exponent_le: "length (opt_exponent s) \<le> length s"
proof -
  have "length (dropWhile is_digit (d # q)) \<le> Suc (length r)" if "skip_sign r = d # q" for r d q
  proof -
    have "length (skip_sign r) \<le> length r" by (auto simp: skip_sign_def split: list.splits)
    then show ?thesis using that dropWhile_length_le [of is_digit "d # q"] by simp
  qed
  then show ?thesis by (auto simp: opt_exponent_def simp del: dropWhile.simps split: list.splits)
qed

lemma opt_fraction_le: "length (opt_fraction s) \<le> length s"
  by (auto simp: opt_fraction_def intro!: le_SucI split: list.splits)

lemma py_int_error: "py_int s \<noteq> Inl AssertionError"
  by (auto simp: py_int_def Let_def split: option.splits)

lemma scans_number: "scans s (match_number s)"
proof -
  obtain neg b where b: "strip_minus s = (neg, b)" by force
  then have lb: "length b \<le> length s" by (auto simp: strip_minus_def split: list.splits if_splits)
  have "scans s (match_number s)" if "b = c # r" "is_digit c" for c r
  proof -
    define s1 where "s1 = (if c = 48 then r else dropWhile is_digit b)"
    have "length s1 < length s" using that lb le_less_trans [OF dropWhile_length_le [of is_digit r], of "length s"] by (auto simp: s1_def)
    then have "length (opt_exponent (opt_fraction s1)) < length s" using opt_exponent_le opt_fraction_le le_trans le_less_trans by meson
    moreover have "scans s (bindr (py_int t) (\<lambda>i. Inr (PInt i, x)))" if "length x < length s" for t x
      using that py_int_error [of t] by (cases "py_int t") (auto simp: scans_def)
    moreover have "match_number s = (let s2 = opt_exponent (opt_fraction s1); token = take (length s - length s2) s in
        if s2 = s1 then bindr (py_int token) (\<lambda>i. Inr (PInt i, s2)) else Inr (PFloat (py_float token), s2))"
      unfolding match_number_def b Let_def prod.case s1_def by (simp add: that)
    ultimately show ?thesis using \<open>length s1 < length s\<close> by (simp add: Let_def)
  qed
  then show ?thesis by (cases b) (auto simp: match_number_def b)
qed

lemma ws_length: "length (ws s) \<le> length s"
  by (simp add: ws_def)

lemma ws_Cons_length: "ws s = c # r \<Longrightarrow> length r < length s"
  using ws_length [of s] by simp

lemma scans_after_ws:
  assumes "\<And>c r. ws s = c # r \<Longrightarrow> length r < length s \<Longrightarrow> scans t (f c r)"
  shows "scans t (case ws s of [] \<Rightarrow> decode_error | c # r \<Rightarrow> f c r)"
  using assms ws_Cons_length [of s] by (cases "ws s") auto

lemma scans_value:
  "(2 * length s < n \<longrightarrow> scans s (scan_once n s)) \<and> (2 * length s < n \<longrightarrow> scans s (parse_members n d s)) \<and>
   (2 * length s + 1 < n \<longrightarrow> scans s (parse_elements n vs s))"
proof (induction n arbitrary: s d vs)
  case (Suc n)
  have v: "scans t (scan_once n t)" if "2 * length t < n" for t using Suc that by blast
  have m: "scans t (parse_members n e t)" if "2 * length t < n" for t e using Suc that by blast
  have l: "scans t (parse_elements n us t)" if "2 * length t + 1 < n" for t us using Suc that by blast
  have once: "scans s (scan_once (Suc n) s)" if n: "2 * length s < Suc n"
  proof (cases s)
    case (Cons c s1)
    have str: "scans s (bindr (scanstring s1) (\<lambda>(t, r). Inr (PStr t, r)))"
      by (rule scans_bind [OF scans_scanstring]) (simp add: Cons)
    have obj: "scans s (case ws s1 of [] \<Rightarrow> decode_error | d # r \<Rightarrow> if d = x then Inr (z, r) else parse_members n [] (d # r))" for x z
      by (rule scans_after_ws) (use n ws_length [of s1] in \<open>auto simp: Cons intro!: scans_longer [OF m]\<close>)
    have arr: "scans s (case ws s1 of [] \<Rightarrow> decode_error | d # r \<Rightarrow> if d = x then Inr (z, r) else parse_elements n [] (d # r))" for x z
      by (rule scans_after_ws) (use n ws_length [of s1] in \<open>auto simp: Cons intro!: scans_longer [OF l]\<close>)
    have lits: "0 < k \<Longrightarrow> scans s (Inr (x, drop k s))" for k and x :: pyval
      by (simp add: Cons)
    show ?thesis unfolding Cons scan_once.simps list.case
      by (intro scans_if str [unfolded Cons] obj [unfolded Cons] arr [unfolded Cons] lits [unfolded Cons]
          scans_number [of s, unfolded Cons]) simp_all
  qed simp
  have mem: "scans s (parse_members (Suc n) d s)" if n: "2 * length s < Suc n" for d
  proof (cases s)
    case (Cons c s1)
    have mw: "scans (c # s1) (parse_members n e (ws t))" if "length t < length s1" for e t
      using le_less_trans [OF ws_length that] n by (intro scans_longer [OF m]) (auto simp: Cons)
    have "scans s (bindr (scanstring s1) (\<lambda>(k, s2). case ws s2 of [] \<Rightarrow> decode_error
           | e # s3 \<Rightarrow> if e \<noteq> x then decode_error
               else bindr (scan_once n (ws s3)) (\<lambda>(v, s4). case ws s4 of [] \<Rightarrow> decode_error
                 | f # s5 \<Rightarrow> if f = y then Inr (PDict (dset d k v), s5)
                     else if f = z then parse_members n (dset d k v) (ws s5) else decode_error)))" for x y z
    proof (rule scans_bind [OF scans_scanstring], clarsimp, rule scans_after_ws, clarsimp)
      fix k s2 s3 :: pystr assume a: "length s2 < length s1" "length s3 < length s2"
      show "scans s (bindr (scan_once n (ws s3)) (\<lambda>(v, s4). case ws s4 of [] \<Rightarrow> decode_error
                 | f # s5 \<Rightarrow> if f = y then Inr (PDict (dset d k v), s5)
                     else if f = z then parse_members n (dset d k v) (ws s5) else decode_error))"
      proof (rule scans_bind [OF v], goal_cases)
        case (2 v s4)
        then have "length s4 < length s1" using a le_less_trans [OF ws_length a(2)] by linarith
        then show ?case unfolding prod.case by (intro scans_after_ws) (auto simp: Cons intro!: mw)
      qed (use le_less_trans [OF ws_length a(2)] a(1) n Cons in auto)
    qed
    then show ?thesis unfolding Cons parse_members.simps list.case by (intro scans_if) simp_all
  qed simp
  have els: "scans s (parse_elements (Suc n) vs s)" if n: "2 * length s + 1 < Suc n" for vs
    unfolding parse_elements.simps
  proof (rule scans_bind [OF v], goal_cases)
    case (2 v s1)
    have "scans s (parse_elements n us (ws t))" if "length t < length s" for us t
      using le_less_trans [OF ws_length that] n by (intro scans_longer [OF l]) auto
    then show ?case unfolding prod.case using 2(2) by (intro scans_after_ws) auto
  qed (use n in auto)
  show ?case using once mem els by blast
qed simp

lemma loads_enough_fuel: "loads s \<noteq> Inl AssertionError"
proof -
  have "scans (ws s) (scan_once (2 * length s + 1) (ws s))" using scans_value [of "ws s" "2 * length s + 1"] ws_length [of s] by simp
  then show ?thesis by (auto simp: loads_def scans_def bindr_eq_Inl split: sum.splits if_splits)
qed

text \<open>The scanner's equations with a numeral as fuel, for evaluation on concrete text.\<close>

lemmas scan_numeral =
  scan_once.simps(2) [of "pred_numeral k" for k, folded numeral_eq_Suc]
  parse_members.simps(2) [of "pred_numeral k" for k, folded numeral_eq_Suc]
  parse_elements.simps(2) [of "pred_numeral k" for k, folded numeral_eq_Suc]

end
