(* ===== verification/Sync.thy ===== *)
theory Sync
  imports Py_Json Ref_Relay_Facts
begin

text \<open>
  \<^verbatim>\<open>implementations/relay/federation/sync.py\<close>: the federation worker. The network is outside the
  sources: \<open>urlopen\<close> is an operation of the parameter \<open>net\<close> on a world \<open>'w\<close>, and its result is a response
  with its body (or the name of the exception where reading it fails), an HTTP error, or any other exception. A run
  returns, raises, or is still \<open>Running\<close> when the fuel of its page loops is used up: a source that
  always names a next page keeps the worker busy for ever.
\<close>

section \<open>Runs and the network\<close>

datatype 'a run = Returned 'a | Raises exn | Running

definition bindw :: "('w \<Rightarrow> 'a run \<times> 'w) \<Rightarrow> ('a \<Rightarrow> 'w \<Rightarrow> 'b run \<times> 'w) \<Rightarrow> 'w \<Rightarrow> 'b run \<times> 'w" where
  "bindw m f w = (case m w of
       (Returned x, w1) \<Rightarrow> f x w1
     | (Raises e, w1) \<Rightarrow> (Raises e, w1)
     | (Running, w1) \<Rightarrow> (Running, w1))"

definition liftw :: "exn + 'a \<Rightarrow> 'w \<Rightarrow> 'a run \<times> 'w" where
  "liftw m w = (case m of Inl e \<Rightarrow> (Raises e, w) | Inr x \<Rightarrow> (Returned x, w))"

datatype http = Response nat "string + bytes" | HTTPError nat "string + bytes" | Failed string

record http_request =
  hmethod :: string
  hurl :: pystr
  hdata :: "bytes option"

record 'w net =
  urlopen :: "http_request \<Rightarrow> 'w \<Rightarrow> http \<times> 'w"

definition read_json :: "string + bytes \<Rightarrow> exn + pyval" where
  "read_json b = (case b of Inl name \<Rightarrow> Inl (ValueError name) | Inr x \<Rightarrow> loads_bytes x)"

definition relay_url :: "pystr \<Rightarrow> pystr \<Rightarrow> pystr" where
  "relay_url base p = rev (dropWhile (\<lambda>c. c = ch CHR ''/'') (rev base)) @ p"

text \<open>The status and the decoded body; \<open>PNone\<close> is Python's \<^verbatim>\<open>None\<close>.\<close>

definition http_get_json :: "'w net \<Rightarrow> pystr \<Rightarrow> 'w \<Rightarrow> (nat \<times> pyval) \<times> 'w" where
  "http_get_json net url w =
     (let (r, w1) = urlopen net \<lparr>hmethod = ''GET'', hurl = url, hdata = None\<rparr> w in
      (case r of
          Response code b \<Rightarrow> (case read_json b of Inr v \<Rightarrow> (code, v) | Inl _ \<Rightarrow> (0, PNone))
        | HTTPError code b \<Rightarrow> (case read_json b of Inr v \<Rightarrow> (code, v) | Inl _ \<Rightarrow> (code, PNone))
        | Failed _ \<Rightarrow> (0, PNone), w1))"

definition http_post_json :: "'w net \<Rightarrow> pystr \<Rightarrow> bytes \<Rightarrow> 'w \<Rightarrow> (nat \<times> pyval) \<times> 'w" where
  "http_post_json net url raw w =
     (let (r, w1) = urlopen net \<lparr>hmethod = ''POST'', hurl = url, hdata = Some raw\<rparr> w in
      (case r of
          Response code b \<Rightarrow> (case read_json b of Inr v \<Rightarrow> (code, v) | Inl _ \<Rightarrow> (code, PNone))
        | HTTPError code b \<Rightarrow> (case read_json b of Inr v \<Rightarrow> (code, v) | Inl _ \<Rightarrow> (code, PNone))
        | Failed _ \<Rightarrow> (0, PNone), w1))"

section \<open>Listing\<close>

definition get_or :: "obj \<Rightarrow> string \<Rightarrow> pyval \<Rightarrow> pyval" where
  "get_or d k v = (case dget d (lit k) of Some x \<Rightarrow> x | None \<Rightarrow> v)"

text \<open>Iterating over a value: a list's elements, a string's characters, a dictionary's keys.\<close>

definition py_iter :: "pyval \<Rightarrow> exn + pyval list" where
  "py_iter v = (case v of
       PList vs \<Rightarrow> Inr vs
     | PStr s \<Rightarrow> Inr (map (\<lambda>c. PStr [c]) s)
     | PDict d \<Rightarrow> Inr (map (\<lambda>p. PStr (fst p)) d)
     | _ \<Rightarrow> Inl TypeError)"

definition as_str :: "pyval \<Rightarrow> pystr option" where
  "as_str v = (case v of PStr s \<Rightarrow> Some s | _ \<Rightarrow> None)"

definition as_dict :: "pyval \<Rightarrow> obj option" where
  "as_dict v = (case v of PDict d \<Rightarrow> Some d | _ \<Rightarrow> None)"

definition with_cursor :: "pystr \<Rightarrow> pyval \<Rightarrow> exn + pystr" where
  "with_cursor url cursor =
     (if \<not> truthy cursor then Inr url
      else case cursor of PStr c \<Rightarrow> Inr (url @ lit ''?cursor='' @ c) | _ \<Rightarrow> Inl TypeError)"

text \<open>The loop both listings share; \<open>keep\<close> is the \<^verbatim>\<open>isinstance\<close> test on the items.\<close>

fun page_loop :: "nat \<Rightarrow> 'w net \<Rightarrow> pystr \<Rightarrow> pystr \<Rightarrow> (pyval \<Rightarrow> 'a option) \<Rightarrow> 'a list \<Rightarrow> pyval \<Rightarrow> 'w \<Rightarrow>
    ('a list \<times> pystr list) run \<times> 'w" where
  "page_loop 0 net base p keep acc cursor w = (Running, w)"
| "page_loop (Suc n) net base p keep acc cursor w = (case with_cursor (relay_url base p) cursor of
       Inl e \<Rightarrow> (Raises e, w)
     | Inr url \<Rightarrow>
         let ((code, pg), w1) = http_get_json net url w;
             failed = (Returned (acc, [lit ''GET '' @ p @ lit '' -> '' @ str_nat code]), w1)
         in case pg of
             PDict d \<Rightarrow>
               if code \<noteq> 200 then failed
               else (case py_iter (get_or d ''items'' (PList [])) of
                   Inl e \<Rightarrow> (Raises e, w1)
                 | Inr vs \<Rightarrow>
                     if \<not> truthy (get_or d ''next'' PNone) then (Returned (acc @ List.map_filter keep vs, []), w1)
                     else page_loop n net base p keep (acc @ List.map_filter keep vs) (get_or d ''next'' PNone) w1)
           | _ \<Rightarrow> failed)"

definition list_advertised :: "nat \<Rightarrow> 'w net \<Rightarrow> pystr \<Rightarrow> 'w \<Rightarrow> (pystr list \<times> pystr list) run \<times> 'w" where
  "list_advertised n net base w = page_loop n net base (lit ''/v1/channels'') as_str [] PNone w"

definition list_channel :: "nat \<Rightarrow> 'w net \<Rightarrow> pystr \<Rightarrow> pystr \<Rightarrow> 'w \<Rightarrow> (obj list \<times> pystr list) run \<times> 'w" where
  "list_channel n net base hex w =
     page_loop n net base (lit ''/v1/channels/sha256/'' @ hex @ lit ''/assertions'') as_dict [] PNone w"

definition channel_hex_of :: "pystr \<Rightarrow> pystr option" where
  "channel_hex_of v =
     (if sha256_id_match v then Some (drop 7 v) else if hex64_match v then Some v else None)"

section \<open>Gathering\<close>

definition fetch_one :: "'w net \<Rightarrow> pystr \<Rightarrow> pystr \<Rightarrow> 'w \<Rightarrow> obj list run \<times> 'w" where
  "fetch_one net source hex w =
     (let ((code, one), w1) = http_get_json net (relay_url source (lit ''/v1/assertions/sha256/'' @ hex)) w in
      (Returned (case one of PDict d \<Rightarrow> if code = 200 then [d] else [] | _ \<Rightarrow> []), w1))"

fun gather :: "nat \<Rightarrow> 'w net \<Rightarrow> pystr \<Rightarrow> bool \<Rightarrow> pystr list \<Rightarrow> 'w \<Rightarrow> ((pystr \<times> obj) list \<times> pystr list) run \<times> 'w" where
  "gather n net source adv [] w = (Returned ([], []), w)"
| "gather n net source adv (cid # cids) w =
     bindw (liftw (after_colon cid)) (\<lambda>hexid.
     bindw (list_channel n net source hexid) (\<lambda>(items, errs).
     bindw (if adv then fetch_one net source hexid else liftw (Inr [])) (\<lambda>one.
     bindw (gather n net source adv cids) (\<lambda>(more, errs2).
       liftw (Inr (map (Pair cid) (items @ one) @ more, errs @ errs2)))))) w"

section \<open>Forwarding\<close>

definition exn_name :: "exn \<Rightarrow> string" where
  "exn_name e = (case e of
       JsonInputError _ \<Rightarrow> ''JsonInputError'' | SppError _ _ \<Rightarrow> ''SppError'' | UnsupportedError _ _ \<Rightarrow> ''UnsupportedError''
     | JcsError _ \<Rightarrow> ''JcsError'' | BadCursor _ \<Rightarrow> ''BadCursor'' | ValueError _ \<Rightarrow> ''ValueError''
     | UnicodeEncodeError \<Rightarrow> ''UnicodeEncodeError'' | UnicodeDecodeError \<Rightarrow> ''UnicodeDecodeError''
     | OverflowError \<Rightarrow> ''OverflowError'' | KeyError _ \<Rightarrow> ''KeyError'' | IndexError \<Rightarrow> ''IndexError''
     | ZeroDivisionError \<Rightarrow> ''ZeroDivisionError'' | ConfigError _ \<Rightarrow> ''ConfigError'' | SystemExit _ \<Rightarrow> ''SystemExit''
     | TypeError \<Rightarrow> ''TypeError'' | AttributeError \<Rightarrow> ''AttributeError'' | AssertionError \<Rightarrow> ''AssertionError'')"

text \<open>Encoding and independent validation of one item: the reason it is invalid, or its bytes and identifier.\<close>

definition recheck :: "obj \<Rightarrow> string + (bytes \<times> pystr)" where
  "recheck env = (case dumps_bytes (PDict env) of
       Inl e \<Rightarrow> Inl (''encode:'' @ exn_name e)
     | Inr raw \<Rightarrow> (case validate_bytes raw of
           Inr info \<Rightarrow> Inr (raw, vid info)
         | Inl (UnsupportedError stage reason) \<Rightarrow> Inl (''unsupported:'' @ reason)
         | Inl (SppError stage reason) \<Rightarrow> Inl (stage @ '':'' @ reason)
         | Inl e \<Rightarrow> Inl (''error:'' @ exn_name e)))"

record tally =
  results :: "pyval list"
  processed :: "pystr list"
  n_valid :: nat
  n_invalid :: nat
  n_forwarded :: nat
  n_duplicates :: nat
  n_rejected :: nat

definition no_tally :: tally where
  "no_tally = \<lparr>results = [], processed = [], n_valid = 0, n_invalid = 0, n_forwarded = 0, n_duplicates = 0, n_rejected = 0\<rparr>"

definition invalid_result :: "pystr \<Rightarrow> obj \<Rightarrow> string \<Rightarrow> pyval" where
  "invalid_result cid env reason = PDict
     [(lit ''channel'', PStr cid), (lit ''assertion_id'', get_or env ''id'' PNone), (lit ''valid'', PBool False),
      (lit ''reason'', PStr (lit reason)), (lit ''forwarded'', PBool False)]"

definition accepted_result :: "pystr \<Rightarrow> pystr \<Rightarrow> nat \<Rightarrow> bool \<Rightarrow> pyval" where
  "accepted_result cid aid code dup = PDict
     [(lit ''channel'', PStr cid), (lit ''assertion_id'', PStr aid), (lit ''valid'', PBool True), (lit ''reason'', PNone),
      (lit ''destination_status'', PInt (int code)), (lit ''duplicate'', PBool dup), (lit ''forwarded'', PBool (\<not> dup))]"

definition rejected_result :: "pystr \<Rightarrow> pystr \<Rightarrow> nat \<Rightarrow> pyval \<Rightarrow> pyval" where
  "rejected_result cid aid code reply_body = PDict
     [(lit ''channel'', PStr cid), (lit ''assertion_id'', PStr aid), (lit ''valid'', PBool True),
      (lit ''reason'', PStr (lit ''destination-rejected'')), (lit ''destination_status'', PInt (int code)),
      (lit ''destination_error'', case reply_body of PDict d \<Rightarrow> get_or d ''error'' PNone | _ \<Rightarrow> PNone),
      (lit ''forwarded'', PBool False)]"

definition record_reply :: "pystr \<Rightarrow> pystr \<Rightarrow> nat \<Rightarrow> pyval \<Rightarrow> tally \<Rightarrow> tally" where
  "record_reply cid aid code reply_body t =
     (if code = 200 then
        let dup = (case reply_body of PDict d \<Rightarrow> truthy (get_or d ''duplicate'' PNone) | _ \<Rightarrow> False) in
        (if dup then t\<lparr>n_duplicates := n_duplicates t + 1, results := results t @ [accepted_result cid aid code dup]\<rparr>
         else t\<lparr>n_forwarded := n_forwarded t + 1, results := results t @ [accepted_result cid aid code dup]\<rparr>)
      else t\<lparr>n_rejected := n_rejected t + 1, results := results t @ [rejected_result cid aid code reply_body]\<rparr>)"

definition forward_item :: "'w net \<Rightarrow> pystr \<Rightarrow> pystr \<times> obj \<Rightarrow> tally \<times> 'w \<Rightarrow> tally \<times> 'w" where
  "forward_item net destination item s = (case item of (cid, env) \<Rightarrow> case s of (t, w) \<Rightarrow>
     case recheck env of
       Inl reason \<Rightarrow> (t\<lparr>n_invalid := n_invalid t + 1, results := results t @ [invalid_result cid env reason]\<rparr>, w)
     | Inr (raw, aid) \<Rightarrow>
         let t1 = t\<lparr>n_valid := n_valid t + 1\<rparr> in
         if aid \<in> set (processed t1) then (t1, w)
         else
           let t2 = t1\<lparr>processed := processed t1 @ [aid]\<rparr>;
               ((code, reply_body), w1) = http_post_json net (relay_url destination (lit ''/v1/assertions'')) raw w
           in (record_reply cid aid code reply_body t2, w1))"

definition forward_all :: "'w net \<Rightarrow> pystr \<Rightarrow> (pystr \<times> obj) list \<Rightarrow> 'w \<Rightarrow> tally \<times> 'w" where
  "forward_all net destination gathered w = fold (forward_item net destination) gathered (no_tally, w)"

section \<open>The worker\<close>

definition summary :: "pystr \<Rightarrow> pystr \<Rightarrow> pystr option \<Rightarrow> nat \<Rightarrow> nat \<Rightarrow> tally \<Rightarrow> pystr list \<Rightarrow> pyval" where
  "summary source destination chan n_channels discovered t errs = PDict
     [(lit ''ok'', PBool (errs = [])), (lit ''command'', PStr (lit ''sync'')),
      (lit ''source'', PStr source), (lit ''destination'', PStr destination),
      (lit ''mode'', PStr (lit (if chan = None then ''advertised'' else ''channel''))),
      (lit ''channel'', case chan of None \<Rightarrow> PNone | Some c \<Rightarrow> PStr c),
      (lit ''channels'', PInt (int n_channels)), (lit ''discovered'', PInt (int discovered)),
      (lit ''valid'', PInt (int (n_valid t))), (lit ''invalid'', PInt (int (n_invalid t))),
      (lit ''forwarded'', PInt (int (n_forwarded t))), (lit ''duplicates'', PInt (int (n_duplicates t))),
      (lit ''rejected'', PInt (int (n_rejected t))), (lit ''results'', PList (results t)),
      (lit ''errors'', PList (map PStr errs))]"

text \<open>The exit code and the one object printed and appended to the log.\<close>

definition sync :: "nat \<Rightarrow> 'w net \<Rightarrow> pystr \<Rightarrow> pystr \<Rightarrow> pystr option \<Rightarrow> 'w \<Rightarrow> (int \<times> pyval) run \<times> 'w" where
  "sync n net source destination chan w =
     bindw (case chan of
         Some c \<Rightarrow> liftw (Inr (case channel_hex_of c of None \<Rightarrow> None | Some hex \<Rightarrow> Some ([lit ''sha256:'' @ hex], [])))
       | None \<Rightarrow> bindw (list_advertised n net source) (\<lambda>r. liftw (Inr (Some r)))) (\<lambda>target.
     case target of
         None \<Rightarrow> liftw (Inr (2, PDict [(lit ''ok'', PBool False), (lit ''command'', PStr (lit ''sync'')),
             (lit ''error'', PStr (lit ''invalid channel '' @ (case chan of Some c \<Rightarrow> c | None \<Rightarrow> [])))]))
       | Some (channels, errs) \<Rightarrow>
           bindw (gather n net source (chan = None) channels) (\<lambda>(gathered, errs2) w1.
             let (t, w2) = forward_all net destination gathered w1; errors = errs @ errs2 in
             (Returned (if errors = [] then 0 else 1,
                summary source destination chan (length channels) (length gathered) t errors), w2))) w"

text \<open>\<^verbatim>\<open>main\<close>, after the command line is parsed.\<close>

definition sync_main :: "nat \<Rightarrow> 'w net \<Rightarrow> pystr \<Rightarrow> pystr \<Rightarrow> pystr option \<Rightarrow> 'w \<Rightarrow> (int \<times> pyval) run \<times> 'w" where
  "sync_main n net source destination chan w = sync n net (relay_url source []) (relay_url destination []) chan w"

end
