(* ===== verification/Agent.thy ===== *)
theory Agent
  imports Sync
begin

text \<open>
  \<^verbatim>\<open>examples/agent-a/agent.py\<close>: the example actor. Its state directory is the record \<open>agent_fs\<close>: the key
  file, the state file (as the record \<open>agent_state\<close> the agent writes and reads back), the object
  store and the published envelopes. The network is the parameter \<open>net\<close> of the sync worker; the clock
  and the random key are arguments. What a command emits is its result; printing it is I/O.
\<close>

section \<open>State directory\<close>

record agent_state =
  st_actor :: pystr
  st_seen :: "pystr list"
  st_published :: "pystr list"
  st_objects :: "pystr list"

record agent_fs =
  key_file :: "pystr option"
  state_file :: "agent_state option"
  objects_dir :: "bytes pydict"
  published_dir :: "bytes pydict"

definition read_key :: "pystr \<Rightarrow> exn + bytes" where
  "read_key t = fromhex (strip_by py_space t)"

definition load_state :: "agent_fs \<Rightarrow> exn + (agent_state \<times> bytes)" where
  "load_state fs = (case (key_file fs, state_file fs) of
       (Some k, Some st) \<Rightarrow> bindr (read_key k) (\<lambda>key. Inr (st, key))
     | _ \<Rightarrow> Inl (SystemExit ''agent A not initialised (run: init)''))"

definition save_state :: "agent_state \<Rightarrow> agent_fs \<Rightarrow> agent_fs" where
  "save_state st fs = fs\<lparr>state_file := Some st\<rparr>"

definition object_id :: "bytes \<Rightarrow> pystr" where
  "object_id data = lit ''sha256:'' @ bytes_hex (sha256 data)"

definition store_object :: "bytes \<Rightarrow> agent_fs \<Rightarrow> (pystr \<times> pystr) \<times> agent_fs" where
  "store_object data fs =
     (let h = bytes_hex (sha256 data) in
      ((lit ''sha256:'' @ h, h),
       if dhas (objects_dir fs) h then fs else fs\<lparr>objects_dir := dset (objects_dir fs) h data\<rparr>))"

section \<open>Mining\<close>

definition marker :: bytes where
  "marker = asc [CHR 0x22, CHR ''n'', CHR ''o'', CHR ''n'', CHR ''c'', CHR ''e'', CHR 0x22, CHR 0x3A, CHR 0x22]"

text \<open>\<^verbatim>\<open>template.find(marker)\<close>: the index of the first occurrence.\<close>

fun find_sub :: "bytes \<Rightarrow> bytes \<Rightarrow> nat option" where
  "find_sub pat [] = (if pat = [] then Some 0 else None)"
| "find_sub pat (b # bs) =
     (if prefix pat (b # bs) then Some 0 else map_option Suc (find_sub pat bs))"

definition nonce_digits :: "nat \<Rightarrow> nat \<Rightarrow> pystr" where
  "nonce_digits width n =
     (if width = 1 then str_nat n else replicate (width - length (str_nat n)) (ch CHR ''0'') @ str_nat n)"

definition patch :: "bytes \<Rightarrow> nat \<Rightarrow> nat \<Rightarrow> pystr \<Rightarrow> bytes" where
  "patch buf off width digits = take off buf @ map of_nat digits @ drop (off + width) buf"

text \<open>The envelope for a nonce whose digest meets the target, put through the verifier.\<close>

definition mined_envelope :: "obj \<Rightarrow> bytes \<Rightarrow> pystr \<Rightarrow> bytes \<Rightarrow> exn + obj" where
  "mined_envelope base sk digits digest =
     (let ident = lit ''sha256:'' @ bytes_hex digest in
      bindr (sign sk digest) (\<lambda>sg.
      let env = dset (dset (dset base (lit ''nonce'') (PStr digits)) (lit ''id'') (PStr ident)) (lit ''sig'') (PStr (bytes_hex sg)) in
      bindr (canonicalize_bytes (PDict env)) (\<lambda>raw.
      bindr (validate_bytes raw) (\<lambda>info.
      bindr (raise_if (vid info \<noteq> ident) (SppError ''identity'' ''mined-id-mismatch'')) (\<lambda>_.
        Inr env)))))"

function mine_width :: "obj \<Rightarrow> bytes \<Rightarrow> bytes \<Rightarrow> nat \<Rightarrow> nat \<Rightarrow> nat \<Rightarrow> nat \<Rightarrow> nat \<Rightarrow> exn + obj option" where
  "mine_width base sk template off width target n hi =
     (if hi < n then Inr None
      else
        let digits = nonce_digits width n; digest = sha256 (patch template off width digits) in
        if from_be digest \<le> target then bindr (mined_envelope base sk digits digest) (\<lambda>env. Inr (Some env))
        else mine_width base sk template off width target (n + 1) hi)"
  by pat_completeness auto
termination
  by (relation "measure (\<lambda>(base, sk, template, off, width, target, n, hi). Suc hi - n)") auto

declare mine_width.simps [simp del]

fun mine_widths :: "obj \<Rightarrow> bytes \<Rightarrow> nat list \<Rightarrow> exn + obj" where
  "mine_widths base sk [] = Inl (SppError ''work'' ''nonce-space-exhausted'')"
| "mine_widths base sk (width # widths) =
     (let lo = (if width = 1 then 0 else 10 ^ (width - 1));
          hi = (if width = 1 then 9 else 10 ^ width - 1) in
      if MAX_NONCE < int lo then Inl (SppError ''work'' ''nonce-space-exhausted'')
      else
        let top = min hi (nat MAX_NONCE);
            placeholder = (if width = 1 then lit ''0'' else lit ''1'' @ replicate (width - 1) (ch CHR ''0'')) in
        bindr (canonicalize_bytes (PDict (dset base (lit ''nonce'') (PStr placeholder)))) (\<lambda>template.
        bindr (case find_sub marker template of Some i \<Rightarrow> Inr i | None \<Rightarrow> Inl (SppError ''work'' ''nonce-not-found'')) (\<lambda>idx.
        bindr (work_units base (length template)) (\<lambda>units.
        bindr (mine_width base sk template (idx + length marker) width (target_for_units units) lo top) (\<lambda>found.
          case found of Some env \<Rightarrow> Inr env | None \<Rightarrow> mine_widths base sk widths)))))"

definition agent_mine :: "obj \<Rightarrow> bytes \<Rightarrow> exn + obj" where
  "agent_mine u sk = mine_widths (filter (\<lambda>p. fst p \<noteq> lit ''nonce'') u) sk [1..<21]"

section \<open>HTTP\<close>

text \<open>The status and body of a reply, or the exception that escapes.\<close>

definition http_raw :: "'w net \<Rightarrow> string \<Rightarrow> pystr \<Rightarrow> bytes option \<Rightarrow> 'w \<Rightarrow> (string + (nat \<times> bytes)) \<times> 'w" where
  "http_raw net meth url data w =
     (let (r, w1) = urlopen net \<lparr>hmethod = meth, hurl = url, hdata = data\<rparr> w in
      (case r of
          Response code (Inr b) \<Rightarrow> Inr (code, b)
        | HTTPError code (Inr b) \<Rightarrow> Inr (code, b)
        | Response code (Inl name) \<Rightarrow> Inl name
        | HTTPError code (Inl name) \<Rightarrow> Inl name
        | Failed name \<Rightarrow> Inl name, w1))"

definition MAX_FETCH_BYTES :: nat where
  "MAX_FETCH_BYTES = 16 * 1024 * 1024"

text \<open>\<^verbatim>\<open>urlparse(locator).scheme.lower()\<close>\<close>

definition is_alpha :: "nat \<Rightarrow> bool" where
  "is_alpha c = (65 \<le> c \<and> c \<le> 90 \<or> 97 \<le> c \<and> c \<le> 122)"

definition scheme_char :: "nat \<Rightarrow> bool" where
  "scheme_char c = (is_alpha c \<or> is_digit c \<or> c = ch CHR ''+'' \<or> c = ch CHR ''-'' \<or> c = ch CHR ''.'')"

definition url_scheme :: "pystr \<Rightarrow> pystr" where
  "url_scheme loc =
     (let s = filter (\<lambda>c. c \<noteq> 9 \<and> c \<noteq> 10 \<and> c \<noteq> 13) (dropWhile (\<lambda>c. c \<le> 32) loc);
          p = takeWhile (\<lambda>c. c \<noteq> ch CHR '':'') s
      in if length p < length s \<and> p \<noteq> [] \<and> is_alpha (hd p) \<and> list_all scheme_char p then lower p else [])"

definition fetch_object :: "'w net \<Rightarrow> pystr \<Rightarrow> 'w \<Rightarrow> (string + bytes) \<times> 'w" where
  "fetch_object net locator w =
     (if url_scheme locator \<noteq> lit ''http'' \<and> url_scheme locator \<noteq> lit ''https'' then (Inl ''ValueError'', w)
      else
        let (r, w1) = urlopen net \<lparr>hmethod = ''GET'', hurl = locator, hdata = None\<rparr> w in
        (case r of
            Response code (Inr b) \<Rightarrow> (if MAX_FETCH_BYTES < length (take (MAX_FETCH_BYTES + 1) b) then Inl ''ValueError'' else Inr b)
          | Response code (Inl name) \<Rightarrow> Inl name
          | HTTPError code b \<Rightarrow> Inl ''HTTPError''
          | Failed name \<Rightarrow> Inl name, w1))"

fun relay_list :: "pystr list \<Rightarrow> pystr list \<Rightarrow> pystr list" where
  "relay_list out [] = out"
| "relay_list out (raw # raws) =
     (let base = relay_url raw [] in
      if base \<noteq> [] \<and> base \<notin> set out then relay_list (out @ [base]) raws else relay_list out raws)"

end
