(* ===== verification/Agent_Commands.thy ===== *)
theory Agent_Commands
  imports Agent
begin

text \<open>
  The commands of \<^verbatim>\<open>examples/agent-a/agent.py\<close>. A command runs on the state directory and the world of
  the network together, so that what it wrote before an exception stays written. Member values
  that are file system paths (\<^verbatim>\<open>state\<close>, \<^verbatim>\<open>file\<close>, \<^verbatim>\<open>saved\<close>) are left out of what is emitted.
\<close>

section \<open>Effects\<close>

type_synonym 'w site = "agent_fs \<times> 'w"

definition on_fs :: "(agent_fs \<Rightarrow> 'a \<times> agent_fs) \<Rightarrow> 'w site \<Rightarrow> 'a run \<times> 'w site" where
  "on_fs f s = (let (x, fs) = f (fst s) in (Returned x, (fs, snd s)))"

definition on_net :: "('w \<Rightarrow> 'a \<times> 'w) \<Rightarrow> 'w site \<Rightarrow> 'a run \<times> 'w site" where
  "on_net f s = (let (x, w) = f (snd s) in (Returned x, (fst s, w)))"

definition load :: "'w site \<Rightarrow> (agent_state \<times> bytes) run \<times> 'w site" where
  "load s = liftw (load_state (fst s)) s"

definition save :: "agent_state \<Rightarrow> 'w site \<Rightarrow> unit run \<times> 'w site" where
  "save st = on_fs (\<lambda>fs. ((), save_state st fs))"

section \<open>init and status\<close>

text \<open>\<open>fresh\<close> is what \<^verbatim>\<open>secrets.token_bytes(32)\<close> yields.\<close>

definition cmd_init :: "bytes \<Rightarrow> 'w site \<Rightarrow> pyval run \<times> 'w site" where
  "cmd_init fresh =
     bindw (\<lambda>s. case key_file (fst s) of
         Some k \<Rightarrow> liftw (bindr (read_key k) (\<lambda>key. Inr (key, False))) s
       | None \<Rightarrow> (Returned (fresh, True), ((fst s)\<lparr>key_file := Some (bytes_hex fresh)\<rparr>, snd s))) (\<lambda>(key, created).
     bindw (liftw (public_from_private key)) (\<lambda>pub.
     let act = lit ''ed25519:'' @ bytes_hex pub in
     bindw (\<lambda>s. (Returned (case state_file (fst s) of
         Some st \<Rightarrow> st | None \<Rightarrow> \<lparr>st_actor = act, st_seen = [], st_published = [], st_objects = []\<rparr>), s)) (\<lambda>st.
     bindw (save (st\<lparr>st_actor := act\<rparr>)) (\<lambda>_.
       liftw (Inr (PDict [(lit ''ok'', PBool True), (lit ''command'', PStr (lit ''init'')), (lit ''actor'', PStr act),
         (lit ''created'', PBool created)]))))))"

definition cmd_status :: "'w site \<Rightarrow> pyval run \<times> 'w site" where
  "cmd_status =
     bindw load (\<lambda>(st, _). liftw (Inr (PDict
       [(lit ''ok'', PBool True), (lit ''command'', PStr (lit ''status'')), (lit ''actor'', PStr (st_actor st)),
        (lit ''seen'', PList (map PStr (st_seen st))), (lit ''published'', PList (map PStr (st_published st))),
        (lit ''objects'', PList (map PStr (st_objects st)))])))"

section \<open>Submitting to relays\<close>

record relay_result =
  rr_relay :: pystr
  rr_answered :: bool
  rr_status :: nat
  rr_duplicate :: bool
  rr_error :: pyval
  rr_id :: pyval

text \<open>
  The reply's JSON, or a dictionary with the one member \<^verbatim>\<open>raw\<close>, which is never read. Anything else than
  a dictionary makes \<^verbatim>\<open>body.get\<close> raise.
\<close>

definition reply_dict :: "bytes \<Rightarrow> exn + obj" where
  "reply_dict resp = (case loads_bytes resp of
       Inl _ \<Rightarrow> Inr []
     | Inr (PDict d) \<Rightarrow> Inr d
     | Inr _ \<Rightarrow> Inl AttributeError)"

fun submit_all :: "'w net \<Rightarrow> bytes \<Rightarrow> pystr list \<Rightarrow> 'w site \<Rightarrow> relay_result list run \<times> 'w site" where
  "submit_all net raw [] s = (Returned [], s)"
| "submit_all net raw (base # bases) s =
     bindw (on_net (http_raw net ''POST'' (relay_url base (lit ''/v1/assertions'')) (Some raw))) (\<lambda>r.
     bindw (case r of
         Inl name \<Rightarrow> liftw (Inr \<lparr>rr_relay = base, rr_answered = False, rr_status = 0, rr_duplicate = False, rr_error = PStr (lit name), rr_id = PNone\<rparr>)
       | Inr (code, resp) \<Rightarrow> liftw (bindr (reply_dict resp) (\<lambda>d. Inr \<lparr>rr_relay = base, rr_answered = True, rr_status = code,
           rr_duplicate = truthy (get_or d ''duplicate'' (PBool False)), rr_error = get_or d ''error'' PNone,
           rr_id = get_or d ''id'' PNone\<rparr>))) (\<lambda>x.
     bindw (submit_all net raw bases) (\<lambda>xs. liftw (Inr (x # xs))))) s"

definition stored_by :: "relay_result list \<Rightarrow> bool" where
  "stored_by rs = list_ex (\<lambda>r. rr_status r = 200) rs"

text \<open>The status of the first relay that answered; an unreachable relay has none.\<close>

definition first_status :: "relay_result list \<Rightarrow> pyval" where
  "first_status rs = (case filter rr_answered rs of [] \<Rightarrow> PNone | r # _ \<Rightarrow> PInt (int (rr_status r)))"

definition all_duplicates :: "relay_result list \<Rightarrow> bool" where
  "all_duplicates rs =
     (let acc = filter (\<lambda>r. rr_status r = 200) rs in acc \<noteq> [] \<and> list_all rr_duplicate acc)"

definition first_error :: "relay_result list \<Rightarrow> pyval" where
  "first_error rs = (case filter (\<lambda>r. rr_status r \<noteq> 200) rs of [] \<Rightarrow> PNone | r # _ \<Rightarrow> rr_error r)"

text \<open>The per-relay entries of what is emitted.\<close>

definition publish_entry :: "relay_result \<Rightarrow> pyval" where
  "publish_entry r = PDict
     [(lit ''relay'', PStr (rr_relay r)), (lit ''status'', PInt (int (rr_status r))), (lit ''duplicate'', PBool (rr_duplicate r)),
      (lit ''error'', rr_error r)]"

definition submit_entry :: "relay_result \<Rightarrow> pyval" where
  "submit_entry r = PDict
     ([(lit ''relay'', PStr (rr_relay r)), (lit ''status'', PInt (int (rr_status r))), (lit ''error'', rr_error r)] @
      (if rr_answered r then [(lit ''response_id'', rr_id r), (lit ''duplicate'', PBool (rr_duplicate r))] else []))"

section \<open>publish\<close>

definition append_new :: "pystr \<Rightarrow> pystr list \<Rightarrow> pystr list" where
  "append_new x xs = (if x \<in> set xs then xs else xs @ [x])"

definition pointer_body :: "pystr \<Rightarrow> pystr \<Rightarrow> binary64 \<Rightarrow> pystr \<Rightarrow> pystr \<Rightarrow> pystr \<Rightarrow> obj" where
  "pointer_body act chan created objhash locator parents =
     [(lit ''v'', PFloat f64_one), (lit ''type'', PStr (lit ''pointer'')), (lit ''actor'', PStr act),
      (lit ''channel'', PStr chan), (lit ''created'', PFloat created),
      (lit ''ref'', PDict [(lit ''hash'', PStr objhash), (lit ''locators'', PList [PStr locator])])] @
     (if parents = [] then []
      else [(lit ''parents'', PList (map PStr (filter (\<lambda>x. x \<noteq> []) (split_on (ch CHR '','') parents))))])"

text \<open>Mining, the canonical bytes, and the file of the published envelope.\<close>

definition mine_and_keep :: "obj \<Rightarrow> bytes \<Rightarrow> 'w site \<Rightarrow> (pystr \<times> bytes) run \<times> 'w site" where
  "mine_and_keep u key =
     bindw (liftw (agent_mine u key)) (\<lambda>env.
     bindw (liftw (canonicalize_bytes (PDict env))) (\<lambda>raw.
     bindw (liftw (bindr (getitem env ''id'') as_text)) (\<lambda>ident.
     bindw (liftw (after_colon ident)) (\<lambda>hex.
     bindw (on_fs (\<lambda>fs. ((), fs\<lparr>published_dir := dset (published_dir fs) hex raw\<rparr>))) (\<lambda>_.
       liftw (Inr (ident, raw)))))))"

definition cmd_publish :: "'w net \<Rightarrow> pystr list \<Rightarrow> pystr \<Rightarrow> bytes \<Rightarrow> pystr \<Rightarrow> pystr \<Rightarrow> int \<Rightarrow> 'w site \<Rightarrow> pyval run \<times> 'w site" where
  "cmd_publish net relays chan data object_base parents created =
     bindw load (\<lambda>(st, key).
     bindw (liftw (raise_if (\<not> sha256_id_match chan) (SystemExit ''invalid channel''))) (\<lambda>_.
     bindw (on_fs (store_object data)) (\<lambda>(objhash, objhex).
     let locator = relay_url object_base (lit ''/objects/sha256/'' @ objhex) in
     bindw (liftw (float_of_int created)) (\<lambda>x.
     bindw (mine_and_keep (pointer_body (st_actor st) chan x objhash locator parents) key) (\<lambda>(ident, raw).
     bindw (submit_all net raw (relay_list [] relays)) (\<lambda>rs.
     bindw (if stored_by rs then save (st\<lparr>st_objects := append_new objhash (st_objects st),
           st_published := append_new ident (st_published st)\<rparr>) else liftw (Inr ())) (\<lambda>_.
       liftw (Inr (PDict
         [(lit ''ok'', PBool (stored_by rs)), (lit ''command'', PStr (lit ''publish'')), (lit ''actor'', PStr (st_actor st)),
          (lit ''channel'', PStr chan), (lit ''assertion_id'', PStr ident), (lit ''object_hash'', PStr objhash),
          (lit ''status'', first_status rs), (lit ''duplicate'', PBool (all_duplicates rs)), (lit ''error'', first_error rs), (lit ''stored'', PBool (stored_by rs)),
          (lit ''object_base'', PStr object_base), (lit ''relays'', PList (map publish_entry rs))])))))))))"

definition channel_body :: "pystr \<Rightarrow> binary64 \<Rightarrow> pystr option \<Rightarrow> pystr list \<Rightarrow> obj" where
  "channel_body act created descriptor_hash locators =
     [(lit ''v'', PFloat f64_one), (lit ''type'', PStr (lit ''channel'')), (lit ''actor'', PStr act), (lit ''created'', PFloat created)] @
     (case descriptor_hash of
         Some h \<Rightarrow> if h = [] then [] else [(lit ''descriptor'', PDict [(lit ''hash'', PStr h), (lit ''locators'', PList (map PStr locators))])]
       | None \<Rightarrow> [])"

definition cmd_publish_channel :: "'w net \<Rightarrow> pystr list \<Rightarrow> pystr option \<Rightarrow> pystr list \<Rightarrow> int \<Rightarrow> 'w site \<Rightarrow> pyval run \<times> 'w site" where
  "cmd_publish_channel net relays descriptor_hash locators created =
     bindw load (\<lambda>(st, key).
     bindw (liftw (float_of_int created)) (\<lambda>x.
     bindw (mine_and_keep (channel_body (st_actor st) x descriptor_hash locators) key) (\<lambda>(ident, raw).
     bindw (submit_all net raw (relay_list [] relays)) (\<lambda>rs.
     bindw (if stored_by rs \<and> ident \<notin> set (st_published st)
         then save (st\<lparr>st_published := st_published st @ [ident]\<rparr>) else liftw (Inr ())) (\<lambda>_.
       liftw (Inr (PDict
         [(lit ''ok'', PBool (stored_by rs)), (lit ''command'', PStr (lit ''publish-channel'')), (lit ''actor'', PStr (st_actor st)),
          (lit ''assertion_id'', PStr ident), (lit ''status'', first_status rs), (lit ''duplicate'', PBool (all_duplicates rs)),
          (lit ''error'', first_error rs), (lit ''relays'', PList (map publish_entry rs))])))))))"

section \<open>submit\<close>

definition cmd_submit :: "'w net \<Rightarrow> pystr list \<Rightarrow> bytes \<Rightarrow> 'w site \<Rightarrow> pyval run \<times> 'w site" where
  "cmd_submit net relays raw =
     (let ident = (case loads_bytes raw of Inr (PDict d) \<Rightarrow> get_or d ''id'' PNone | _ \<Rightarrow> PNone) in
     bindw (submit_all net raw (relay_list [] relays)) (\<lambda>rs.
       liftw (Inr (PDict
         [(lit ''ok'', PBool (stored_by rs)), (lit ''command'', PStr (lit ''submit'')), (lit ''status'', first_status rs), (lit ''error'', first_error rs),
          (lit ''assertion_id'', ident),
          (lit ''response_id'', case filter (\<lambda>r. rr_status r = 200) rs of [] \<Rightarrow> PNone | r # _ \<Rightarrow> rr_id r),
          (lit ''duplicate'', PBool (all_duplicates rs)), (lit ''relays'', PList (map submit_entry rs))]))))"

section \<open>The object server\<close>

text \<open>\<^verbatim>\<open>_send\<close>: the status line, the two headers and the body.\<close>

definition send_object :: "nat \<Rightarrow> bytes \<Rightarrow> string \<Rightarrow> http_reply" where
  "send_object code data ctype = \<lparr>rp_status = code, rp_type = ctype, rp_length = str_nat (length data), rp_body = data\<rparr>"

definition object_get :: "pystr \<Rightarrow> agent_fs \<Rightarrow> http_reply" where
  "object_get p fs =
     (if p = lit ''/health'' then send_object 200 (asc ''ok'') ''text/plain''
      else if \<not> (take 16 p = lit ''/objects/sha256/'' \<and> hex64_match (drop 16 p)) then send_object 404 (asc ''not found'') ''text/plain''
      else case dget (objects_dir fs) (drop 16 p) of
          None \<Rightarrow> send_object 404 (asc ''not found'') ''text/plain''
        | Some data \<Rightarrow> send_object 200 data ''application/octet-stream'')"

end
