(* ===== verification/Agent_Poll.thy ===== *)
theory Agent_Poll
  imports Agent_Commands
begin

text \<open>
  The poll command: read a channel's listing from each relay, validate every item with the
  reference verifier, fetch the object of each new pointer and keep it only when its hash is the
  one the pointer names. The two Python sets \<^verbatim>\<open>seen_set\<close> and \<^verbatim>\<open>object_set\<close> hold the members of the lists
  beside them, so the model tests the lists.
\<close>

section \<open>Fetching a referenced object\<close>

record fetch_state =
  f_locator :: pyval
  f_fetched :: bool
  f_hash_ok :: bool
  f_stored :: bool
  f_reason :: "string option"

definition no_fetch :: fetch_state where
  "no_fetch = \<lparr>f_locator = PNone, f_fetched = False, f_hash_ok = False, f_stored = False, f_reason = None\<rparr>"

definition try_fetch :: "'w net \<Rightarrow> pyval \<Rightarrow> 'w \<Rightarrow> (string + bytes) \<times> 'w" where
  "try_fetch net loc w = (case loc of PStr s \<Rightarrow> fetch_object net s w | _ \<Rightarrow> (Inl ''AttributeError'', w))"

fun fetch_loop :: "'w net \<Rightarrow> pystr \<Rightarrow> pyval list \<Rightarrow> fetch_state \<Rightarrow> pystr list \<Rightarrow> 'w site \<Rightarrow> (fetch_state \<times> pystr list) \<times> 'w site" where
  "fetch_loop net want [] f objects s = ((f, objects), s)"
| "fetch_loop net want (loc # locs) f objects (fs, w) =
     (let f1 = f\<lparr>f_locator := loc\<rparr> in case try_fetch net loc w of
         (Inl name, w1) \<Rightarrow> fetch_loop net want locs (f1\<lparr>f_reason := Some (''fetch:'' @ name)\<rparr>) objects (fs, w1)
       | (Inr data, w1) \<Rightarrow>
           if object_id data = want then
             ((f1\<lparr>f_fetched := True, f_hash_ok := True, f_stored := True, f_reason := None\<rparr>, append_new want objects),
              (snd (store_object data fs), w1))
           else fetch_loop net want locs
             (f1\<lparr>f_fetched := True, f_hash_ok := False, f_reason := Some ''hash-mismatch''\<rparr>) objects (fs, w1))"

definition final_reason :: "fetch_state \<Rightarrow> string option" where
  "final_reason f =
     (if \<not> f_fetched f then (case f_reason f of None \<Rightarrow> Some ''no-usable-locator'' | Some r \<Rightarrow> Some r) else f_reason f)"

section \<open>One candidate\<close>

record poll_state =
  p_seen :: "pystr list"
  p_objects :: "pystr list"
  p_processed :: "pystr list"
  p_discovered :: nat
  p_results :: "obj list"

definition opt_text :: "string option \<Rightarrow> pyval" where
  "opt_text r = (case r of None \<Rightarrow> PNone | Some t \<Rightarrow> PStr (lit t))"

definition invalid_entry :: "pystr \<Rightarrow> obj \<Rightarrow> string \<Rightarrow> obj" where
  "invalid_entry base env reason =
     [(lit ''assertion_id'', get_or env ''id'' PNone), (lit ''valid'', PBool False), (lit ''new'', PBool False),
      (lit ''reason'', PStr (lit reason)), (lit ''relay'', PStr base)]"

definition known_entry :: "pystr \<Rightarrow> obj \<Rightarrow> pystr \<Rightarrow> obj" where
  "known_entry base env aid =
     [(lit ''assertion_id'', PStr aid), (lit ''valid'', PBool True), (lit ''new'', PBool False), (lit ''type'', get_or env ''type'' PNone),
      (lit ''reason'', PStr (lit ''duplicate'')), (lit ''relay'', PStr base)]"

definition new_entry :: "pystr \<Rightarrow> obj \<Rightarrow> pystr \<Rightarrow> pyval \<Rightarrow> fetch_state \<Rightarrow> string option \<Rightarrow> obj" where
  "new_entry base env aid objhash f reason =
     [(lit ''assertion_id'', PStr aid), (lit ''valid'', PBool True), (lit ''new'', PBool True), (lit ''type'', get_or env ''type'' PNone),
      (lit ''actor'', get_or env ''actor'' PNone), (lit ''object_hash'', objhash), (lit ''locator'', f_locator f),
      (lit ''fetched'', PBool (f_fetched f)), (lit ''hash_ok'', PBool (f_hash_ok f)), (lit ''stored'', PBool (f_stored f)),
      (lit ''reason'', opt_text reason), (lit ''relay'', PStr base)]"

definition as_obj :: "pyval \<Rightarrow> exn + obj" where
  "as_obj v = (case v of PDict d \<Rightarrow> Inr d | _ \<Rightarrow> Inl AttributeError)"

definition add_result :: "obj \<Rightarrow> poll_state \<Rightarrow> poll_state" where
  "add_result r p = p\<lparr>p_results := p_results p @ [r]\<rparr>"

text \<open>A new valid assertion: a pointer's object is fetched from its locators in turn.\<close>

definition accept_new :: "'w net \<Rightarrow> pystr \<Rightarrow> obj \<Rightarrow> pystr \<Rightarrow> poll_state \<Rightarrow> 'w site \<Rightarrow> poll_state run \<times> 'w site" where
  "accept_new net base env aid p =
     (let p1 = p\<lparr>p_seen := p_seen p @ [aid]\<rparr> in
      if get_or env ''type'' PNone = PStr (lit ''pointer'') then
        bindw (liftw (bindr (getitem env ''ref'') (\<lambda>r. bindr (bindr (subscript r ''hash'') as_text) (\<lambda>want.
          bindr (bindr (subscript r ''locators'') py_iter) (\<lambda>locs. Inr (want, locs)))))) (\<lambda>(want, locs) s.
        let ((f, objects), s1) = fetch_loop net want locs no_fetch (p_objects p1) s in
        (Returned (add_result (new_entry base env aid (PStr want) f (final_reason f)) (p1\<lparr>p_objects := objects\<rparr>)), s1))
      else liftw (Inr (add_result (new_entry base env aid PNone no_fetch None) p1)))"

definition consider_item :: "'w net \<Rightarrow> pystr \<Rightarrow> pyval \<Rightarrow> poll_state \<Rightarrow> 'w site \<Rightarrow> poll_state run \<times> 'w site" where
  "consider_item net base item p =
     (let p1 = p\<lparr>p_discovered := p_discovered p + 1\<rparr> in
      bindw (liftw (dumps_bytes item)) (\<lambda>ser. case validate_bytes ser of
          Inl (UnsupportedError stage reason) \<Rightarrow>
            bindw (liftw (as_obj item)) (\<lambda>env. liftw (Inr (add_result (invalid_entry base env (''unsupported:'' @ reason)) p1)))
        | Inl (SppError stage reason) \<Rightarrow>
            bindw (liftw (as_obj item)) (\<lambda>env. liftw (Inr (add_result (invalid_entry base env (stage @ '':'' @ reason)) p1)))
        | Inl e \<Rightarrow> liftw (Inl e)
        | Inr info \<Rightarrow>
            let aid = vid info in
            if aid \<in> set (p_processed p1) then liftw (Inr p1)
            else
              let p2 = p1\<lparr>p_processed := p_processed p1 @ [aid]\<rparr> in
              bindw (liftw (as_obj item)) (\<lambda>env.
                if aid \<in> set (p_seen p2) then liftw (Inr (add_result (known_entry base env aid) p2))
                else accept_new net base env aid p2)))"

fun consider_all :: "'w net \<Rightarrow> pystr \<Rightarrow> pyval list \<Rightarrow> poll_state \<Rightarrow> 'w site \<Rightarrow> poll_state run \<times> 'w site" where
  "consider_all net base [] p s = (Returned p, s)"
| "consider_all net base (v # vs) p s = bindw (consider_item net base v p) (\<lambda>p1. consider_all net base vs p1) s"

section \<open>Pages and relays\<close>

definition relay_failure :: "pystr \<Rightarrow> pystr \<Rightarrow> pystr" where
  "relay_failure p why = lit ''relay:GET '' @ p @ lit '' -> '' @ why"

text \<open>\<^verbatim>\<open>_list_page\<close>: the message of the \<^verbatim>\<open>SppError\<close> it raises, or the decoded page.\<close>

definition list_page :: "'w net \<Rightarrow> pystr \<Rightarrow> pystr \<Rightarrow> pyval \<Rightarrow> 'w site \<Rightarrow> (pystr + pyval) run \<times> 'w site" where
  "list_page net base p cursor =
     bindw (liftw (with_cursor (relay_url base p) cursor)) (\<lambda>url.
     bindw (on_net (http_raw net ''GET'' url None)) (\<lambda>r.
       liftw (Inr (case r of
           Inl name \<Rightarrow> Inl (relay_failure p (lit name))
         | Inr (code, raw) \<Rightarrow>
             if code \<noteq> 200 then Inl (relay_failure p (str_nat code))
             else (case loads_bytes raw of Inr v \<Rightarrow> Inr v | Inl _ \<Rightarrow> Inl (relay_failure p (lit ''malformed-json'')))))))"

text \<open>The pages read from one relay and its errors; the fuel bounds the pages.\<close>

fun poll_relay :: "nat \<Rightarrow> 'w net \<Rightarrow> pystr \<Rightarrow> pystr \<Rightarrow> pyval \<Rightarrow> nat \<Rightarrow> poll_state \<Rightarrow> 'w site \<Rightarrow>
    (nat \<times> pystr list \<times> poll_state) run \<times> 'w site" where
  "poll_relay 0 net base pth cursor pages p s = (Running, s)"
| "poll_relay (Suc n) net base pth cursor pages p s =
     bindw (list_page net base pth cursor) (\<lambda>r. case r of
         Inl msg \<Rightarrow> liftw (Inr (pages, [msg], p))
       | Inr pg \<Rightarrow>
           bindw (liftw (as_obj pg)) (\<lambda>d.
           bindw (liftw (py_iter (get_or d ''items'' (PList [])))) (\<lambda>items.
           bindw (consider_all net base items p) (\<lambda>p1.
             if \<not> truthy (get_or d ''next'' PNone) then liftw (Inr (pages + 1, [], p1))
             else poll_relay n net base pth (get_or d ''next'' PNone) (pages + 1) p1)))) s"

record relay_report =
  rp_relay :: pystr
  rp_pages :: nat
  rp_errors :: "pystr list"

fun poll_relays :: "nat \<Rightarrow> 'w net \<Rightarrow> pystr \<Rightarrow> pystr list \<Rightarrow> poll_state \<Rightarrow> 'w site \<Rightarrow> (relay_report list \<times> poll_state) run \<times> 'w site" where
  "poll_relays n net pth [] p s = (Returned ([], p), s)"
| "poll_relays n net pth (base # bases) p s =
     bindw (poll_relay n net base pth PNone 0 p) (\<lambda>(pages, errs, p1).
     bindw (poll_relays n net pth bases p1) (\<lambda>(reports, p2).
       liftw (Inr (\<lparr>rp_relay = base, rp_pages = pages, rp_errors = errs\<rparr> # reports, p2)))) s"

section \<open>poll\<close>

definition count_true :: "string \<Rightarrow> obj list \<Rightarrow> nat" where
  "count_true k rs = length (filter (\<lambda>r. truthy (get_or r k PNone)) rs)"

definition poll_report :: "pystr \<Rightarrow> pystr \<Rightarrow> relay_report list \<Rightarrow> poll_state \<Rightarrow> pyval" where
  "poll_report act chan reports p = PDict
     [(lit ''ok'', PBool True), (lit ''command'', PStr (lit ''poll'')), (lit ''actor'', PStr act), (lit ''channel'', PStr chan),
      (lit ''pages'', PInt (int (sum_list (map rp_pages reports)))), (lit ''discovered'', PInt (int (p_discovered p))),
      (lit ''new'', PInt (int (count_true ''new'' (p_results p)))), (lit ''valid'', PInt (int (count_true ''valid'' (p_results p)))),
      (lit ''invalid'', PInt (int (length (p_results p) - count_true ''valid'' (p_results p)))),
      (lit ''stored'', PInt (int (count_true ''stored'' (p_results p)))), (lit ''results'', PList (map PDict (p_results p))),
      (lit ''errors'', PList (concat (map (\<lambda>r. map (\<lambda>m. PStr (rp_relay r @ lit '': '' @ m)) (rp_errors r)) reports))),
      (lit ''relays'', PList (map (\<lambda>r. PDict [(lit ''relay'', PStr (rp_relay r)), (lit ''pages'', PInt (int (rp_pages r))),
         (lit ''errors'', PList (map PStr (rp_errors r)))]) reports))]"

definition cmd_poll :: "nat \<Rightarrow> 'w net \<Rightarrow> pystr list \<Rightarrow> pystr \<Rightarrow> 'w site \<Rightarrow> pyval run \<times> 'w site" where
  "cmd_poll n net relays chan =
     bindw load (\<lambda>(st, _).
     bindw (liftw (raise_if (\<not> sha256_id_match chan) (SystemExit ''invalid channel''))) (\<lambda>_.
     bindw (liftw (after_colon chan)) (\<lambda>hex.
     bindw (poll_relays n net (lit ''/v1/channels/sha256/'' @ hex @ lit ''/assertions'') (relay_list [] relays)
         \<lparr>p_seen = st_seen st, p_objects = st_objects st, p_processed = [], p_discovered = 0, p_results = []\<rparr>) (\<lambda>(reports, p).
     bindw (save (st\<lparr>st_seen := p_seen p, st_objects := p_objects p\<rparr>)) (\<lambda>_.
       liftw (Inr (poll_report (st_actor st) chan reports p)))))))"

end
