(* ===== verification/Sync_Facts.thy ===== *)
theory Sync_Facts
  imports Sync
begin

text \<open>
  What the worker does on the wire, whatever the network answers. \<open>traced\<close> wraps a network so that
  its world also holds the requests made. Listing and gathering issue only GET requests; every
  POST goes to the destination with bytes that validate, one per assertion identifier.
\<close>

section \<open>Requests made\<close>

definition traced :: "'w net \<Rightarrow> (http_request list \<times> 'w) net" where
  "traced net = \<lparr>urlopen = (\<lambda>req (tr, w). let (r, w1) = urlopen net req w in (r, (tr @ [req], w1)))\<rparr>"

definition posts :: "http_request list \<Rightarrow> http_request list" where
  "posts tr = filter (\<lambda>r. hmethod r = ''POST'') tr"

definition post_request :: "pystr \<Rightarrow> bytes \<Rightarrow> http_request" where
  "post_request destination b =
     \<lparr>hmethod = ''POST'', hurl = relay_url destination (lit ''/v1/assertions''), hdata = Some b\<rparr>"

lemma posts_simps [simp]:
  "posts [] = []" "posts (xs @ ys) = posts xs @ posts ys" "posts [post_request d b] = [post_request d b]"
  "posts (map (post_request d) bs) = map (post_request d) bs"
  by (induction bs) (simp_all add: posts_def post_request_def)

text \<open>A computation that posts nothing.\<close>

definition quiet :: "(http_request list \<times> 'w \<Rightarrow> 'a \<times> http_request list \<times> 'w) \<Rightarrow> bool" where
  "quiet f = (\<forall>w. posts (fst (snd (f w))) = posts (fst w))"

lemma quiet_get: "quiet (http_get_json (traced net) url)"
  by (auto simp: quiet_def http_get_json_def traced_def Let_def posts_def split: prod.splits)

lemma quiet_liftw: "quiet (liftw m)"
  by (simp add: quiet_def liftw_def split: sum.splits)

lemma quiet_bindw: "quiet m \<Longrightarrow> (\<And>x. quiet (f x)) \<Longrightarrow> quiet (bindw m f)"
  unfolding quiet_def bindw_def by (auto split: prod.splits run.splits) (metis fst_conv snd_conv)+

lemma quiet_get_then:
  "(\<And>c v. quiet (f c v)) \<Longrightarrow> quiet (\<lambda>w. let ((code, pg), w1) = http_get_json (traced net) url w in f code pg w1)"
  using quiet_get [of net url] unfolding quiet_def
  by (auto simp: Let_def split: prod.splits) (metis fst_conv snd_conv)

lemma quiet_page_loop: "quiet (page_loop n (traced net) base p keep acc cursor)"
proof (induction n arbitrary: acc cursor)
  case (Suc n)
  show ?case
  proof (cases "with_cursor (relay_url base p) cursor")
    case (Inl e)
    then show ?thesis by (simp add: quiet_def)
  next
    case (Inr url)
    have "quiet (\<lambda>w. let ((code, pg), w1) = http_get_json (traced net) url w in
        (case pg of
             PDict d \<Rightarrow>
               if code \<noteq> 200 then (Returned (acc, [lit ''GET '' @ p @ lit '' -> '' @ str_nat code]), w1)
               else (case py_iter (get_or d ''items'' (PList [])) of
                   Inl e \<Rightarrow> (Raises e, w1)
                 | Inr vs \<Rightarrow>
                     if \<not> truthy (get_or d ''next'' PNone) then (Returned (acc @ List.map_filter keep vs, []), w1)
                     else page_loop n (traced net) base p keep (acc @ List.map_filter keep vs) (get_or d ''next'' PNone) w1)
           | _ \<Rightarrow> (Returned (acc, [lit ''GET '' @ p @ lit '' -> '' @ str_nat code]), w1)))"
      by (rule quiet_get_then) (use Suc.IH in \<open>auto simp: quiet_def split: pyval.splits sum.splits\<close>)
    then show ?thesis using Inr by (simp add: Let_def)
  qed
qed (simp add: quiet_def)

lemma quiet_fetch_one: "quiet (fetch_one (traced net) source hex)"
  unfolding fetch_one_def by (rule quiet_get_then) (simp add: quiet_def)

lemma quiet_gather: "quiet (gather n (traced net) source adv cids)"
proof (induction cids)
  case (Cons cid cids)
  have "quiet (bindw (liftw (after_colon cid)) (\<lambda>hexid.
     bindw (list_channel n (traced net) source hexid) (\<lambda>(items, errs).
     bindw (if adv then fetch_one (traced net) source hexid else liftw (Inr [])) (\<lambda>one.
     bindw (gather n (traced net) source adv cids) (\<lambda>(more, errs2).
       liftw (Inr (map (Pair cid) (items @ one) @ more, errs @ errs2)))))))"
    using Cons by (auto intro!: quiet_bindw quiet_page_loop quiet_fetch_one quiet_liftw simp: list_channel_def [abs_def] split: prod.splits)
  then show ?case by (simp add: quiet_def)
qed (simp add: quiet_def)

section \<open>Forwarding\<close>

definition id_of_bytes :: "bytes \<Rightarrow> pystr option" where
  "id_of_bytes b = (case validate_bytes b of Inr info \<Rightarrow> Some (vid info) | Inl _ \<Rightarrow> None)"

lemma recheck_Inr: "recheck env = Inr (raw, aid) \<Longrightarrow> dumps_bytes (PDict env) = Inr raw \<and> id_of_bytes raw = Some aid"
  by (auto simp: recheck_def id_of_bytes_def split: sum.splits exn.splits)

definition valid_ids :: "(pystr \<times> obj) list \<Rightarrow> pystr set" where
  "valid_ids gathered = {aid. \<exists>cid env raw. (cid, env) \<in> set gathered \<and> dumps_bytes (PDict env) = Inr raw \<and> id_of_bytes raw = Some aid}"

lemma recheck_iff: "(\<exists>raw. recheck env = Inr (raw, aid)) \<longleftrightarrow> (\<exists>raw. dumps_bytes (PDict env) = Inr raw \<and> id_of_bytes raw = Some aid)"
  by (auto simp: recheck_def id_of_bytes_def split: sum.splits exn.splits)

definition replies :: "tally \<Rightarrow> nat" where
  "replies t = n_forwarded t + n_duplicates t + n_rejected t"

lemma record_reply_keeps [simp]:
  "processed (record_reply cid aid code b t) = processed t" "n_valid (record_reply cid aid code b t) = n_valid t"
  "n_invalid (record_reply cid aid code b t) = n_invalid t" "replies (record_reply cid aid code b t) = Suc (replies t)"
  by (simp_all add: record_reply_def replies_def Let_def)

lemma replies_upd [simp]:
  "replies (t\<lparr>processed := p\<rparr>) = replies t" "replies (t\<lparr>n_valid := v\<rparr>) = replies t"
  "replies (t\<lparr>n_invalid := v\<rparr>) = replies t" "replies (t\<lparr>results := r\<rparr>) = replies t"
  by (simp_all add: replies_def)

lemma post_traced:
  "\<exists>code b w1. http_post_json (traced net) (relay_url d (lit ''/v1/assertions'')) raw (tr, w) = ((code, b), (tr @ [post_request d raw], w1))"
  by (auto simp: http_post_json_def traced_def post_request_def Let_def split: prod.splits)

text \<open>One item: what is posted, which identifier is noted, and how the counts move.\<close>

lemma forward_item_spec:
  obtains B t' w' where "forward_item (traced net) d (cid, env) (t, (tr, w)) = (t', (tr @ map (post_request d) B, w'))"
    "\<exists>as. processed t' = processed t @ as \<and> map id_of_bytes B = map Some as \<and> distinct as \<and> set as \<inter> set (processed t) = {} \<and>
       set (processed t') = set (processed t) \<union> valid_ids [(cid, env)]"
    "n_valid t' + n_invalid t' = Suc (n_valid t + n_invalid t)" "replies t' = replies t + length B"
proof (cases "recheck env")
  case (Inl r)
  then have "valid_ids [(cid, env)] = {}" using recheck_iff [of env] by (auto simp: valid_ids_def)
  then show ?thesis using that [of _ "[]" w] Inl by (simp add: forward_item_def)
next
  case (Inr p)
  obtain raw aid where p: "p = (raw, aid)" by force
  note r = recheck_Inr [OF Inr [unfolded p]]
  have v: "valid_ids [(cid, env)] = {aid}" using r by (auto simp: valid_ids_def)
  show ?thesis
  proof (cases "aid \<in> set (processed t)")
    case True
    then show ?thesis using that [of _ "[]" w] Inr v by (auto simp: forward_item_def p insert_absorb)
  next
    case False
    obtain code b w1 where post: "http_post_json (traced net) (relay_url d (lit ''/v1/assertions'')) raw (tr, w) = ((code, b), (tr @ [post_request d raw], w1))"
      using post_traced by metis
    have "forward_item (traced net) d (cid, env) (t, (tr, w)) =
        (record_reply cid aid code b (t\<lparr>n_valid := n_valid t + 1, processed := processed t @ [aid]\<rparr>), (tr @ map (post_request d) [raw], w1))"
      using False by (simp add: forward_item_def Inr p post)
    then show ?thesis by (rule that) (use False v r in \<open>auto intro!: exI [of _ "[aid]"]\<close>)
  qed
qed

lemma forward_spec:
  "\<exists>B t' w'. fold (forward_item (traced net) d) gathered (t, (tr, w)) = (t', (tr @ map (post_request d) B, w')) \<and>
     (\<exists>as. processed t' = processed t @ as \<and> map id_of_bytes B = map Some as \<and> distinct as \<and> set as \<inter> set (processed t) = {}) \<and>
     set (processed t') = set (processed t) \<union> valid_ids gathered \<and>
     n_valid t' + n_invalid t' = n_valid t + n_invalid t + length gathered \<and> replies t' = replies t + length B"
proof (induction gathered arbitrary: t tr w)
  case Nil
  then show ?case by (auto simp: valid_ids_def intro!: exI [of _ "[]"])
next
  case (Cons item gathered)
  obtain cid env where i: "item = (cid, env)" by force
  obtain B1 t1 w1 as1 where 1: "forward_item (traced net) d (cid, env) (t, (tr, w)) = (t1, (tr @ map (post_request d) B1, w1))"
    "processed t1 = processed t @ as1" "map id_of_bytes B1 = map Some as1" "distinct as1" "set as1 \<inter> set (processed t) = {}"
    "set (processed t1) = set (processed t) \<union> valid_ids [(cid, env)]"
    "n_valid t1 + n_invalid t1 = Suc (n_valid t + n_invalid t)" "replies t1 = replies t + length B1"
    by (rule forward_item_spec [of net d cid env t tr w]) blast
  obtain B2 t2 w2 as2 where 2: "fold (forward_item (traced net) d) gathered (t1, (tr @ map (post_request d) B1, w1)) =
      (t2, ((tr @ map (post_request d) B1) @ map (post_request d) B2, w2))"
    "processed t2 = processed t1 @ as2" "map id_of_bytes B2 = map Some as2" "distinct as2" "set as2 \<inter> set (processed t1) = {}"
    "set (processed t2) = set (processed t1) \<union> valid_ids gathered"
    "n_valid t2 + n_invalid t2 = n_valid t1 + n_invalid t1 + length gathered" "replies t2 = replies t1 + length B2"
    using Cons.IH [of t1 "tr @ map (post_request d) B1" w1] by blast
  have v: "valid_ids (item # gathered) = valid_ids [(cid, env)] \<union> valid_ids gathered" by (auto simp: valid_ids_def i)
  have "fold (forward_item (traced net) d) (item # gathered) (t, (tr, w)) = (t2, (tr @ map (post_request d) (B1 @ B2), w2))"
    using 1(1) 2(1) by (simp add: i)
  moreover have "processed t2 = processed t @ (as1 @ as2)" "map id_of_bytes (B1 @ B2) = map Some (as1 @ as2)"
    "distinct (as1 @ as2)" "set (as1 @ as2) \<inter> set (processed t) = {}" using 1 2 by auto
  moreover have "set (processed t2) = set (processed t) \<union> valid_ids (item # gathered)" using 1(6) 2(6) by (simp add: v Un_assoc)
  moreover have "n_valid t2 + n_invalid t2 = n_valid t + n_invalid t + length (item # gathered)" "replies t2 = replies t + length (B1 @ B2)"
    using 1(7,8) 2(7,8) by simp_all
  ultimately show ?case by blast
qed

lemma forward_all_spec:
  assumes "forward_all (traced net) d gathered (tr, w) = (t, (tr', w'))"
  obtains B where "tr' = tr @ map (post_request d) B" "distinct (map id_of_bytes B)" "None \<notin> set (map id_of_bytes B)"
    "Some ` valid_ids gathered = set (map id_of_bytes B)"
    "n_valid t + n_invalid t = length gathered" "n_forwarded t + n_duplicates t + n_rejected t = length B"
proof -
  obtain B as where B: "tr' = tr @ map (post_request d) B" "processed t = as" "map id_of_bytes B = map Some as" "distinct as"
    "set (processed t) = valid_ids gathered" "n_valid t + n_invalid t = length gathered" "replies t = length B"
    using forward_spec [of net d gathered no_tally tr w] assms
    by (auto simp: forward_all_def) (auto simp: no_tally_def replies_def)
  show thesis
  proof (rule that [OF B(1) _ _ _ B(6)])
    show "distinct (map id_of_bytes B)" unfolding B(3) using B(4) by (simp add: distinct_map)
    show "None \<notin> set (map id_of_bytes B)" "Some ` valid_ids gathered = set (map id_of_bytes B)"
      unfolding B(3) using B(2,5) by auto
    show "n_forwarded t + n_duplicates t + n_rejected t = length B" using B(7) by (simp add: replies_def)
  qed
qed

section \<open>The whole run\<close>

text \<open>The first part of a run, which determines the channels to read.\<close>

definition targets :: "nat \<Rightarrow> 'w net \<Rightarrow> pystr \<Rightarrow> pystr option \<Rightarrow> 'w \<Rightarrow> (pystr list \<times> pystr list) option run \<times> 'w" where
  "targets n net source chan = (case chan of
       Some c \<Rightarrow> liftw (Inr (case channel_hex_of c of None \<Rightarrow> None | Some hex \<Rightarrow> Some ([lit ''sha256:'' @ hex], [])))
     | None \<Rightarrow> bindw (list_advertised n net source) (\<lambda>r. liftw (Inr (Some r))))"

lemma quiet_targets: "quiet (targets n (traced net) source chan)"
  by (auto simp: targets_def list_advertised_def [abs_def] intro!: quiet_bindw quiet_liftw quiet_page_loop split: option.splits)

text \<open>Every run ends before forwarding, having posted nothing, or forwards what it gathered.\<close>

lemma sync_cases:
  assumes "sync n (traced net) source destination chan ([], w) = (out, (tr, w'))"
  obtains (early) "posts tr = []" "\<And>code s. out = Returned (code, s) \<Longrightarrow> code = 2"
  | (full) gathered t errs k tr1 w1 where "posts tr1 = []" "forward_all (traced net) destination gathered (tr1, w1) = (t, (tr, w'))"
      "out = Returned (if errs = [] then 0 else 1, summary source destination chan k (length gathered) t errs)"
proof -
  obtain r tr0 w0 where r: "targets n (traced net) source chan ([], w) = (r, (tr0, w0))" by (metis prod.collapse)
  then have p0: "posts tr0 = []" using quiet_targets [of n net source chan] unfolding quiet_def by (metis fst_conv snd_conv posts_simps(1))
  show thesis
  proof (cases r)
    case (Returned target)
    show thesis
    proof (cases target)
      case None
      then show thesis using assms r Returned p0 early by (auto simp: sync_def bindw_def liftw_def targets_def split: option.splits prod.splits run.splits)
    next
      case (Some ce)
      obtain channels errs where ce: "ce = (channels, errs)" by force
      obtain g tr1 w1 where g: "gather n (traced net) source (chan = None) channels (tr0, w0) = (g, (tr1, w1))" by (metis prod.collapse)
      then have p1: "posts tr1 = []" using quiet_gather [of n net source "chan = None" channels] p0 unfolding quiet_def by (metis fst_conv snd_conv)
      have eq: "(out, (tr, w')) = bindw (gather n (traced net) source (chan = None) channels) (\<lambda>(gathered, errs2) w1.
             let (t, w2) = forward_all (traced net) destination gathered w1; errors = errs @ errs2 in
             (Returned (if errors = [] then 0 else 1,
                summary source destination chan (length channels) (length gathered) t errors), w2)) (tr0, w0)"
        using assms unfolding sync_def targets_def [symmetric] by (simp add: bindw_def [of "targets n (traced net) source chan"] r Returned Some ce)
      show thesis
      proof (cases g)
        case (Returned ge)
        obtain gathered errs2 where ge: "ge = (gathered, errs2)" by force
        obtain t tr2 w2 where fa: "forward_all (traced net) destination gathered (tr1, w1) = (t, (tr2, w2))" by (metis prod.collapse)
        have o: "out = Returned (if errs @ errs2 = [] then 0 else 1,
            summary source destination chan (length channels) (length gathered) t (errs @ errs2))" and "(tr2, w2) = (tr, w')"
          using eq Returned g ge fa by (simp_all add: bindw_def)
        then show thesis using full [OF p1 _ o] fa by simp
      qed (use eq g p1 early in \<open>auto simp: bindw_def\<close>)
    qed
  qed (use assms r p0 early in \<open>auto simp: sync_def targets_def [symmetric] bindw_def [of "targets n (traced net) source chan"]\<close>)
qed

section \<open>A hostile source\<close>

text \<open>
  The listing loop trusts the source for two things: that \<^verbatim>\<open>next\<close> runs out, and that an advertised
  channel is an identifier. A source that names a next page for ever keeps the worker in the loop
  whatever its fuel, and one that advertises text without a colon makes it raise \<^verbatim>\<open>IndexError\<close>.
\<close>

lemma endless_loop:
  assumes "\<And>req w. urlopen net req w = (Response 200 (Inr b), w)" "loads_bytes b = Inr (PDict [(lit ''next'', PStr (lit ''x''))])"
    "truthy cursor \<longrightarrow> cursor = PStr (lit ''x'')"
  shows "page_loop n net base p keep acc cursor w = (Running, w)"
  using assms(3)
proof (induction n arbitrary: acc cursor)
  case (Suc n)
  obtain url where "with_cursor (relay_url base p) cursor = Inr url"
    using Suc.prems by (cases "truthy cursor") (auto simp: with_cursor_def)
  moreover have "lit ''x'' \<noteq> []" by (simp add: lit_def)
  ultimately show ?case
    using Suc.IH by (simp add: http_get_json_def assms(1,2) read_json_def get_or_def py_iter_def)
qed simp

lemma endless_source:
  assumes "\<And>req w. urlopen net req w = (Response 200 (Inr b), w)" "loads_bytes b = Inr (PDict [(lit ''next'', PStr (lit ''x''))])"
  shows "sync n net source destination None w = (Running, w)"
  by (simp add: sync_def bindw_def list_advertised_def endless_loop [OF assms])

definition endless_page :: pystr where
  "endless_page = lit [CHR 0x7B, CHR 0x22, CHR ''n'', CHR ''e'', CHR ''x'', CHR ''t'', CHR 0x22, CHR 0x3A, CHR 0x22, CHR ''x'', CHR 0x22, CHR 0x7D]"

lemma loads_endless_page: "loads_bytes (utf8_bytes endless_page) = Inr (PDict [(lit ''next'', PStr (lit ''x''))])"
proof -
  have "list_all scalar endless_page" by (simp add: endless_page_def lit_def scalar_def is_surrogate_def)
  then show ?thesis
    by (simp add: loads_bytes_def utf8_decode_bytes) (simp add: endless_page_def loads_def lit_def ws_def is_ws_def scan_numeral)
qed

lemma endless_source_exists:
  "sync n \<lparr>urlopen = (\<lambda>req w. (Response 200 (Inr (utf8_bytes endless_page)), w))\<rparr> source destination None () = (Running, ())"
  by (rule endless_source [where b = "utf8_bytes endless_page"]) (simp_all add: loads_endless_page)

lemma bad_channel_raises:
  assumes "ch CHR '':'' \<notin> set cid"
  shows "gather n net source adv (cid # cids) w = (Raises IndexError, w)"
proof -
  have "dropWhile (\<lambda>c. c \<noteq> ch CHR '':'') cid = []" using assms by (auto simp: dropWhile_eq_Nil_conv)
  then have "after_colon cid = Inl IndexError" unfolding after_colon_def by (simp only: list.case)
  then show ?thesis by (simp add: bindw_def liftw_def)
qed

section \<open>Properties\<close>

definition down_net :: "unit net" where
  "down_net = \<lparr>urlopen = (\<lambda>req w. (Failed ''URLError'', w))\<rparr>"



end
