(* ===== verification/Agent_Facts.thy ===== *)
theory Agent_Facts
  imports Agent_Poll Sync_Facts
begin

text \<open>
  The agent's state directory stays consistent under every command, whatever relays and object
  servers answer and also when a command raises: objects are filed under their own hash, published
  files hold valid envelopes under their own identifier, and the state file names only objects and
  assertions that are there, each once.
\<close>

section \<open>The invariant\<close>

definition obj_ids :: "agent_fs \<Rightarrow> pystr set" where
  "obj_ids fs = (\<lambda>p. lit ''sha256:'' @ fst p) ` set (objects_dir fs)"

definition pub_ids :: "agent_fs \<Rightarrow> pystr set" where
  "pub_ids fs = (\<lambda>p. lit ''sha256:'' @ fst p) ` set (published_dir fs)"

definition state_ok :: "agent_state \<Rightarrow> agent_fs \<Rightarrow> bool" where
  "state_ok st fs =
     (set (st_objects st) \<subseteq> obj_ids fs \<and> set (st_published st) \<subseteq> pub_ids fs \<and>
      distinct (st_objects st) \<and> distinct (st_published st) \<and> distinct (st_seen st))"

definition dirs_ok :: "agent_fs \<Rightarrow> bool" where
  "dirs_ok fs =
     ((\<forall>(h, data)\<in>set (objects_dir fs). h = bytes_hex (sha256 data)) \<and>
      (\<forall>(h, raw)\<in>set (published_dir fs). \<exists>info. validate_bytes raw = Inr info \<and> vid info = lit ''sha256:'' @ h))"

definition agent_ok :: "agent_fs \<Rightarrow> bool" where
  "agent_ok fs = (dirs_ok fs \<and> (\<forall>st. state_file fs = Some st \<longrightarrow> state_ok st fs))"

text \<open>What the commands do between loading and saving the state: files are added, the state file stays.\<close>

definition extends :: "agent_fs \<Rightarrow> agent_fs \<Rightarrow> bool" where
  "extends fs fs' = (state_file fs' = state_file fs \<and> obj_ids fs \<subseteq> obj_ids fs' \<and> pub_ids fs \<subseteq> pub_ids fs' \<and> dirs_ok fs')"

lemma extends_refl: "dirs_ok fs \<Longrightarrow> extends fs fs"
  by (simp add: extends_def)

lemma extends_trans: "extends a b \<Longrightarrow> extends b c \<Longrightarrow> extends a c"
  by (auto simp: extends_def)

lemma state_ok_extends: "state_ok st fs \<Longrightarrow> extends fs fs' \<Longrightarrow> state_ok st fs'"
  by (auto simp: state_ok_def extends_def)

lemma agent_ok_extends: "agent_ok fs \<Longrightarrow> extends fs fs' \<Longrightarrow> agent_ok fs'"
  using state_ok_extends by (auto simp: agent_ok_def extends_def)

lemma agent_ok_save: "dirs_ok fs \<Longrightarrow> state_ok st fs \<Longrightarrow> agent_ok (save_state st fs)"
  by (simp add: agent_ok_def save_state_def state_ok_def dirs_ok_def obj_ids_def pub_ids_def)

lemma set_dset: "set (dset d k v) \<subseteq> insert (k, v) (set d)" "(k, v) \<in> set (dset d k v)"
  by (induction d) auto

lemma ids_keys: "(\<lambda>p. f (fst p)) ` set xs = f ` set (map fst xs)"
  by (simp add: image_image)

lemma ids_dset: "(\<lambda>p. f (fst p)) ` set (dset d k v) = insert (f k) ((\<lambda>p. f (fst p)) ` set d)"
  unfolding ids_keys set_keys_dset by simp

section \<open>Computations that only add files\<close>

text \<open>\<open>adds f\<close>: whatever the outcome, \<open>f\<close> extends the directory.\<close>

definition adds :: "('w site \<Rightarrow> 'a run \<times> 'w site) \<Rightarrow> bool" where
  "adds f = (\<forall>s. dirs_ok (fst s) \<longrightarrow> extends (fst s) (fst (snd (f s))))"

lemma adds_liftw [simp]: "adds (liftw m)"
  by (auto simp: adds_def liftw_def extends_refl split: sum.splits)

lemma adds_on_net [simp]: "adds (on_net f)"
  by (auto simp: adds_def on_net_def extends_refl Let_def split: prod.splits)

lemma adds_load [simp]: "adds load"
  by (auto simp: adds_def load_def liftw_def extends_refl split: sum.splits)

lemma adds_bindw:
  assumes "adds m" "\<And>x. adds (f x)"
  shows "adds (bindw m f)"
proof -
  have "extends (fst s) (fst (snd (bindw m f s)))" if d: "dirs_ok (fst s)" for s
  proof -
    obtain r s1 where m: "m s = (r, s1)" by (cases "m s")
    then have e: "extends (fst s) (fst s1)" using assms(1) d unfolding adds_def by (metis snd_conv)
    then have "dirs_ok (fst s1)" by (simp add: extends_def)
    then have "extends (fst s) (fst (snd (f x s1)))" for x using assms(2) e extends_trans unfolding adds_def by blast
    then show ?thesis using m e by (cases r) (simp_all add: bindw_def)
  qed
  then show ?thesis by (simp add: adds_def)
qed

lemma adds_store_object: "adds (on_fs (store_object data))"
  by (auto simp: adds_def on_fs_def store_object_def Let_def extends_def obj_ids_def pub_ids_def dirs_ok_def ids_dset
      dest!: set_dset(1) [THEN subsetD])

lemma object_stored: "lit ''sha256:'' @ bytes_hex (sha256 data) \<in> obj_ids (snd (store_object data fs))"
  using set_dset(2) [of "bytes_hex (sha256 data)" data "objects_dir fs"]
  by (force simp: store_object_def Let_def obj_ids_def dhas_def image_iff)

lemma submit_all_fs: "fst (snd (submit_all net raw bases s)) = fst s"
proof (induction bases arbitrary: s)
  case (Cons b bs)
  show ?case
    by (auto simp: bindw_def on_net_def liftw_def Let_def split: prod.splits run.splits sum.splits)
      (metis Cons.IH fst_conv snd_conv)+
qed simp

lemma adds_submit: "adds (submit_all net raw bases)"
  by (simp add: adds_def submit_all_fs extends_refl)

section \<open>Mining yields valid envelopes\<close>

lemma mined_envelope_valid:
  assumes "mined_envelope base sk digits digest = Inr env"
  shows "\<exists>raw info. canonicalize_bytes (PDict env) = Inr raw \<and> validate_bytes raw = Inr info \<and> dget env (lit ''id'') = Some (PStr (vid info))"
  using assms by (auto simp: mined_envelope_def Let_def res_simps dget_dset)

lemma mine_width_valid:
  "mine_width base sk template off width target n hi = Inr (Some env) \<Longrightarrow>
     \<exists>raw info. canonicalize_bytes (PDict env) = Inr raw \<and> validate_bytes raw = Inr info \<and> dget env (lit ''id'') = Some (PStr (vid info))"
proof (induction base sk template off width target n hi rule: mine_width.induct)
  case (1 base sk template off width target n hi)
  let ?digits = "nonce_digits width n" and ?buf = "patch template off width (nonce_digits width n)"
  have n: "\<not> hi < n" using 1(2) by (auto simp: mine_width.simps [of base sk template off width target n hi])
  show ?case
  proof (cases "from_be (sha256 ?buf) \<le> target")
    case True
    then have "mined_envelope base sk ?digits (sha256 ?buf) = Inr env"
      using 1(2) n by (subst (asm) mine_width.simps) (simp add: Let_def bindr_eq_Inr)
    then show ?thesis by (rule mined_envelope_valid)
  next
    case False
    then have "mine_width base sk template off width target (n + 1) hi = Inr (Some env)"
      using 1(2) n by (subst (asm) mine_width.simps) (simp add: Let_def)
    then show ?thesis using 1(1) [OF n refl refl False] by simp
  qed
qed

lemma mine_widths_valid:
  "mine_widths base sk widths = Inr env \<Longrightarrow>
     \<exists>raw info. canonicalize_bytes (PDict env) = Inr raw \<and> validate_bytes raw = Inr info \<and> dget env (lit ''id'') = Some (PStr (vid info))"
proof (induction widths)
  case (Cons width widths)
  then show ?case
    by (auto simp: Let_def bindr_eq_Inr split: if_splits option.splits dest!: mine_width_valid)
qed simp

lemma agent_mine_valid:
  "agent_mine u sk = Inr env \<Longrightarrow>
     \<exists>raw info. canonicalize_bytes (PDict env) = Inr raw \<and> validate_bytes raw = Inr info \<and> dget env (lit ''id'') = Some (PStr (vid info))"
  unfolding agent_mine_def by (rule mine_widths_valid)

section \<open>Triples\<close>

text \<open>From a site with \<open>P\<close>, a value returned leaves \<open>Q\<close>; on any other outcome the directory is still consistent.\<close>

definition safe :: "('w site \<Rightarrow> bool) \<Rightarrow> ('w site \<Rightarrow> 'a run \<times> 'w site) \<Rightarrow> ('a \<Rightarrow> 'w site \<Rightarrow> bool) \<Rightarrow> bool" where
  "safe P f Q = (\<forall>s. P s \<longrightarrow> (case f s of (Returned x, s1) \<Rightarrow> Q x s1 | (_, s1) \<Rightarrow> agent_ok (fst s1)))"

lemma safeI:
  assumes "\<And>s r s1. P s \<Longrightarrow> f s = (r, s1) \<Longrightarrow> (case r of Returned x \<Rightarrow> Q x s1 | _ \<Rightarrow> agent_ok (fst s1))"
  shows "safe P f Q"
  unfolding safe_def
proof (intro allI impI)
  fix s assume "P s"
  then show "case f s of (Returned x, s1) \<Rightarrow> Q x s1 | (_, s1) \<Rightarrow> agent_ok (fst s1)"
    using assms [of s "fst (f s)" "snd (f s)"] by (cases "f s") (auto split: run.splits)
qed

lemma safeD: "safe P f Q \<Longrightarrow> P s \<Longrightarrow> f s = (r, s1) \<Longrightarrow> (case r of Returned x \<Rightarrow> Q x s1 | _ \<Rightarrow> agent_ok (fst s1))"
  unfolding safe_def by (drule spec [of _ s]) (auto split: run.splits)

lemma safe_bindw:
  assumes "safe P m Q" "\<And>x. safe (Q x) (f x) R"
  shows "safe P (bindw m f) R"
proof (rule safeI)
  fix s r s1 assume p: "P s" and b: "bindw m f s = (r, s1)"
  obtain q s2 where m: "m s = (q, s2)" by (cases "m s")
  show "case r of Returned x \<Rightarrow> R x s1 | _ \<Rightarrow> agent_ok (fst s1)"
  proof (cases q)
    case (Returned x)
    then have "Q x s2" "f x s2 = (r, s1)" using safeD [OF assms(1) p m] b m by (simp_all add: bindw_def)
    then show ?thesis by (rule safeD [OF assms(2)])
  qed (use safeD [OF assms(1) p m] b m in \<open>auto simp: bindw_def\<close>)
qed

definition held :: "agent_state \<Rightarrow> pystr set \<Rightarrow> pystr set \<Rightarrow> 'w site \<Rightarrow> bool" where
  "held st A B s = (agent_ok (fst s) \<and> state_ok st (fst s) \<and> A \<subseteq> obj_ids (fst s) \<and> B \<subseteq> pub_ids (fst s))"

lemma held_extends: "held st A B s \<Longrightarrow> extends (fst s) (fst s1) \<Longrightarrow> held st A B s1"
  using agent_ok_extends state_ok_extends by (fastforce simp: held_def extends_def)

lemma held_dirs: "held st A B s \<Longrightarrow> dirs_ok (fst s)"
  by (simp add: held_def agent_ok_def)

lemma held_ok: "held st A B s \<Longrightarrow> agent_ok (fst s)"
  by (simp add: held_def)

lemma safe_adds:
  assumes "adds f"
  shows "safe (held st A B) f (\<lambda>_. held st A B)"
proof -
  have "held st A B s1" if "held st A B s" "f s = (r, s1)" for s r s1
  proof (rule held_extends [OF that(1)])
    show "extends (fst s) (fst s1)" using assms held_dirs [OF that(1)] that(2) unfolding adds_def by (metis snd_conv)
  qed
  then have "\<And>s r s1. held st A B s \<Longrightarrow> f s = (r, s1) \<Longrightarrow> held st A B s1 \<and> agent_ok (fst s1)" using held_ok by blast
  then show ?thesis by (intro safeI) (simp split: run.splits)
qed

lemma safe_load: "safe (\<lambda>s. agent_ok (fst s)) load (\<lambda>(st, _). held st {} {})"
  by (auto simp: safe_def load_def load_state_def liftw_def held_def agent_ok_def bindr_def split: prod.splits option.splits sum.splits)

lemma safe_store:
  "safe (held st A B) (on_fs (store_object data)) (\<lambda>(oh, _). held st (insert oh A) B)"
proof -
  have "held st (insert (lit ''sha256:'' @ bytes_hex (sha256 data)) A) B (snd (store_object data fs), w)" if "held st A B (fs, w)" for fs and w :: 'a
  proof -
    have "extends fs (snd (store_object data fs))"
      using adds_store_object [of data] held_dirs [OF that] unfolding adds_def on_fs_def Let_def
      by (cases "store_object data fs") force
    then have "held st A B (snd (store_object data fs), w)" using held_extends [OF that, of "(snd (store_object data fs), w)"] by simp
    then show ?thesis using object_stored [of data fs] by (simp add: held_def)
  qed
  then show ?thesis by (auto simp: safe_def on_fs_def store_object_def Let_def split: prod.splits if_splits)
qed

lemma safe_final: "safe (\<lambda>s. agent_ok (fst s)) (liftw m) (\<lambda>_ s. agent_ok (fst s))"
  by (auto simp: safe_def liftw_def split: sum.splits)

lemma safe_save:
  assumes "set (st_objects st') \<subseteq> set (st_objects st) \<union> A" "set (st_published st') \<subseteq> set (st_published st) \<union> B"
    "distinct (st_objects st')" "distinct (st_published st')" "distinct (st_seen st')"
  shows "safe (held st A B) (save st') (\<lambda>_ s. agent_ok (fst s))"
proof -
  have "agent_ok (save_state st' fs)" if "held st A B (fs, w)" for fs and w :: 'a
  proof (rule agent_ok_save)
    show "dirs_ok fs" using held_dirs [OF that] by simp
    show "state_ok st' fs" using that assms by (auto simp: held_def state_ok_def)
  qed
  then show ?thesis by (auto simp: safe_def save_def on_fs_def)
qed

lemma safe_weaken:
  assumes "safe P f Q" "\<And>s. P' s \<Longrightarrow> P s" "\<And>x s. Q x s \<Longrightarrow> Q' x s"
  shows "safe P' f Q'"
  using safeD [OF assms(1)] assms(2,3) by (intro safeI) (fastforce split: run.splits)

section \<open>Commands\<close>

lemma extends_publish:
  assumes "dirs_ok fs" "validate_bytes raw = Inr info" "vid info = lit ''sha256:'' @ hex"
  shows "extends fs (fs\<lparr>published_dir := dset (published_dir fs) hex raw\<rparr>)"
  using assms by (auto simp: extends_def obj_ids_def pub_ids_def dirs_ok_def ids_dset dest!: set_dset(1) [THEN subsetD])

lemma safe_mine: "safe (held st A B) (mine_and_keep u key) (\<lambda>(ident, _). held st A (insert ident B))"
proof (rule safeI)
  fix s :: "'a site" and r s1 assume h: "held st A B s" and m: "mine_and_keep u key s = (r, s1)"
  obtain fs w where s: "s = (fs, w)" by force
  show "case r of Returned x \<Rightarrow> (case x of (ident, _) \<Rightarrow> held st A (insert ident B)) s1 | _ \<Rightarrow> agent_ok (fst s1)"
  proof (cases "agent_mine u key")
    case (Inl e)
    then show ?thesis using m held_ok [OF h] by (auto simp: mine_and_keep_def bindw_def liftw_def)
  next
    case (Inr env)
    obtain raw info where v: "canonicalize_bytes (PDict env) = Inr raw" "validate_bytes raw = Inr info"
      "dget env (lit ''id'') = Some (PStr (vid info))" using agent_mine_valid [OF Inr] by blast
    obtain d where "valid_envelope d info" using validate_bytes_Inr [OF v(2)] by blast
    then obtain hex where hex: "vid info = lit ''sha256:'' @ hex" using vid_hex by blast
    let ?fs = "fs\<lparr>published_dir := dset (published_dir fs) hex raw\<rparr>"
    have "mine_and_keep u key s = (Returned (vid info, raw), (?fs, w))"
      using Inr v by (simp add: mine_and_keep_def bindw_def liftw_def getitem_def as_text_def on_fs_def s hex after_colon_id)
    moreover have "held st A B (?fs, w)"
      using held_extends [OF h, of "(?fs, w)"] extends_publish [OF _ v(2) hex] held_dirs [OF h] s by simp
    moreover have "vid info \<in> pub_ids ?fs" by (simp add: pub_ids_def ids_dset hex)
    ultimately show ?thesis using m by (auto simp: held_def)
  qed
qed

text \<open>One rule per kind of step, in the form a chain of steps is proved with.\<close>

lemma safe_steps:
  "(\<And>x. safe (held st A B) (f1 x) R) \<Longrightarrow> safe (held st A B) (bindw (liftw m) f1) R"
  "(\<And>rs. safe (held st A B) (f2 rs) R) \<Longrightarrow> safe (held st A B) (bindw (submit_all net raw bases) f2) R"
  "(\<And>oh hex. safe (held st (insert oh A) B) (f3 (oh, hex)) R) \<Longrightarrow> safe (held st A B) (bindw (on_fs (store_object data)) f3) R"
  "(\<And>ident raw. safe (held st A (insert ident B)) (f4 (ident, raw)) R) \<Longrightarrow> safe (held st A B) (bindw (mine_and_keep u key) f4) R"
  by (rule safe_bindw [OF safe_adds [OF adds_liftw]], simp, rule safe_bindw [OF safe_adds [OF adds_submit]], simp,
      rule safe_bindw [OF safe_store], auto, rule safe_bindw [OF safe_mine], auto)

lemma safe_done: "safe (held st A B) (liftw m) (\<lambda>_ s. agent_ok (fst s))"
  by (rule safe_weaken [OF safe_final]) (auto dest: held_ok)

lemma set_append_new [simp]: "set (append_new x xs) = insert x (set xs)" "distinct (append_new x xs) = distinct xs"
  by (auto simp: append_new_def)

lemma safe_with:
  assumes "\<And>st key. distinct (st_objects st) \<Longrightarrow> distinct (st_published st) \<Longrightarrow> distinct (st_seen st) \<Longrightarrow>
    safe (held st {} {}) (f (st, key)) (\<lambda>_ s. agent_ok (fst s))"
  shows "safe (\<lambda>s. agent_ok (fst s)) (bindw load f) (\<lambda>_ s. agent_ok (fst s))"
proof (rule safe_bindw [OF safe_load], clarsimp)
  fix st key
  show "safe (held st {} {}) (f (st, key)) (\<lambda>_ s. agent_ok (fst s))"
  proof (cases "distinct (st_objects st) \<and> distinct (st_published st) \<and> distinct (st_seen st)")
    case False
    then show ?thesis by (auto simp: safe_def held_def state_ok_def)
  qed (use assms in auto)
qed

lemma safe_maybe_save:
  assumes "b \<Longrightarrow> set (st_objects st') \<subseteq> set (st_objects st) \<union> A" "b \<Longrightarrow> set (st_published st') \<subseteq> set (st_published st) \<union> B"
    "b \<Longrightarrow> distinct (st_objects st') \<and> distinct (st_published st') \<and> distinct (st_seen st')"
  shows "safe (held st A B) (bindw (if b then save st' else liftw (Inr ())) (\<lambda>_. liftw m)) (\<lambda>_ s. agent_ok (fst s))"
  using assms by (intro safe_bindw [OF _ safe_final]) (auto intro!: safe_save safe_done)

lemma safe_publish: "safe (\<lambda>s. agent_ok (fst s)) (cmd_publish net relays chan data object_base parents created) (\<lambda>_ s. agent_ok (fst s))"
  unfolding cmd_publish_def Let_def
  by (rule safe_with, unfold prod.case) (intro safe_steps, unfold prod.case, intro safe_steps, unfold prod.case, intro safe_steps safe_maybe_save; auto)

lemma safe_publish_channel:
  "safe (\<lambda>s. agent_ok (fst s)) (cmd_publish_channel net relays descriptor_hash locators created) (\<lambda>_ s. agent_ok (fst s))"
  unfolding cmd_publish_channel_def Let_def
  by (rule safe_with, unfold prod.case) (intro safe_steps, unfold prod.case, intro safe_steps safe_maybe_save; auto)

lemma safe_submit: "safe (\<lambda>s. agent_ok (fst s)) (cmd_submit net relays raw) (\<lambda>_ s. agent_ok (fst s))"
proof -
  have "safe (\<lambda>s. agent_ok (fst s)) (submit_all net raw bases) (\<lambda>_ s. agent_ok (fst s))" for bases
    using submit_all_fs [of net raw bases] by (intro safeI) (auto split: run.splits dest!: arg_cong [of _ _ "\<lambda>x. fst (snd x)"])
  then show ?thesis unfolding cmd_submit_def Let_def by (rule safe_bindw) (rule safe_final)
qed

lemma agent_ok_key: "agent_ok fs \<Longrightarrow> agent_ok (fs\<lparr>key_file := k\<rparr>)"
  by (simp add: agent_ok_def dirs_ok_def state_ok_def obj_ids_def pub_ids_def)

lemma safe_init: "safe (\<lambda>s. agent_ok (fst s)) (cmd_init fresh) (\<lambda>_ s. agent_ok (fst s))"
proof -
  have key: "safe (\<lambda>s. agent_ok (fst s)) (\<lambda>s. case key_file (fst s) of
         Some k \<Rightarrow> liftw (bindr (read_key k) (\<lambda>key. Inr (key, False))) s
       | None \<Rightarrow> (Returned (fresh, True), ((fst s)\<lparr>key_file := Some (bytes_hex fresh)\<rparr>, snd s))) (\<lambda>_ s. agent_ok (fst s))"
    by (intro safeI) (auto simp: liftw_def agent_ok_key split: option.splits sum.splits)
  have st: "safe (\<lambda>s. agent_ok (fst s)) (\<lambda>s. (Returned (case state_file (fst s) of Some st \<Rightarrow> st
      | None \<Rightarrow> \<lparr>st_actor = act, st_seen = [], st_published = [], st_objects = []\<rparr>), s)) (\<lambda>st. held st {} {})" for act
    by (intro safeI) (auto simp: held_def agent_ok_def state_ok_def split: option.splits)
  have save: "safe (held st {} {}) (bindw (save (st\<lparr>st_actor := act\<rparr>)) (\<lambda>_. liftw m)) (\<lambda>_ s. agent_ok (fst s))" for st act m
  proof (cases "distinct (st_objects st) \<and> distinct (st_published st) \<and> distinct (st_seen st)")
    case True
    then show ?thesis by (intro safe_bindw [OF safe_save safe_final]) auto
  qed (auto simp: safe_def held_def state_ok_def)
  show ?thesis unfolding cmd_init_def Let_def
    by (rule safe_bindw [OF key], unfold split_beta, rule safe_bindw [OF safe_final], rule safe_bindw [OF st], rule save)
qed

section \<open>Polling\<close>

text \<open>The state the poll would save now.\<close>

definition poll_st :: "agent_state \<Rightarrow> poll_state \<Rightarrow> agent_state" where
  "poll_st st p = st\<lparr>st_seen := p_seen p, st_objects := p_objects p\<rparr>"

abbreviation polled :: "agent_state \<Rightarrow> poll_state \<Rightarrow> 'w site \<Rightarrow> bool" where
  "polled st p \<equiv> held (poll_st st p) {} {}"

lemma extends_store: "dirs_ok fs \<Longrightarrow> extends fs (snd (store_object data fs))"
  using adds_store_object [of data] unfolding adds_def on_fs_def Let_def by (cases "store_object data fs") force

lemma fetch_loop_ok:
  assumes "fetch_loop net want locs f objects (fs, w) = ((f', objects'), (fs', w'))"
    "dirs_ok fs" "set objects \<subseteq> obj_ids fs" "distinct objects"
  shows "extends fs fs' \<and> set objects' \<subseteq> obj_ids fs' \<and> distinct objects'"
  using assms(1)
proof (induction locs arbitrary: f w)
  case Nil
  then show ?case using assms by (auto simp: extends_refl)
next
  case (Cons loc locs)
  obtain r w1 where r: "try_fetch net loc w = (r, w1)" by (cases "try_fetch net loc w")
  show ?case
  proof (cases r)
    case (Inl name)
    then show ?thesis using Cons.prems r by (intro Cons.IH) (simp add: Let_def)
  next
    case (Inr data)
    show ?thesis
    proof (cases "object_id data = want")
      case True
      then have "fs' = snd (store_object data fs)" "objects' = append_new want objects"
        using Cons.prems r Inr by (auto simp: Let_def)
      moreover have "want \<in> obj_ids (snd (store_object data fs))" using object_stored [of data fs] True by (simp add: object_id_def)
      ultimately show ?thesis using extends_store [OF assms(2), of data] assms(3,4) by (auto simp: extends_def)
    next
      case False
      then show ?thesis using Cons.prems r Inr by (intro Cons.IH) (simp add: Let_def)
    qed
  qed
qed

lemma polled_results [simp]: "poll_st st (add_result r p) = poll_st st p" "poll_st st (p\<lparr>p_discovered := n\<rparr>) = poll_st st p"
  "poll_st st (p\<lparr>p_processed := xs\<rparr>) = poll_st st p"
  by (simp_all add: poll_st_def add_result_def)

lemma held_seen:
  "held (poll_st st p) A B s \<Longrightarrow> aid \<notin> set (p_seen p) \<Longrightarrow> held (poll_st st (p\<lparr>p_seen := p_seen p @ [aid]\<rparr>)) A B s"
  by (simp add: held_def state_ok_def poll_st_def)

lemma safe_accept_new:
  assumes "aid \<notin> set (p_seen p)"
  shows "safe (polled st p) (accept_new net base env aid p) (\<lambda>p'. polled st p')"
proof -
  let ?p = "p\<lparr>p_seen := p_seen p @ [aid]\<rparr>"
  have fetch: "safe (polled st ?p) (\<lambda>s. let ((f, objects), s1) = fetch_loop net want locs no_fetch (p_objects ?p) s in
        (Returned (add_result (new_entry base env aid (PStr want) f (final_reason f)) (?p\<lparr>p_objects := objects\<rparr>)), s1)) (\<lambda>p'. polled st p')" for want locs
  proof (rule safeI)
    fix s :: "'a site" and r s1
    assume h: "polled st ?p s" and e: "(let ((f, objects), s1) = fetch_loop net want locs no_fetch (p_objects ?p) s in
        (Returned (add_result (new_entry base env aid (PStr want) f (final_reason f)) (?p\<lparr>p_objects := objects\<rparr>)), s1)) = (r, s1)"
    obtain fs w where s: "s = (fs, w)" by force
    obtain f objects fs' w' where l: "fetch_loop net want locs no_fetch (p_objects p) (fs, w) = ((f, objects), (fs', w'))"
      by (metis prod.collapse)
    have "set (p_objects p) \<subseteq> obj_ids fs" "distinct (p_objects p)" using h s by (simp_all add: held_def state_ok_def poll_st_def)
    then have x: "extends fs fs'" "set objects \<subseteq> obj_ids fs'" "distinct objects"
      using fetch_loop_ok [OF l] held_dirs [OF h] s by auto
    then have "polled st ?p (fs', w')" using held_extends [OF h, of "(fs', w')"] s by simp
    then have "polled st (?p\<lparr>p_objects := objects\<rparr>) (fs', w')" using x(2,3) by (simp add: held_def state_ok_def poll_st_def)
    then show "case r of Returned p' \<Rightarrow> polled st p' s1 | _ \<Rightarrow> agent_ok (fst s1)" using e l s by auto
  qed
  have "safe (polled st ?p) (accept_new net base env aid p) (\<lambda>p'. polled st p')"
    unfolding accept_new_def Let_def
  proof (split if_split, intro conjI impI, goal_cases)
    case 1
    show ?case using fetch unfolding Let_def by (intro safe_steps) (simp add: split_beta)
  next
    case 2
    show ?case by (auto simp: safe_def liftw_def)
  qed
  then show ?thesis using held_seen [OF _ assms] by (rule safe_weaken) auto
qed

lemma safe_return: "(\<And>s. P s \<Longrightarrow> Q x s) \<Longrightarrow> safe P (liftw (Inr x)) Q"
  by (simp add: safe_def liftw_def)

lemma safe_raise: "(\<And>s. P s \<Longrightarrow> agent_ok (fst s)) \<Longrightarrow> safe P (liftw (Inl e)) Q"
  by (simp add: safe_def liftw_def)

lemma safe_consider: "safe (polled st p) (consider_item net base item p) (\<lambda>p'. polled st p')"
proof -
  have known: "safe (polled st p) (bindw (liftw (as_obj item)) (\<lambda>env. liftw (Inr (add_result (g env) (p\<lparr>p_discovered := n\<rparr>))))) (\<lambda>p'. polled st p')" for g n
    by (intro safe_steps safe_return) simp
  have new: "safe (polled st p) (bindw (liftw (as_obj item)) (\<lambda>env.
      if aid \<in> set (p_seen p) then liftw (Inr (add_result (known_entry base env aid) q)) else accept_new net base env aid q)) (\<lambda>p'. polled st p')"
    if "poll_st st q = poll_st st p" "p_seen q = p_seen p" for aid q
    using that safe_accept_new [of aid q st net base] by (intro safe_steps) (auto intro!: safe_return)
  show ?thesis unfolding consider_item_def Let_def
    by (rule safe_steps) (auto intro!: known new safe_return safe_raise held_ok split: sum.splits exn.splits)
qed

lemma safe_consider_all: "safe (polled st p) (consider_all net base items p) (\<lambda>p'. polled st p')"
proof (induction items arbitrary: p)
  case Nil
  then show ?case by (simp add: safe_def)
next
  case (Cons v vs)
  have "safe (polled st p) (bindw (consider_item net base v p) (\<lambda>p1. consider_all net base vs p1)) (\<lambda>p'. polled st p')"
    by (rule safe_bindw [OF safe_consider]) (rule Cons.IH)
  then show ?case by (simp add: safe_def)
qed

lemma adds_list_page: "adds (list_page net base pth cursor)"
  unfolding list_page_def by (intro adds_bindw adds_liftw adds_on_net)

lemma safe_poll_relay:
  "safe (polled st p) (poll_relay n net base pth cursor pages p) (\<lambda>(_, _, p'). polled st p')"
proof (induction n arbitrary: cursor pages p)
  case 0
  then show ?case by (simp add: safe_def held_ok)
next
  case (Suc n)
  have more: "safe (polled st q) (if \<not> truthy (get_or d ''next'' PNone) then liftw (Inr (pages + 1, [], q))
      else poll_relay n net base pth (get_or d ''next'' PNone) (pages + 1) q) (\<lambda>(_, _, p'). polled st p')" for d q
    using Suc.IH by (auto intro!: safe_return)
  have "safe (polled st p) (bindw (list_page net base pth cursor) (\<lambda>r. case r of
         Inl msg \<Rightarrow> liftw (Inr (pages, [msg], p))
       | Inr pg \<Rightarrow>
           bindw (liftw (as_obj pg)) (\<lambda>d.
           bindw (liftw (py_iter (get_or d ''items'' (PList [])))) (\<lambda>items.
           bindw (consider_all net base items p) (\<lambda>p1.
             if \<not> truthy (get_or d ''next'' PNone) then liftw (Inr (pages + 1, [], p1))
             else poll_relay n net base pth (get_or d ''next'' PNone) (pages + 1) p1))))) (\<lambda>(_, _, p'). polled st p')"
  proof (rule safe_bindw [OF safe_adds [OF adds_list_page]], goal_cases)
    case (1 r)
    show ?case
      by (cases r) (auto intro!: safe_return safe_steps safe_bindw [OF safe_consider_all] more [simplified])
  qed
  then show ?case by (simp add: safe_def)
qed

lemma safe_poll_relays: "safe (polled st p) (poll_relays n net pth bases p) (\<lambda>(_, p'). polled st p')"
proof (induction bases arbitrary: p)
  case Nil
  then show ?case by (simp add: safe_def)
next
  case (Cons base bases)
  have "safe (polled st p) (bindw (poll_relay n net base pth PNone 0 p) (\<lambda>(pages, errs, p1).
     bindw (poll_relays n net pth bases p1) (\<lambda>(reports, p2).
       liftw (Inr (\<lparr>rp_relay = base, rp_pages = pages, rp_errors = errs\<rparr> # reports, p2))))) (\<lambda>(_, p'). polled st p')"
    by (rule safe_bindw [OF safe_poll_relay]) (auto intro!: safe_bindw [OF Cons.IH] safe_return split: prod.splits)
  then show ?case by (simp add: safe_def)
qed

lemma safe_poll: "safe (\<lambda>s. agent_ok (fst s)) (cmd_poll n net relays chan) (\<lambda>_ s. agent_ok (fst s))"
proof -
  have save: "safe (polled st p) (bindw (save (st\<lparr>st_seen := p_seen p, st_objects := p_objects p\<rparr>)) (\<lambda>_. liftw m)) (\<lambda>_ s. agent_ok (fst s))" for st p m
  proof (cases "distinct (p_objects p) \<and> distinct (st_published st) \<and> distinct (p_seen p)")
    case True
    then show ?thesis by (intro safe_bindw [OF safe_save safe_final]) (auto simp: poll_st_def)
  qed (auto simp: safe_def held_def state_ok_def poll_st_def)
  have start: "safe (held st {} {}) (poll_relays n net pth bases \<lparr>p_seen = st_seen st, p_objects = st_objects st, p_processed = [], p_discovered = 0, p_results = []\<rparr>)
      (\<lambda>(_, p'). polled st p')" for st pth bases
    using safe_poll_relays [of st "\<lparr>p_seen = st_seen st, p_objects = st_objects st, p_processed = [], p_discovered = 0, p_results = []\<rparr>" n net pth bases]
    by (simp add: poll_st_def)
  show ?thesis unfolding cmd_poll_def
    by (rule safe_with, unfold prod.case) (intro safe_steps safe_bindw [OF start], auto intro: save split: prod.splits)
qed

lemma safe_ok: "safe (\<lambda>s. agent_ok (fst s)) f (\<lambda>_ s. agent_ok (fst s)) \<Longrightarrow> agent_ok (fst s) \<Longrightarrow> agent_ok (fst (snd (f s)))"
  unfolding safe_def by (drule spec [of _ s]) (auto split: prod.splits run.splits)

section \<open>Hostile answers\<close>

text \<open>
  The directory survives, but the commands do not always: an item with a lone surrogate makes the
  poll raise before it saves what it has seen, an item that is no object does so when it is
  reported as invalid, and a relay that answers with a JSON array stops a publication after the
  submission and before the state is saved.
\<close>

lemma surrogate_item_raises: "consider_item net base (PStr [0xD800]) p s = (Raises UnicodeEncodeError, s)"
  by (simp add: consider_item_def Let_def bindw_def liftw_def dumps_bytes_def escape_string_def escape_char_def
      utf8_encode_def scalar_def is_surrogate_def)

lemma odd_item_raises:
  assumes "dumps_bytes item = Inr ser" "validate_bytes ser = Inl (SppError stage reason)" "as_dict item = None"
  shows "consider_item net base item p s = (Raises AttributeError, s)"
  using assms by (cases item) (auto simp: consider_item_def Let_def bindw_def liftw_def as_obj_def as_dict_def)

lemma array_reply_raises:
  assumes "loads_bytes resp = Inr (PList vs)"
    "urlopen net \<lparr>hmethod = ''POST'', hurl = relay_url base (lit ''/v1/assertions''), hdata = Some raw\<rparr> w = (Response 200 (Inr resp), w1)"
  shows "submit_all net raw (base # bases) (fs, w) = (Raises AttributeError, (fs, w1))"
  using assms by (simp add: bindw_def on_net_def liftw_def http_raw_def reply_dict_def)

section \<open>A new directory\<close>

definition new_dir :: agent_fs where
  "new_dir = \<lparr>key_file = None, state_file = None, objects_dir = [], published_dir = []\<rparr>"

lemma agent_ok_new: "agent_ok new_dir"
  by (simp add: agent_ok_def new_dir_def dirs_ok_def)

end
