(* ===== verification/Agent_Main.thy ===== *)
theory Agent_Main
  imports Agent_Facts
begin

text \<open>
  The agent as a program: the commands behind \<^verbatim>\<open>main\<close>, the line each emits, the object server, and the
  directories that any history of commands can lead to. The command line is given as parsed; the
  clock, the random bytes and what reading a named file yields are the \<open>surroundings\<close>.
\<close>

section \<open>serve\<close>

text \<open>\<^verbatim>\<open>serve\<close> announces itself; from then on \<open>object_get\<close> answers until the process ends.\<close>

definition cmd_serve :: "pystr \<Rightarrow> int \<Rightarrow> 'w site \<Rightarrow> pyval run \<times> 'w site" where
  "cmd_serve h p =
     bindw load (\<lambda>(st, _). liftw (Inr (PDict
       [(lit ''ok'', PBool True), (lit ''command'', PStr (lit ''serve'')), (lit ''actor'', PStr (st_actor st)),
        (lit ''host'', PStr h), (lit ''port'', PInt p)])))"

section \<open>main\<close>

datatype command =
    Init
  | Status
  | Publish "pystr list" pystr pystr pystr pystr "int option"
  | Publish_Channel "pystr list" "pystr option" "pystr list option" "int option"
  | Poll "pystr list" pystr
  | Submit "pystr list" pystr
  | Serve pystr int

record surroundings =
  clock :: int
  token :: bytes
  read_file :: "pystr \<Rightarrow> exn + bytes"

definition created_at :: "surroundings \<Rightarrow> int option \<Rightarrow> int" where
  "created_at env created = (case created of Some t \<Rightarrow> t | None \<Rightarrow> clock env)"

text \<open>The file is read once the state is loaded and the channel is checked.\<close>

definition publish_file :: "'w net \<Rightarrow> surroundings \<Rightarrow> pystr list \<Rightarrow> pystr \<Rightarrow> pystr \<Rightarrow> pystr \<Rightarrow> pystr \<Rightarrow> int option \<Rightarrow> 'w site \<Rightarrow> pyval run \<times> 'w site" where
  "publish_file net env relays chan file object_base parents created =
     bindw load (\<lambda>_.
     bindw (liftw (raise_if (\<not> sha256_id_match chan) (SystemExit ''invalid channel''))) (\<lambda>_.
     bindw (liftw (read_file env file)) (\<lambda>data.
       cmd_publish net relays chan data object_base parents (created_at env created))))"

fun report_of :: "nat \<Rightarrow> 'w net \<Rightarrow> surroundings \<Rightarrow> command \<Rightarrow> 'w site \<Rightarrow> pyval run \<times> 'w site" where
  "report_of n net env Init = cmd_init (token env)"
| "report_of n net env Status = cmd_status"
| "report_of n net env (Publish relays chan file object_base parents created) = publish_file net env relays chan file object_base parents created"
| "report_of n net env (Publish_Channel relays descriptor_hash locators created) =
     cmd_publish_channel net relays descriptor_hash (case locators of Some ls \<Rightarrow> ls | None \<Rightarrow> []) (created_at env created)"
| "report_of n net env (Poll relays chan) = cmd_poll n net relays chan"
| "report_of n net env (Submit relays file) = bindw (liftw (read_file env file)) (cmd_submit net relays)"
| "report_of n net env (Serve h p) = cmd_serve h p"

definition emit_line :: "pyval \<Rightarrow> exn + pystr" where
  "emit_line v = bindr (dumps v) (\<lambda>t. Inr (t @ [10]))"

text \<open>The exit code and the line on the standard output.\<close>

definition agent_main :: "nat \<Rightarrow> 'w net \<Rightarrow> surroundings \<Rightarrow> command \<Rightarrow> 'w site \<Rightarrow> (int \<times> pystr) run \<times> 'w site" where
  "agent_main n net env c =
     bindw (report_of n net env c) (\<lambda>v. bindw (liftw (emit_line v)) (\<lambda>line. liftw (Inr (0, line))))"

section \<open>Histories\<close>

text \<open>
  The directories (and worlds) a new one can become: commands run one after the other, with any
  network and surroundings each, and the world moves on by itself in between.
\<close>

inductive agent_reach :: "'w site \<Rightarrow> bool" where
  created: "agent_reach (new_dir, w)"
| ran: "agent_reach s \<Longrightarrow> agent_reach (snd (agent_main n net env c s))"
| moved: "agent_reach (fs, w) \<Longrightarrow> agent_reach (fs, w')"

lemma safe_status: "safe (\<lambda>s. agent_ok (fst s)) cmd_status (\<lambda>_ s. agent_ok (fst s))"
  unfolding cmd_status_def by (rule safe_with) (auto intro: safe_done)

lemma safe_serve: "safe (\<lambda>s. agent_ok (fst s)) (cmd_serve h p) (\<lambda>_ s. agent_ok (fst s))"
  unfolding cmd_serve_def by (rule safe_with) (auto intro: safe_done)

lemma safe_pre: "(\<And>x. safe (\<lambda>s. agent_ok (fst s)) (f x) R) \<Longrightarrow> safe (\<lambda>s. agent_ok (fst s)) (bindw (liftw m) f) R"
  by (rule safe_bindw [OF safe_final])

lemma safe_reload: "(\<And>x. safe (\<lambda>s. agent_ok (fst s)) (f x) R) \<Longrightarrow> safe (\<lambda>s. agent_ok (fst s)) (bindw load f) R"
  by (rule safe_bindw [OF safe_weaken [OF safe_load, where Q' = "\<lambda>_ s. agent_ok (fst s)"]]) (auto simp: held_def)

lemma safe_report: "safe (\<lambda>s. agent_ok (fst s)) (report_of n net env c) (\<lambda>_ s. agent_ok (fst s))"
  by (cases c)
    (auto simp: publish_file_def safe_init safe_status safe_publish_channel safe_poll safe_serve intro!: safe_pre safe_reload safe_publish safe_submit)

lemma safe_main: "safe (\<lambda>s. agent_ok (fst s)) (agent_main n net env c) (\<lambda>_ s. agent_ok (fst s))"
  unfolding agent_main_def by (rule safe_bindw [OF safe_report], rule safe_pre, rule safe_final)

lemma reached_ok: "agent_reach s \<Longrightarrow> agent_ok (fst s)"
  by (induction rule: agent_reach.induct) (auto simp: agent_ok_new safe_ok [OF safe_main])



end
