(* ===== verification/Mining.thy ===== *)
theory Mining
  imports Validation
begin

text \<open>
  The mining loop of \<^verbatim>\<open>mine_and_sign\<close>: it stops at the least nonce from \<^verbatim>\<open>start\<close> whose digest meets the
  work target, and what it returns passes every check of the validator but the signature, which
  it passes exactly when the key signed with belongs to the actor named.
\<close>

definition passes :: "obj \<Rightarrow> int \<Rightarrow> bool" where
  "passes body n = (\<exists>jcs units. canonicalize_bytes (PDict (candidate body n)) = Inr jcs \<and>
     work_units (candidate body n) (length jcs) = Inr units \<and> work_ok (from_be (sha256 jcs)) units)"

definition mined :: "obj \<Rightarrow> bytes \<Rightarrow> int \<Rightarrow> bytes \<Rightarrow> bytes \<Rightarrow> obj \<Rightarrow> bool" where
  "mined body sk n jcs sg env = (n \<le> MAX_NONCE \<and> passes body n \<and>
     canonicalize_bytes (PDict (candidate body n)) = Inr jcs \<and> length jcs \<le> MAX_JCS \<and>
     sign sk (sha256 jcs) = Inr sg \<and>
     env = dset (dset (candidate body n) (lit ''id'') (PStr (assertion_id jcs))) (lit ''sig'') (PStr (bytes_hex sg)))"

lemma mine_loop_unfold:
  "mine_loop body sk n =
     (if n \<le> MAX_NONCE then
        bindr (canonicalize_bytes (PDict (candidate body n))) (\<lambda>jcs.
        bindr (raise_if (MAX_JCS < length jcs) (SppError ''length'' ''jcs-too-large'')) (\<lambda>_.
        bindr (work_units (candidate body n) (length jcs)) (\<lambda>units.
        if work_ok (from_be (sha256 jcs)) units then
          bindr (sign sk (sha256 jcs)) (\<lambda>sg.
            Inr (dset (dset (candidate body n) (lit ''id'') (PStr (assertion_id jcs))) (lit ''sig'') (PStr (bytes_hex sg))))
        else mine_loop body sk (n + 1))))
      else Inl (SppError ''work'' ''insufficient-work''))"
  unfolding Let_def work_ok_def assertion_id_def
  by (subst mine_loop.simps) (simp only: Let_def sha256_id_of_def prod.case)

lemma int_interval_step: "(\<forall>m. n + 1 \<le> m \<and> m < k \<longrightarrow> Q m) \<Longrightarrow> Q n \<Longrightarrow> n \<le> m \<Longrightarrow> m < (k :: int) \<Longrightarrow> Q m"
  by (cases "m = n") auto

lemma mine_loop_success:
  "mine_loop body sk n = Inr env \<Longrightarrow>
     \<exists>k jcs sg. n \<le> k \<and> mined body sk k jcs sg env \<and> (\<forall>m. n \<le> m \<and> m < k \<longrightarrow> \<not> passes body m)"
proof (induction "nat (MAX_NONCE + 1 - n)" arbitrary: n rule: less_induct)
  case (less n)
  have le: "n \<le> MAX_NONCE" using less.prems by (subst (asm) mine_loop_unfold) (simp split: if_splits)
  obtain jcs units where s: "canonicalize_bytes (PDict (candidate body n)) = Inr jcs" "length jcs \<le> MAX_JCS"
      "work_units (candidate body n) (length jcs) = Inr units"
    and r: "(if work_ok (from_be (sha256 jcs)) units then
          bindr (sign sk (sha256 jcs)) (\<lambda>sg.
            Inr (dset (dset (candidate body n) (lit ''id'') (PStr (assertion_id jcs))) (lit ''sig'') (PStr (bytes_hex sg))))
        else mine_loop body sk (n + 1)) = Inr env"
    using less.prems le by (subst (asm) mine_loop_unfold) (auto simp: res_simps not_less)
  show ?case
  proof (cases "work_ok (from_be (sha256 jcs)) units")
    case True
    then have "passes body n" using s by (auto simp: passes_def)
    then show ?thesis using True r s le by (intro exI [of _ n]) (auto simp: mined_def res_simps)
  next
    case False
    then have no: "\<not> passes body n" using s by (auto simp: passes_def)
    have "mine_loop body sk (n + 1) = Inr env" using r False by simp
    then obtain k jcs' sg where "n + 1 \<le> k" "mined body sk k jcs' sg env" "\<forall>m. n + 1 \<le> m \<and> m < k \<longrightarrow> \<not> passes body m"
      using less.hyps [of "n + 1"] le by auto
    then show ?thesis using no int_interval_step [of n k "\<lambda>m. \<not> passes body m"]
      by (intro exI [of _ k] exI [of _ jcs'] exI [of _ sg]) auto
  qed
qed

lemma mine_loop_failure:
  assumes "length sk = 32"
    and ok: "\<And>m. n \<le> m \<Longrightarrow> m \<le> MAX_NONCE \<Longrightarrow> schema_ok (candidate body m) \<and> json_val (PDict (candidate body m))"
    and "mine_loop body sk n = Inl e"
  shows "e = SppError ''length'' ''jcs-too-large'' \<or>
    e = SppError ''work'' ''insufficient-work'' \<and> (\<forall>m. n \<le> m \<and> m \<le> MAX_NONCE \<longrightarrow> \<not> passes body m)"
  using ok assms(3)
proof (induction "nat (MAX_NONCE + 1 - n)" arbitrary: n rule: less_induct)
  case (less n)
  show ?case
  proof (cases "n \<le> MAX_NONCE")
    case True
    then have c: "schema_ok (candidate body n)" "json_val (PDict (candidate body n))" using less.prems(1) [of n] by simp_all
    define jcs where "jcs = canon_bytes (PDict (candidate body n))"
    have jcs: "canonicalize_bytes (PDict (candidate body n)) = Inr jcs"
      using canonicalize_bytes_eq [OF c(2)] by (simp add: jcs_def)
    note units = work_units_ok [OF c(1), of "length jcs"]
    obtain sg where sg: "sign sk (sha256 jcs) = Inr sg" using sign_ok [OF assms(1)] by blast
    show ?thesis
    proof (cases "length jcs \<le> MAX_JCS \<and> \<not> passes body n")
      case go: True
      then have "\<not> work_ok (from_be (sha256 jcs)) (units_of (candidate body n) (length jcs))"
        using jcs units by (auto simp: passes_def)
      then have "mine_loop body sk (n + 1) = Inl e"
        using less.prems(2) True go by (subst (asm) mine_loop_unfold) (simp add: jcs units raise_if_def)
      then have "e = SppError ''length'' ''jcs-too-large'' \<or>
          e = SppError ''work'' ''insufficient-work'' \<and> (\<forall>m. n + 1 \<le> m \<and> m \<le> MAX_NONCE \<longrightarrow> \<not> passes body m)"
        using less.hyps [of "n + 1"] less.prems(1) True by auto
      then show ?thesis using go by (metis order_le_less zless_imp_add1_zle)
    next
      case False
      then have "MAX_JCS < length jcs \<or> work_ok (from_be (sha256 jcs)) (units_of (candidate body n) (length jcs))"
        using jcs units by (auto simp: passes_def)
      then show ?thesis
        using less.prems(2) True by (subst (asm) mine_loop_unfold) (auto simp: jcs units raise_if_def sg split: if_splits)
    qed
  next
    case False
    then show ?thesis using less.prems(2) by (subst (asm) mine_loop_unfold) auto
  qed
qed

section \<open>Candidates satisfy the schema\<close>

lemma candidate_eq: "\<not> dhas body (lit ''nonce'') \<Longrightarrow> 0 \<le> n \<Longrightarrow> candidate body n = body @ [(lit ''nonce'', PStr (str_nat (nat n)))]"
  by (induction body) (auto simp: candidate_def Let_def dhas_def str_int_def lit_def)

lemma dget_candidate:
  assumes "0 \<le> n"
  shows "dget (candidate (filter (\<lambda>p. fst p \<noteq> lit ''nonce'') u) n) k = (if k = lit ''nonce'' then Some (PStr (str_nat (nat n))) else dget u k)"
proof -
  have "\<not> dhas (filter (\<lambda>p. fst p \<noteq> lit ''nonce'') u) (lit ''nonce'')" by (auto simp: dhas_def)
  then show ?thesis
    using assms dget_filter_key [of "\<lambda>k. k \<noteq> lit ''nonce''" u] by (simp add: candidate_eq map_add_def split: option.splits)
qed

lemma schema_ok_cong:
  assumes "schema_ok u" "\<And>k. k \<noteq> lit ''nonce'' \<Longrightarrow> dget w k = dget u k" "dget w (lit ''nonce'') = Some v" "nonce_ok v"
  shows "schema_ok w"
proof -
  have core: "set (map fst u) \<subseteq> set CORE" using assms(1) by (simp add: schema_ok_def head_ok_def)
  have "k \<in> set CORE" if k: "dget w k \<noteq> None" for k
  proof (cases "k = lit ''nonce''")
    case False
    then have "dhas u k" using k assms(2) by (simp add: dhas_iff_dget)
    then show ?thesis using core by (auto simp: dhas_def)
  qed (simp add: CORE_def)
  then have "set (map fst w) \<subseteq> set CORE" unfolding dhas_iff_dget [symmetric] by (auto simp: dhas_def)
  then show ?thesis
    using assms by (auto simp: schema_ok_def head_ok_def pointer_ok_def channel_ok_def)
qed

lemma digit_char_ok: "is_digit c \<Longrightarrow> char_ok c"
  by (rule ascii_char_ok) (simp add: is_digit_def)

lemma candidate_ok:
  assumes "json_val (PDict u)" "schema_ok (dset u (lit ''nonce'') v)" "0 \<le> n" "n \<le> MAX_NONCE"
  shows "schema_ok (candidate (filter (\<lambda>p. fst p \<noteq> lit ''nonce'') u) n)"
    "json_val (PDict (candidate (filter (\<lambda>p. fst p \<noteq> lit ''nonce'') u) n))"
proof -
  have "nonce_ok (PStr (str_nat (nat n)))" using assms(3,4) by (auto simp: nonce_ok_def)
  then show "schema_ok (candidate (filter (\<lambda>p. fst p \<noteq> lit ''nonce'') u) n)"
    using assms(3) by (intro schema_ok_cong [OF assms(2)]) (simp_all add: dget_candidate dget_dset)
  have "\<not> dhas (filter (\<lambda>p. fst p \<noteq> lit ''nonce'') u) (lit ''nonce'')" by (auto simp: dhas_def)
  moreover have "str_ok (str_nat (nat n))" using str_nat_digits [of "nat n"] by (auto simp: list_all_iff digit_char_ok)
  moreover have "str_ok (lit ''nonce'')" by (rule str_ok_lit) simp
  moreover have "json_val (PDict (filter (\<lambda>p. fst p \<noteq> lit ''nonce'') u))"
    using assms(1) by (auto simp: list_all_iff distinct_map_filter)
  ultimately show "json_val (PDict (candidate (filter (\<lambda>p. fst p \<noteq> lit ''nonce'') u) n))"
    using assms(3) json_member by (simp add: candidate_eq del: json_val.simps) (metis json_val.simps(5))
qed

lemma reconstruct_mined:
  assumes "\<not> dhas c (lit ''id'')" "\<not> dhas c (lit ''sig'')"
  shows "reconstruct_u (dset (dset c (lit ''id'') a) (lit ''sig'') b) = c"
proof -
  have "\<not> dhas (c @ [(lit ''id'', a)]) (lit ''sig'')" using assms(2) by (simp add: dhas_def)
  then have "dset (dset c (lit ''id'') a) (lit ''sig'') b = c @ [(lit ''id'', a), (lit ''sig'', b)]"
    using assms(1) by (simp add: dset_append)
  moreover have "filter (\<lambda>p. fst p \<noteq> lit ''id'' \<and> fst p \<noteq> lit ''sig'') c = c"
    using assms by (intro filter_True) (force simp: dhas_def)
  ultimately show ?thesis by (simp add: reconstruct_u_def)
qed

lemma sign_length: "sign sk d = Inr sg \<Longrightarrow> length sg = 64"
  using sign_ok [of sk d] by (cases "length sk = 32") (auto simp: sign_def)

text \<open>What the validator says of a mined envelope.\<close>

lemma mined_validates:
  assumes m: "mined body sk n jcs sg env" and c: "schema_ok (candidate body n)"
    and no: "\<not> dhas (candidate body n) (lit ''id'')" "\<not> dhas (candidate body n) (lit ''sig'')"
    and ab: "dget (candidate body n) (lit ''actor'') = Some (PStr (lit ''ed25519:'' @ bytes_hex ab))" "length ab = 32"
  shows "(\<exists>info. validate_object env = Inr info) \<longleftrightarrow> verify_spp_ed25519_1 ab sg (sha256 jcs)"
proof -
  let ?c = "candidate body n"
  have env: "env = dset (dset ?c (lit ''id'') (PStr (assertion_id jcs))) (lit ''sig'') (PStr (bytes_hex sg))"
    and cb: "canonicalize_bytes (PDict ?c) = Inr jcs" "length jcs \<le> MAX_JCS" and sg: "sign sk (sha256 jcs) = Inr sg"
    and p: "passes body n" using m by (auto simp: mined_def)
  have u: "reconstruct_u env = ?c" unfolding env by (rule reconstruct_mined [OF no])
  obtain jt where jt: "canonicalize (PDict ?c) = Inr jt" "utf8_encode jt = Inr jcs" using cb(1) by (auto simp: canonicalize_bytes_iff)
  have w: "from_be (sha256 jcs) * (units_of ?c (length jcs) * 65536) \<le> MAX_H"
    using p cb(1) work_units_ok [OF c] by (simp add: passes_def work_ok_iff)
  have d: "dget env (lit ''id'') = Some (PStr (assertion_id jcs))" "dget env (lit ''sig'') = Some (PStr (bytes_hex sg))"
    "dget env (lit ''actor'') = Some (PStr (lit ''ed25519:'' @ bytes_hex ab))"
    using ab by (simp_all add: env dget_dset)
  have inj: "bytes_hex a = bytes_hex b \<longleftrightarrow> a = b" for a b using hexc.enc_inj [of a b] by auto
  show ?thesis
    unfolding validate_iff valid_envelope_def u using c jt cb(2) w d ab(2) sign_length [OF sg]
    by (auto simp: inj)
qed

section \<open>Properties\<close>

text \<open>C12: mining an assertion that satisfies the schema and carries no \<open>id\<close> or \<open>sig\<close>, from a nonce in range
  and with a 32-byte key, returns an envelope at the least nonce whose digest meets the work
  target, valid exactly when its signature verifies under the named actor; or it reports that the
  assertion is too large, or that no nonce up to \<open>2^64 - 1\<close> meets the target.\<close>
theorem mining_finds_least_nonce:
  assumes "json_val (PDict u)" "schema_ok (dset u (lit ''nonce'') (PStr (lit ''0'')))"
    "\<not> dhas u (lit ''nonce'')" "\<not> dhas u (lit ''id'')" "\<not> dhas u (lit ''sig'')" "0 \<le> start" "length sk = 32"
  shows "case mine_and_sign u sk start of
      Inr env \<Rightarrow> \<exists>n jcs sg ab. start \<le> n \<and> mined u sk n jcs sg env \<and>
        (\<forall>m. start \<le> m \<and> m < n \<longrightarrow> \<not> passes u m) \<and>
        dget u (lit ''actor'') = Some (PStr (lit ''ed25519:'' @ bytes_hex ab)) \<and>
        ((\<exists>info. validate_object env = Inr info) \<longleftrightarrow> verify_spp_ed25519_1 ab sg (sha256 jcs))
    | Inl e \<Rightarrow> e = SppError ''length'' ''jcs-too-large'' \<or>
        e = SppError ''work'' ''insufficient-work'' \<and> (\<forall>m. start \<le> m \<and> m \<le> MAX_NONCE \<longrightarrow> \<not> passes u m)"
proof -
  have body: "filter (\<lambda>p. fst p \<noteq> lit ''nonce'') u = u"
    using assms(3) by (intro filter_True) (force simp: dhas_def)
  have "dget u (lit ''nonce'') = None" using assms(3) by (simp add: dhas_iff_dget)
  moreover have "check_schema (dset u (lit ''nonce'') (PStr (lit ''0''))) = Inr ()" using assms(2) check_schema_iff by blast
  ultimately have loop: "mine_and_sign u sk start = mine_loop u sk start" by (simp add: mine_and_sign_def body)
  have ok: "schema_ok (candidate u m)" "json_val (PDict (candidate u m))" if "start \<le> m" "m \<le> MAX_NONCE" for m
    using candidate_ok [OF assms(1,2), of m] that assms(6) by (simp_all add: body)
  have get: "dget (candidate u m) k = dget u k" if "start \<le> m" "k \<noteq> lit ''nonce''" for m k
    using dget_candidate [of m u k] that assms(6) by (simp add: body)
  show ?thesis
  proof (cases "mine_and_sign u sk start")
    case (Inl e)
    then show ?thesis using mine_loop_failure [OF assms(7), of start u e] ok loop by simp
  next
    case (Inr env)
    then obtain n jcs sg where n: "start \<le> n" "mined u sk n jcs sg env" "\<forall>m. start \<le> m \<and> m < n \<longrightarrow> \<not> passes u m"
      using mine_loop_success [of u sk start env] loop by auto
    then have c: "schema_ok (candidate u n)" using ok by (simp add: mined_def)
    obtain ab where ab: "dget (candidate u n) (lit ''actor'') = Some (PStr (lit ''ed25519:'' @ bytes_hex ab))" "length ab = 32"
      using schema_actor [OF c] by blast
    have "\<not> dhas (candidate u n) (lit ''id'')" "\<not> dhas (candidate u n) (lit ''sig'')"
      using get [OF n(1)] assms(4,5) by (simp_all add: dhas_iff_dget)
    from mined_validates [OF n(2) c this ab] n ab(1) get [OF n(1), of "lit ''actor''"]
    have "start \<le> n \<and> mined u sk n jcs sg env \<and> (\<forall>m. start \<le> m \<and> m < n \<longrightarrow> \<not> passes u m) \<and>
        dget u (lit ''actor'') = Some (PStr (lit ''ed25519:'' @ bytes_hex ab)) \<and>
        ((\<exists>info. validate_object env = Inr info) \<longleftrightarrow> verify_spp_ed25519_1 ab sg (sha256 jcs))" by simp
    then show ?thesis unfolding Inr sum.case by blast
  qed
qed

theorem mining_finds_least_nonce_witness:
  "case mine_and_sign (butlast sample_channel) (replicate 32 7) 5 of
      Inr env \<Rightarrow> \<exists>n jcs sg ab. 5 \<le> n \<and> mined (butlast sample_channel) (replicate 32 7) n jcs sg env \<and>
        (\<forall>m. 5 \<le> m \<and> m < n \<longrightarrow> \<not> passes (butlast sample_channel) m) \<and>
        dget (butlast sample_channel) (lit ''actor'') = Some (PStr (lit ''ed25519:'' @ bytes_hex ab)) \<and>
        ((\<exists>info. validate_object env = Inr info) \<longleftrightarrow> verify_spp_ed25519_1 ab sg (sha256 jcs))
    | Inl e \<Rightarrow> e = SppError ''length'' ''jcs-too-large'' \<or>
        e = SppError ''work'' ''insufficient-work'' \<and> (\<forall>m. 5 \<le> m \<and> m \<le> MAX_NONCE \<longrightarrow> \<not> passes (butlast sample_channel) m)"
proof (rule mining_finds_least_nonce)
  show "json_val (PDict (butlast sample_channel))"
    using sample_channel_json by (simp add: sample_channel_def)
  have "dset (butlast sample_channel) (lit ''nonce'') (PStr (lit ''0'')) = sample_channel" by (simp add: sample_channel_def)
  then show "schema_ok (dset (butlast sample_channel) (lit ''nonce'') (PStr (lit ''0'')))" by (simp add: sample_channel_schema)
qed (simp_all add: sample_channel_def dhas_def)

end
