(* ===== verification/Template.thy ===== *)
theory Template
  imports Agent Mining Revalidation
begin

text \<open>
  Where the agent's miner finds the nonce. It searches the canonical bytes for \<open>"nonce":"\<close> and patches
  the digits that follow. The bytes are \<^emph>\<open>quiet\<close> before that member when no member name
  printed there ends in the letter \<open>e\<close>; then the first occurrence is the member itself.
\<close>

section \<open>Quiet bytes\<close>

definition quiet :: "bytes \<Rightarrow> bool" where
  "quiet b = (\<not> sublist [101, 34, 58] b)"

lemma quiet_Nil [simp]: "quiet []"
  by (simp add: quiet_def)

lemma quiet_append:
  assumes "quiet s" "quiet t" "s = [] \<or> last s \<notin> {101, 34} \<or> t = [] \<or> hd t \<notin> {34, 58}"
  shows "quiet (s @ t)"
proof -
  have "False" if e: "xs1 @ xs2 = [101, 34, 58]" and p: "suffix xs1 s" "prefix xs2 t" for xs1 xs2 :: bytes
  proof -
    consider "xs1 = []" | "xs2 = []" | "xs1 = [101]" "xs2 = [34, 58]" | "xs1 = [101, 34]" "xs2 = [58]"
      using e by (auto simp: append_eq_Cons_conv)
    then show False
      using p e assms by cases (auto simp: quiet_def suffix_def prefix_def)
  qed
  then show ?thesis using assms(1,2) unfolding quiet_def sublist_append by metis
qed

lemma quiet_concat:
  "\<forall>t\<in>set ts. quiet t \<and> t \<noteq> [] \<and> last t \<notin> {101, 34} \<Longrightarrow> quiet (concat ts)"
  by (induction ts) (auto intro!: quiet_append)

lemma quiet_no_quote: "34 \<notin> set b \<Longrightarrow> quiet b"
  by (auto simp: quiet_def sublist_def)

lemma marker_bytes: "marker = [34, 110, 111, 110, 99, 101, 34, 58, 34]"
  by (simp add: marker_def asc_def)

lemma marker_prefix: "take 8 marker = [34, 110, 111, 110, 99] @ [101, 34, 58]"
  by (simp add: marker_bytes)

lemma no_early_marker:
  assumes "quiet A" "i < length A"
  shows "\<not> prefix marker (drop i (A @ marker @ r))"
proof
  assume "prefix marker (drop i (A @ marker @ r))"
  then obtain z where z: "drop i A @ marker @ r = marker @ z" using assms(2) by (auto simp: prefix_def)
  have ne: "drop i A \<noteq> []" using assms(2) by simp
  define k where "k = length (drop i A)"
  have pos: "0 < k" using assms(2) by (simp add: k_def)
  show False
  proof (cases "k < 8")
    case True
    have at: "marker ! j = (marker @ z) ! (k + j)" if "j < 2" for j
      unfolding z [symmetric] using that by (auto simp: nth_append k_def marker_bytes less_2_cases_iff)
    consider "k = 1" | "k = 2" | "k = 3" | "k = 4" | "k = 5" | "k = 6" | "k = 7" using True pos by linarith
    then show False using at [of 0] at [of 1] by cases (simp_all add: marker_bytes)
  next
    case False
    then have "take 8 (drop i A) = take 8 marker"
      using arg_cong [OF z, of "take 8"] by (simp add: k_def marker_bytes)
    then have "drop i A = take 8 marker @ drop 8 (drop i A)" by (metis append_take_drop_id)
    then have "A = (take i A @ [34, 110, 111, 110, 99]) @ [101, 34, 58] @ drop 8 (drop i A)"
      by (metis append_take_drop_id append_assoc marker_prefix)
    then have "sublist [101, 34, 58] A" by (metis sublist_appendI)
    then show False using assms(1) by (simp add: quiet_def)
  qed
qed

lemma find_sub_at:
  assumes "\<And>i. i < length A \<Longrightarrow> \<not> prefix pat (drop i (A @ pat @ r))"
  shows "find_sub pat (A @ pat @ r) = Some (length A)"
  using assms
proof (induction A)
  case Nil
  have "prefix pat (pat @ r)" by simp
  then show ?case by (cases "pat @ r") auto
next
  case (Cons a A)
  have "\<not> prefix pat (a # A @ pat @ r)" using Cons.prems [of 0] by simp
  moreover have "find_sub pat (A @ pat @ r) = Some (length A)" using Cons.prems [of "Suc i" for i] by (intro Cons.IH) auto
  ultimately show ?case by simp
qed

lemma find_marker: "quiet A \<Longrightarrow> find_sub marker (A @ marker @ r) = Some (length A)"
  using find_sub_at no_early_marker by blast

section \<open>Printed values\<close>

text \<open>Inside a printed string every quotation mark follows a backslash.\<close>

definition guarded :: "bytes \<Rightarrow> bool" where
  "guarded b = (\<forall>i<length b. b ! i = 34 \<longrightarrow> 0 < i \<and> b ! (i - 1) = 92)"

lemma guarded_append: "guarded a \<Longrightarrow> guarded b \<Longrightarrow> guarded (a @ b)"
  unfolding guarded_def
proof (intro allI impI)
  fix i assume a: "\<forall>i<length a. a ! i = 34 \<longrightarrow> 0 < i \<and> a ! (i - 1) = 92" "\<forall>i<length b. b ! i = 34 \<longrightarrow> 0 < i \<and> b ! (i - 1) = 92"
    "i < length (a @ b)" "(a @ b) ! i = 34"
  show "0 < i \<and> (a @ b) ! (i - 1) = 92"
  proof (cases "i < length a")
    case True
    then show ?thesis using a by (auto simp: nth_append)
  next
    case False
    define j where "j = i - length a"
    have "j < length b" "b ! j = 34" using a(3,4) False by (auto simp: nth_append j_def)
    then have "0 < j \<and> b ! (j - 1) = 92" using a(2) by blast
    then show ?thesis using False by (auto simp: nth_append j_def)
  qed
qed

lemma guarded_concat: "\<forall>t\<in>set ts. guarded t \<Longrightarrow> guarded (concat ts)"
  by (induction ts) (auto simp: guarded_append, simp add: guarded_def)

lemma guarded_no_quote: "34 \<notin> set b \<Longrightarrow> guarded b"
  by (auto simp: guarded_def dest: nth_mem)

lemma high_byte: "128 \<le> n \<Longrightarrow> n < 256 \<Longrightarrow> 34 \<noteq> (of_nat n :: byte)"
  by (auto simp: word_unat_eq_iff unat_byte_of_nat)

lemma utf8_char_no_quote:
  assumes "scalar c" "c \<noteq> 34"
  shows "34 \<notin> set (utf8_char c)"
proof -
  have m: "c div 64 mod 64 < 64" "c mod 64 < 64" "c div 4096 mod 64 < 64" by simp_all
  have t: "34 \<noteq> (of_nat (0x80 + c div 64 mod 64) :: byte)" "34 \<noteq> (of_nat (0x80 + c mod 64) :: byte)" "34 \<noteq> (of_nat (0x80 + c div 4096 mod 64) :: byte)"
    using m by (intro high_byte; linarith)+
  have h: "34 \<noteq> (of_nat (0xC0 + c div 64) :: byte)" if "c < 0x800"
    using that by (intro high_byte) (auto simp: less_mult_imp_div_less)
  have h2: "34 \<noteq> (of_nat (0xE0 + c div 4096) :: byte)" if "c < 0x10000"
    using that by (intro high_byte) (auto simp: less_mult_imp_div_less)
  have h3: "34 \<noteq> (of_nat (0xF0 + c div 262144) :: byte)"
    using assms(1) by (intro high_byte) (auto simp: scalar_def)
  have "34 \<noteq> (of_nat c :: byte)" if "c < 0x80" using that assms(2) by (auto simp: word_unat_eq_iff unat_byte_of_nat)
  then show ?thesis using t h h2 h3 by (simp add: utf8_char_def del: of_nat_add)
qed

lemma utf8_no_quote: "list_all scalar t \<Longrightarrow> 34 \<notin> set t \<Longrightarrow> 34 \<notin> set (utf8_bytes t)"
  using utf8_char_no_quote by (auto simp: utf8_bytes_def list_all_iff)

lemma utf8_concat: "utf8_bytes (concat ts) = concat (map utf8_bytes ts)"
  by (induction ts) simp_all

lemma guarded_escape_char: "char_ok c \<Longrightarrow> guarded (utf8_bytes (escape_char c))"
proof (cases "c = 34")
  case True
  then show ?thesis by (auto simp: escape_char_def utf8_char_def guarded_def nth_Cons')
next
  case False
  assume ok: "char_ok c"
  have "34 \<notin> set (fmt_hex 4 c)" by (auto simp: fmt_hex_def Let_def dig_char_def)
  then have "34 \<notin> set (escape_char c)" using False by (simp add: escape_char_def)
  moreover have "list_all scalar (escape_char c)" using escape_char_ok [OF ok] by (auto simp: list_all_iff char_ok_def)
  ultimately show ?thesis by (intro guarded_no_quote utf8_no_quote)
qed

lemma quiet_quoted:
  assumes "guarded b"
  shows "quiet ([34] @ b @ [34])"
  unfolding quiet_def sublist_def
proof (intro notI, elim exE)
  fix ps ss assume e: "[34] @ b @ [34] = ps @ [101, 34, 58] @ ss"
  then obtain p where p: "b @ [34] = p @ [101, 34, 58] @ ss" by (cases ps) auto
  then obtain q where q: "ss = q @ [34]" by (cases ss rule: rev_cases) auto
  then have "b = p @ [101, 34, 58] @ q" using p by simp
  then have "b ! (length p + 1) = 34" "b ! (length p) = 101" "length p + 1 < length b" by (simp_all add: nth_append)
  then show False using assms by (auto simp: guarded_def)
qed

lemma quiet_escape: "str_ok s \<Longrightarrow> quiet (utf8_bytes (escape_string s))"
proof -
  assume "str_ok s"
  then have "guarded (utf8_bytes (concat (map escape_char s)))"
    unfolding utf8_concat by (intro guarded_concat) (auto simp: guarded_escape_char list_all_iff)
  from quiet_quoted [OF this] show ?thesis by (simp add: escape_string_def utf8_char_def)
qed

text \<open>Values in which no printed member name is followed by the end of \<open>e":\<close>.\<close>

fun tame :: "pyval \<Rightarrow> bool" where
  "tame (PList vs) = list_all tame vs"
| "tame (PDict d) = list_all (\<lambda>p. quiet (utf8_bytes (escape_string (fst p) @ [58])) \<and> tame (snd p)) d"
| "tame PNone = True"
| "tame (PBool b) = True"
| "tame (PInt i) = True"
| "tame (PFloat x) = True"
| "tame (PStr s) = True"

definition tame_member :: "pystr \<times> pyval \<Rightarrow> bool" where
  "tame_member p = (quiet (utf8_bytes (escape_string (fst p) @ [58])) \<and> tame (snd p))"


lemma es_number_no_quote:
  assumes "num_ok x" "es_number x = Inr t"
  shows "34 \<notin> set t"
proof -
  obtain neg ip fr ex where t: "t = tok_text neg ip fr ex" and ok: "tok_ok ip fr ex"
    using es_number_token [OF assms(1)] assms(2) by auto
  have dig: "list_all is_digit s \<Longrightarrow> 34 \<notin> set s" for s by (auto simp: list_all_iff is_digit_def)
  have "34 \<notin> set (exp_text ex)" using ok dig by (auto simp: exp_text_def tok_ok_def split: option.splits)
  then show ?thesis using ok dig by (auto simp: t tok_text_def tok_ok_def frac_text_def)
qed

lemma quiet_bracket: "quiet b \<Longrightarrow> a \<notin> {34, 101} \<Longrightarrow> quiet ([a] @ b)"
  by (rule quiet_append) (auto intro: quiet_no_quote)

lemma quiet_commas:
  "\<forall>t\<in>set ts. quiet t \<Longrightarrow> quiet b \<Longrightarrow> hd b \<notin> {34, 58} \<Longrightarrow>
     quiet (concat (map (\<lambda>t. 44 # t) ts) @ b) \<and> (concat (map (\<lambda>t. 44 # t) ts) @ b = [] \<or> hd (concat (map (\<lambda>t. 44 # t) ts) @ b) \<notin> {34, 58})"
proof (induction ts)
  case (Cons t ts)
  let ?u = "concat (map (\<lambda>t. 44 # t) ts) @ b"
  have u: "quiet ?u" "?u = [] \<or> hd ?u \<notin> {34, 58}" using Cons by simp_all
  have "quiet (t @ ?u)" by (rule quiet_append) (use Cons.prems(1) u in auto)
  then have "quiet ([44] @ t @ ?u)" by (rule quiet_bracket) simp
  then show ?case by simp
qed simp

lemma quiet_join:
  assumes "\<forall>t\<in>set ts. quiet (utf8_bytes t)" "hd b \<notin> {34, 58}" "quiet b"
  shows "quiet (utf8_bytes (join [44] ts) @ b)"
proof (cases ts)
  case (Cons t us)
  let ?u = "concat (map (\<lambda>y. 44 # y) (map utf8_bytes us)) @ b"
  have u: "quiet ?u" "?u = [] \<or> hd ?u \<notin> {34, 58}" using quiet_commas [of "map utf8_bytes us" b] assms Cons by auto
  have "utf8_bytes (join [44] ts) @ b = utf8_bytes t @ ?u"
    by (simp add: Cons join_Cons utf8_concat utf8_char_def o_def)
  moreover have "quiet (utf8_bytes t @ ?u)" by (rule quiet_append) (use assms(1) Cons u in auto)
  ultimately show ?thesis by simp
qed (simp add: assms)

lemma quiet_value:
  "json_val v \<Longrightarrow> tame v \<Longrightarrow> jcs_ref v = Inr t \<Longrightarrow> quiet (utf8_bytes t)"
proof (induction v arbitrary: t rule: jcs_ref.induct)
  case 1
  then show ?case by (intro quiet_no_quote) (auto simp: lit_def utf8_char_def)
next
  case (2 b)
  then show ?case by (intro quiet_no_quote) (auto simp: lit_def utf8_char_def split: if_splits)
next
  case (3 s)
  then show ?case by (auto simp: quiet_escape)
next
  case (5 x)
  then have "list_all scalar t" "34 \<notin> set t"
    using es_number_chars [of x t] es_number_no_quote [of x t] by (auto simp: list_all_iff scalar_def is_surrogate_def)
  then show ?case by (intro quiet_no_quote utf8_no_quote)
next
  case (6 vs)
  then obtain ts where ts: "list_all2 (\<lambda>v t. jcs_ref v = Inr t) vs ts" "t = [91] @ join [44] ts @ [93]"
    by (auto simp: res_simps)
  have "list_all (\<lambda>t. quiet (utf8_bytes t)) ts"
    using 6 by (intro list_all2_right [OF ts(1)]) (auto simp: list_all_iff)
  then have "quiet (utf8_bytes (join [44] ts) @ [93])" by (intro quiet_join) (auto simp: list_all_iff intro: quiet_no_quote)
  then show ?case using ts(2) quiet_bracket [of "utf8_bytes (join [44] ts) @ [93]" 91] by (simp add: utf8_char_def)
next
  case (7 d)
  note si = sorted_items_json [OF "7.prems"(1)]
  obtain ts where ts: "list_all2 (\<lambda>p x. \<exists>t. jcs_ref (snd p) = Inr t \<and> x = escape_string (fst p) @ [58] @ t) (sorted_obj d) ts"
      "t = [123] @ join [44] ts @ [125]"
    using "7.prems"(3) si by (auto simp: res_simps eq_commute [of "_ @ _" "_ :: nat list"])
  have "quiet (utf8_bytes x)" if p: "p \<in> set (sorted_obj d)" and x: "\<exists>t. jcs_ref (snd p) = Inr t \<and> x = escape_string (fst p) @ [58] @ t" for p x
  proof -
    have ok: "json_val (snd p)" "tame (snd p)" "quiet (utf8_bytes (escape_string (fst p) @ [58]))"
      using p "7.prems"(1,2) by (auto simp: list_all_iff)
    obtain t' where t': "jcs_ref (snd p) = Inr t'" "x = escape_string (fst p) @ [58] @ t'" using x by blast
    have "quiet (utf8_bytes t')" using "7.IH" [OF si p ok(1,2) t'(1)] .
    then show ?thesis using quiet_append [OF ok(3), of "utf8_bytes t'"] t'(2) by (simp add: utf8_char_def)
  qed
  then have "list_all (\<lambda>t. quiet (utf8_bytes t)) ts" by (intro list_all2_right [OF ts(1)])
  then have "quiet (utf8_bytes (join [44] ts) @ [125])" by (intro quiet_join) (auto simp: list_all_iff intro: quiet_no_quote)
  then show ?case using ts(2) quiet_bracket [of "utf8_bytes (join [44] ts) @ [125]" 123] by (simp add: utf8_char_def)
qed simp_all


section \<open>The template\<close>

lemma mapr_two:
  "mapr f xs = Inr a \<Longrightarrow> f x = Inr b \<Longrightarrow> mapr f ys = Inr c \<Longrightarrow> mapr f (xs @ x # ys) = Inr (a @ b # c)"
  by (induction xs arbitrary: a) (auto simp: res_simps)

lemma join_split: "join sep (xs @ y # zs) = concat (map (\<lambda>t. t @ sep) xs) @ y @ concat (map (\<lambda>t. sep @ t) zs)"
proof (induction xs)
  case (Cons x xs)
  then show ?case by (cases xs) simp_all
qed (simp add: join_Cons)

abbreviation key_of :: "pystr \<times> pyval \<Rightarrow> bytes" where
  "key_of p \<equiv> utf16be (fst p)"

definition before :: "obj \<Rightarrow> obj" where
  "before base = filter (\<lambda>p. key_of p < utf16be (lit ''nonce'')) (sort_key key_of base)"

definition after :: "obj \<Rightarrow> obj" where
  "after base = filter (\<lambda>p. \<not> key_of p < utf16be (lit ''nonce'')) (sort_key key_of base)"

lemma sort_with_nonce:
  assumes "json_val (PDict base)" "\<not> dhas base (lit ''nonce'')"
  shows "sort_key key_of (base @ [(lit ''nonce'', v)]) = before base @ (lit ''nonce'', v) # after base"
proof (rule sort_key_inj_key_eq)
  let ?n = "(lit ''nonce'', v)"
  have sc: "list_all scalar (fst p)" if "p \<in> set (base @ [?n])" for p
    using assms(1) that str_ok_scalar by (auto simp: list_all_iff lit_def scalar_def is_surrogate_def)
  have d: "distinct (map fst (base @ [?n]))" using assms by (auto simp: dhas_def)
  show "inj_on key_of (set (base @ [?n]))"
  proof (rule inj_onI)
    fix p q assume a: "p \<in> set (base @ [?n])" "q \<in> set (base @ [?n])" "key_of p = key_of q"
    then have "fst p = fst q" using sc utf16be_inj by blast
    then show "p = q" using d a(1,2) by (metis distinct_map inj_onD)
  qed
  have "mset (before base) + mset (after base) = mset base"
    by (simp add: before_def after_def mset_filter multiset_partition [symmetric])
  then show "mset (base @ [?n]) = mset (before base @ ?n # after base)" by simp
  show "sorted (map key_of (before base @ ?n # after base))"
    by (auto simp: before_def after_def sorted_append not_less intro: sorted_filter)
qed

text \<open>
  The canonical bytes around the nonce do not depend on it, and the first \<open>"nonce":"\<close> is the
  member's own.
\<close>

lemma nonce_member: "list_all is_digit ds \<Longrightarrow>
  utf8_bytes (escape_string (lit ''nonce'') @ [58] @ escape_string ds) = marker @ map of_nat ds @ [34]"
proof -
  assume ds: "list_all is_digit ds"
  have "concat (map escape_char ds) = ds"
    using ds by (induction ds) (auto simp: escape_char_def is_digit_def)
  moreover have "utf8_bytes ds = map of_nat ds" using ds by (induction ds) (auto simp: utf8_char_def is_digit_def)
  ultimately show ?thesis by (simp add: escape_string_def lit_def escape_char_def utf8_char_def marker_bytes)
qed

lemma template:
  assumes j: "json_val (PDict u)" and no: "\<not> dhas u (lit ''nonce'')"
    and q: "\<And>p. p \<in> set u \<Longrightarrow> key_of p < utf16be (lit ''nonce'') \<Longrightarrow> tame_member p"
  shows "\<exists>A B. quiet A \<and> (\<forall>ds. list_all is_digit ds \<longrightarrow>
    canonicalize_bytes (PDict (u @ [(lit ''nonce'', PStr ds)])) = Inr (A @ marker @ map of_nat ds @ B))"
proof -
  have mem: "\<exists>t. member_ref p = Inr t \<and> (tame_member p \<longrightarrow> quiet (utf8_bytes t)) \<and> list_all scalar t" if "p \<in> set u" for p
  proof -
    have ok: "json_val (snd p)" "str_ok (fst p)" using j that by (auto simp: list_all_iff)
    then obtain t where t: "jcs_ref (snd p) = Inr t" using jcs_ref_prints by blast
    have "quiet (utf8_bytes (escape_string (fst p) @ [58] @ t))" if "tame_member p"
      using that quiet_value [OF ok(1) _ t] quiet_append [of "utf8_bytes (escape_string (fst p) @ [58])" "utf8_bytes t"]
      by (simp add: tame_member_def utf8_char_def)
    moreover have "str_ok (escape_string (fst p) @ [58] @ t)"
      using ok escape_string_ok jcs_ref_chars [OF ok(1) t] by (simp add: ascii_char_ok)
    ultimately show ?thesis using t str_ok_scalar by (auto simp: member_ref_def scalar_def is_surrogate_def)
  qed
  have "\<forall>p\<in>set (before u). \<exists>t. member_ref p = Inr t \<and> quiet (utf8_bytes t) \<and> list_all scalar t"
    using mem q by (fastforce simp: before_def)
  from mapr_choose [OF this] obtain xs where
    xs: "mapr member_ref (before u) = Inr xs" "list_all2 (\<lambda>p t. quiet (utf8_bytes t) \<and> list_all scalar t) (before u) xs" by blast
  have "\<forall>p\<in>set (after u). \<exists>t. member_ref p = Inr t \<and> list_all scalar t" using mem by (fastforce simp: after_def)
  from mapr_choose [OF this] obtain zs where
    zs: "mapr member_ref (after u) = Inr zs" "list_all2 (\<lambda>p t. list_all scalar t) (after u) zs" by blast
  have qx: "\<forall>t\<in>set xs. quiet (utf8_bytes t) \<and> list_all scalar t" and qz: "\<forall>t\<in>set zs. list_all scalar t"
    using list_all2_right [OF xs(2), of "\<lambda>t. quiet (utf8_bytes t) \<and> list_all scalar t"] list_all2_right [OF zs(2), of "list_all scalar"]
    by (auto simp: list_all_iff)
  define A where "A = utf8_bytes ([123] @ concat (map (\<lambda>t. t @ [44]) xs))"
  define B where "B = 34 # utf8_bytes (concat (map (\<lambda>t. [44] @ t) zs) @ [125])"
  have "quiet (utf8_bytes (t @ [44]))" if "t \<in> set xs" for t
    using quiet_append [of "utf8_bytes t" "[44]"] qx that quiet_no_quote [of "[44]"] by (auto simp: utf8_char_def)
  then have "quiet (concat (map (\<lambda>t. utf8_bytes (t @ [44])) xs))" by (intro quiet_concat) (auto simp: utf8_char_def)
  then have "quiet ([123] @ concat (map (\<lambda>t. utf8_bytes (t @ [44])) xs))" by (rule quiet_bracket) simp
  then have A: "quiet A" by (simp add: A_def utf8_concat o_def utf8_char_def)
  have "canonicalize_bytes (PDict (u @ [(lit ''nonce'', PStr ds)])) = Inr (A @ marker @ map of_nat ds @ B)" if ds: "list_all is_digit ds" for ds
  proof -
    let ?n = "(lit ''nonce'', PStr ds)" and ?t = "escape_string (lit ''nonce'') @ [58] @ escape_string ds"
    have "list_all (\<lambda>p. list_all scalar (fst p)) (u @ [?n])"
      using j str_ok_scalar by (auto simp: list_all_iff lit_def scalar_def is_surrogate_def)
    then have si: "sorted_items (u @ [?n]) = Inr (before u @ ?n # after u)"
      using sort_with_nonce [OF j no] by (simp add: sorted_items_def)
    have "member_ref ?n = Inr ?t" by (simp add: member_ref_def)
    then have "mapr member_ref (before u @ ?n # after u) = Inr (xs @ ?t # zs)" by (rule mapr_two [OF xs(1) _ zs(1)])
    then have t: "jcs_ref (PDict (u @ [?n])) = Inr ([123] @ join [44] (xs @ ?t # zs) @ [125])"
      by (simp add: si member_ref_def [abs_def])
    have sn: "list_all scalar ?t"
      using ds escape_string_ok [of "lit ''nonce''"] escape_string_ok [of ds] str_ok_lit [of "''nonce''"] str_ok_scalar digit_char_ok
      by (auto simp: list_all_iff scalar_def is_surrogate_def)
    have "list_all scalar ([123] @ join [44] (xs @ ?t # zs) @ [125])"
      using qx qz sn unfolding join_split by (auto simp: list_all_iff scalar_def is_surrogate_def)
    moreover have "utf8_bytes ([123] @ join [44] (xs @ ?t # zs) @ [125]) = A @ marker @ map of_nat ds @ B"
      using arg_cong [OF nonce_member [OF ds], of "\<lambda>m. m @ utf8_bytes (concat (map (\<lambda>t. [44] @ t) zs) @ [125])"]
      unfolding join_split A_def B_def by (simp add: utf8_char_def)
    ultimately show ?thesis using t by (simp add: canonicalize_bytes_def canonicalize_eq_ref utf8_encode_def)
  qed
  then show ?thesis using A by blast
qed

end
