(* ===== verification/Agent_Mining.thy ===== *)
theory Agent_Mining
  imports Template
begin

text \<open>
  The agent's miner against the reference miner. The agent canonicalizes once per digit width and
  patches the nonce digits into the bytes; the reference canonicalizes every candidate. On an
  assertion without \<^verbatim>\<open>ext\<close>, as \<^verbatim>\<open>publish\<close> and \<^verbatim>\<open>publish-channel\<close> build it, every patched buffer is the canonical
  form of its candidate, and the agent returns what the reference returns, provided it validates.
\<close>

section \<open>Members before the nonce\<close>

lemma quiet_names:
  "k \<in> {lit ''actor'', lit ''channel'', lit ''created'', lit ''descriptor'', lit ''hash'', lit ''locators''} \<Longrightarrow>
     quiet (utf8_bytes (escape_string k @ [58]))"
  by (auto simp: lit_def escape_string_def escape_char_def utf8_char_def quiet_def sublist_Cons_right)

lemma tame_ref:
  assumes "ref_ok v" "json_val v"
  shows "tame v"
proof -
  obtain d h ls where d: "v = PDict d" "set (map fst d) = {lit ''hash'', lit ''locators''}"
      "dget d (lit ''hash'') = Some h" "id_ok h" "dget d (lit ''locators'') = Some (PList ls)" "\<forall>l\<in>set ls. locator_ok l"
    using assms(1) by (auto simp: ref_ok_def)
  have t: "tame h" "tame (PList ls)" using d(4,6) by (auto simp: id_ok_def locator_ok_def list_all_iff)
  have "quiet (utf8_bytes (escape_string (fst p) @ [58])) \<and> tame (snd p)" if p: "p \<in> set d" for p
  proof -
    have k: "fst p \<in> {lit ''hash'', lit ''locators''}" using d(2) p by auto
    have "dget d (fst p) = Some (snd p)" using assms(2) p d(1) by (simp add: map_of_is_SomeI)
    then have "snd p = h \<or> snd p = PList ls" using k d(3,5) by fastforce
    then have "tame (snd p)" using t by metis
    moreover have "quiet (utf8_bytes (escape_string (fst p) @ [58]))" by (rule quiet_names) (use k in blast)
    ultimately show ?thesis by blast
  qed
  then show ?thesis unfolding d(1) by (simp only: tame.simps list_all_iff) blast
qed

lemma core_before:
  assumes "k \<in> set CORE" "utf16be k < utf16be (lit ''nonce'')"
  shows "k \<in> {lit ''actor'', lit ''channel'', lit ''created'', lit ''descriptor'', lit ''ext'', lit ''id''}"
proof -
  have "\<not> utf16be (lit x) < utf16be (lit ''nonce'')" if "x \<in> {''nonce'', ''parents'', ''ref'', ''sig'', ''type'', ''v''}" for x
    using that by (auto simp: utf16be_def lit_def utf16_units_def be16_def)
  then have "k \<notin> lit ` {''nonce'', ''parents'', ''ref'', ''sig'', ''type'', ''v''}" using assms(2) by blast
  moreover have "k \<in> lit ` {''actor'', ''channel'', ''created'', ''descriptor'', ''ext'', ''id'', ''nonce'', ''parents'', ''ref'', ''sig'', ''type'', ''v''}"
    using assms(1) by (auto simp: CORE_def simp del: lit_def)
  ultimately show ?thesis by blast
qed

lemma members_tame:
  assumes j: "json_val (PDict u)" and s: "schema_ok (dset u (lit ''nonce'') v)"
    and no: "\<not> dhas u (lit ''ext'')" "\<not> dhas u (lit ''id'')"
    and p: "p \<in> set u" "key_of p < utf16be (lit ''nonce'')"
  shows "tame_member p"
proof -
  have dg: "dget u (fst p) = Some (snd p)" using j p(1) by (simp add: map_of_is_SomeI)
  have "dhas (dset u (lit ''nonce'') v) (fst p)" using dg by (auto simp: dhas_iff_dget dget_dset)
  then have "fst p \<in> set CORE" using s by (auto simp: schema_ok_def head_ok_def dhas_def)
  then have k: "fst p \<in> {lit ''actor'', lit ''channel'', lit ''created'', lit ''descriptor''}"
    using core_before [OF _ p(2)] no dg by (fastforce simp: dhas_iff_dget)
  have jv: "json_val (snd p)" using j p(1) by (auto simp: list_all_iff)
  have get: "dget (dset u (lit ''nonce'') v) k = dget u k" if "k \<noteq> lit ''nonce''" for k using that by (simp add: dget_dset)
  have "\<forall>x. dget u (lit ''actor'') = Some x \<longrightarrow> tame x" "\<forall>x. dget u (lit ''channel'') = Some x \<longrightarrow> tame x"
      "\<forall>x. dget u (lit ''created'') = Some x \<longrightarrow> tame x" "\<forall>x. dget u (lit ''descriptor'') = Some x \<longrightarrow> ref_ok x"
    using s by (auto simp: schema_ok_def head_ok_def pointer_ok_def channel_ok_def get created_ok_def id_ok_def)
  then have "tame (snd p)" using tame_ref [OF _ jv] k dg by (elim insertE emptyE) simp_all
  moreover have "quiet (utf8_bytes (escape_string (fst p) @ [58]))" by (rule quiet_names) (use k in blast)
  ultimately show ?thesis by (simp add: tame_member_def)
qed

section \<open>Digit widths\<close>

definition width_lo :: "nat \<Rightarrow> nat" where
  "width_lo w = (if w = 1 then 0 else 10 ^ (w - 1))"

lemma str_nat_width:
  assumes "0 < w"
  shows "length (str_nat n) = w \<longleftrightarrow> width_lo w \<le> n \<and> n < 10 ^ w"
proof -
  let ?ds = "to_digits 10 n"
  have lt: "n < 10 ^ length (str_nat n)"
    using of_digits_less [of 10 ?ds] to_digits_less [of 10 n] by (simp add: of_to_digits str_nat_def)
  show ?thesis
  proof (cases "w = 1")
    case True
    have "length (str_nat n) \<noteq> 0" by simp
    then show ?thesis using lt length_str_nat_le [of n 1] True by (auto simp: width_lo_def Suc_le_eq le_Suc_eq simp del: length_0_conv)
  next
    case False
    then have w: "0 < w - 1" "w = Suc (w - 1)" using assms by simp_all
    have lo: "w - 1 < length (str_nat n) \<longleftrightarrow> 10 ^ (w - 1) \<le> n"
    proof
      assume "w - 1 < length (str_nat n)"
      then show "10 ^ (w - 1) \<le> n" using length_str_nat_le [OF _ w(1), of n] by force
    next
      assume a: "10 ^ (w - 1) \<le> n"
      have "(10 :: nat) ^ (w - 1) < 10 ^ length (str_nat n)" using a lt by (rule le_less_trans)
      then show "w - 1 < length (str_nat n)" by (simp add: power_strict_increasing_iff)
    qed
    have "length (str_nat n) \<le> w \<longleftrightarrow> n < 10 ^ w"
    proof
      assume "length (str_nat n) \<le> w"
      then have "(10 :: nat) ^ length (str_nat n) \<le> 10 ^ w" by simp
      then show "n < 10 ^ w" using lt by linarith
    qed (rule length_str_nat_le [OF _ assms])
    then show ?thesis using lo w(2) False by (auto simp: width_lo_def)
  qed
qed

lemma str_nat_lo: "0 < w \<Longrightarrow> str_nat (width_lo w) = (if w \<le> 1 then [48] else 49 # replicate (w - 1) 48)"
proof (cases "w \<le> 1")
  case False
  assume "0 < w"
  have "nat_of_digits (49 # replicate (w - 1) 48) = 10 ^ (w - 1)"
    using nat_of_digits_append_zeros [of "[49]" "w - 1"] by (simp add: nat_of_digits_def hex_val_def)
  then have "str_nat (10 ^ (w - 1)) = 49 # replicate (w - 1) 48"
    using str_nat_of_digits [of "49 # replicate (w - 1) 48"] by (simp add: is_digit_def list_all_iff)
  then show ?thesis using False by (simp add: width_lo_def)
qed (auto simp: width_lo_def le_Suc_eq)

lemma nonce_digits_width: "length (str_nat n) = w \<Longrightarrow> nonce_digits w n = str_nat n"
  by (simp add: nonce_digits_def)

section \<open>Searching one width\<close>

lemma mine_width_none:
  "(\<And>m. n \<le> m \<Longrightarrow> m \<le> hi \<Longrightarrow> \<not> from_be (sha256 (patch template off w (nonce_digits w m))) \<le> target) \<Longrightarrow>
     mine_width base sk template off w target n hi = Inr None"
proof (induction "Suc hi - n" arbitrary: n)
  case 0
  then show ?case by (subst mine_width.simps) simp
next
  case (Suc k)
  then show ?case by (subst mine_width.simps) (simp add: Let_def)
qed

lemma mine_width_hit:
  "n \<le> k \<Longrightarrow> k \<le> hi \<Longrightarrow> (\<And>m. n \<le> m \<Longrightarrow> m < k \<Longrightarrow> \<not> from_be (sha256 (patch template off w (nonce_digits w m))) \<le> target) \<Longrightarrow>
     from_be (sha256 (patch template off w (nonce_digits w k))) \<le> target \<Longrightarrow>
     mine_width base sk template off w target n hi =
       bindr (mined_envelope base sk (nonce_digits w k) (sha256 (patch template off w (nonce_digits w k)))) (\<lambda>env. Inr (Some env))"
proof (induction "k - n" arbitrary: n)
  case 0
  then show ?case by (subst mine_width.simps) (simp add: Let_def)
next
  case (Suc d)
  then have "\<not> from_be (sha256 (patch template off w (nonce_digits w n))) \<le> target" "d = k - Suc n" "Suc n \<le> k" by simp_all
  then show ?case using Suc.hyps(1) [of "Suc n"] Suc.prems by (subst mine_width.simps) (simp add: Let_def)
qed


section \<open>Patched buffers are canonical candidates\<close>

definition minable :: "obj \<Rightarrow> bool" where
  "minable u = (json_val (PDict u) \<and> schema_ok (dset u (lit ''nonce'') (PStr (lit ''0''))) \<and>
     \<not> dhas u (lit ''nonce'') \<and> \<not> dhas u (lit ''id'') \<and> \<not> dhas u (lit ''sig'') \<and> \<not> dhas u (lit ''ext''))"

definition cand_bytes :: "obj \<Rightarrow> nat \<Rightarrow> bytes" where
  "cand_bytes u n = canon_bytes (PDict (candidate u (int n)))"

lemma minable_filter: "minable u \<Longrightarrow> filter (\<lambda>p. fst p \<noteq> lit ''nonce'') u = u"
  by (intro filter_True) (force simp: minable_def dhas_def)

lemma minable_candidate:
  assumes "minable u" "int n \<le> MAX_NONCE"
  shows "schema_ok (candidate u (int n))" "json_val (PDict (candidate u (int n)))"
  using candidate_ok [of u _ "int n"] assms minable_filter [OF assms(1)] unfolding minable_def by auto

lemma minable_template:
  assumes m: "minable u"
  shows "\<exists>A B. quiet A \<and> (\<forall>n. canonicalize_bytes (PDict (candidate u (int n))) = Inr (A @ marker @ map of_nat (str_nat n) @ B) \<and>
    cand_bytes u n = A @ marker @ map of_nat (str_nat n) @ B)"
proof -
  obtain A B where ab: "quiet A" "\<And>ds. list_all is_digit ds \<Longrightarrow>
      canonicalize_bytes (PDict (u @ [(lit ''nonce'', PStr ds)])) = Inr (A @ marker @ map of_nat ds @ B)"
    using template [of u] members_tame [of u] m unfolding minable_def by blast
  have "candidate u (int n) = u @ [(lit ''nonce'', PStr (str_nat n))]" for n
    using candidate_eq [of u "int n"] m by (simp add: minable_def)
  then show ?thesis using ab str_nat_digits by (metis (no_types, lifting) canon_bytes_def cand_bytes_def sum.case(2))
qed

lemma work_units_candidate: "minable u \<Longrightarrow> work_units (candidate u (int n)) k = work_units u k"
proof -
  assume m: "minable u"
  have get: "dget (candidate u (int n)) (lit x) = dget u (lit x)" if "x \<noteq> ''nonce''" for x
    using dget_candidate [of "int n" u "lit x"] minable_filter [OF m] that by simp
  show "work_units (candidate u (int n)) k = work_units u k" unfolding work_units_def getitem_def by (simp add: get cong: if_cong)
qed

lemma passes_iff:
  assumes "minable u" "int n \<le> MAX_NONCE"
  shows "\<exists>units. work_units u (length (cand_bytes u n)) = Inr units \<and>
    (passes u (int n) \<longleftrightarrow> from_be (sha256 (cand_bytes u n)) \<le> target_for_units units)"
proof -
  have "canonicalize_bytes (PDict (candidate u (int n))) = Inr (cand_bytes u n)"
    using canonicalize_bytes_eq [OF minable_candidate(2) [OF assms]] by (simp add: cand_bytes_def)
  then show ?thesis
    using work_units_ok [OF minable_candidate(1) [OF assms], of "length (cand_bytes u n)"] work_units_candidate [OF assms(1)]
    by (simp add: passes_def work_ok_def)
qed

lemma width_lo_max: "w \<le> 20 \<Longrightarrow> int (width_lo w) \<le> MAX_NONCE"
proof -
  assume "w \<le> 20"
  then have "(10 :: nat) ^ (w - 1) \<le> 10 ^ 19" by (intro power_increasing) auto
  then show ?thesis by (simp add: width_lo_def MAX_NONCE_def)
qed

lemma mine_widths_step:
  assumes m: "minable u" and w: "0 < w" "w \<le> 20"
  shows "\<exists>template off target.
    (\<forall>n. length (str_nat n) = w \<longrightarrow> patch template off w (nonce_digits w n) = cand_bytes u n) \<and>
    (\<forall>n. length (str_nat n) = w \<and> int n \<le> MAX_NONCE \<longrightarrow> (passes u (int n) \<longleftrightarrow> from_be (sha256 (cand_bytes u n)) \<le> target)) \<and>
    mine_widths u sk (w # wider) =
      bindr (mine_width u sk template off w target (width_lo w) (min (10 ^ w - 1) (nat MAX_NONCE)))
        (\<lambda>found. case found of Some env \<Rightarrow> Inr env | None \<Rightarrow> mine_widths u sk wider)"
proof -
  obtain A B where ab: "quiet A" "\<And>n. canonicalize_bytes (PDict (candidate u (int n))) = Inr (A @ marker @ map of_nat (str_nat n) @ B)"
    "\<And>n. cand_bytes u n = A @ marker @ map of_nat (str_nat n) @ B" using minable_template [OF m] by blast
  let ?lo = "width_lo w"
  let ?t = "cand_bytes u ?lo"
  have "(10 :: nat) ^ (w - 1) < 10 ^ w" using w by (intro power_strict_increasing) auto
  then have lo: "length (str_nat ?lo) = w" unfolding str_nat_width [OF w(1)] by (simp add: width_lo_def)
  have patch: "patch ?t (length A + length marker) w (nonce_digits w n) = cand_bytes u n" if "length (str_nat n) = w" for n
    using that lo by (simp add: ab(3) patch_def nonce_digits_width)
  have len: "length (cand_bytes u n) = length ?t" if "length (str_nat n) = w" for n
    using that lo by (simp add: ab(3))
  obtain units where units: "work_units u (length ?t) = Inr units" using passes_iff [OF m width_lo_max [OF w(2)]] by blast
  have pass: "passes u (int n) \<longleftrightarrow> from_be (sha256 (cand_bytes u n)) \<le> target_for_units units"
    if "length (str_nat n) = w" "int n \<le> MAX_NONCE" for n
    using passes_iff [OF m that(2)] units by (simp add: len [OF that(1)])
  have "dset u (lit ''nonce'') (PStr (if w = 1 then lit ''0'' else lit ''1'' @ replicate (w - 1) (ch CHR ''0''))) = candidate u (int ?lo)"
    using candidate_eq [of u "int ?lo"] m str_nat_lo [OF w(1)] w by (auto simp: minable_def dset_append lit_def)
  then have t: "canonicalize_bytes (PDict (dset u (lit ''nonce'') (PStr (if w = 1 then lit ''0'' else lit ''1'' @ replicate (w - 1) (ch CHR ''0''))))) = Inr ?t"
    using ab(2,3) by simp
  have f: "find_sub marker ?t = Some (length A)" using find_marker [OF ab(1)] ab(3) by simp
  have lo_eq: "(if w = 1 then 0 else 10 ^ (w - 1)) = ?lo" and hi_eq: "(if w = 1 then 9 else 10 ^ w - 1) = (10 :: nat) ^ w - 1"
    by (simp_all add: width_lo_def)
  have "mine_widths u sk (w # wider) =
      bindr (mine_width u sk ?t (length A + length marker) w (target_for_units units) ?lo (min (10 ^ w - 1) (nat MAX_NONCE)))
        (\<lambda>found. case found of Some env \<Rightarrow> Inr env | None \<Rightarrow> mine_widths u sk wider)"
    using width_lo_max [OF w(2)] unfolding mine_widths.simps Let_def t lo_eq hi_eq
    by (simp add: f units)
  then show ?thesis using patch pass by blast
qed


section \<open>All widths\<close>

lemma in_width:
  assumes "0 < w" "width_lo w \<le> m" "m \<le> min (10 ^ w - 1) (nat MAX_NONCE)"
  shows "length (str_nat m) = w" "int m \<le> MAX_NONCE"
proof -
  have "m \<le> 10 ^ w - 1" "(0 :: nat) < 10 ^ w" using assms(3) by simp_all
  then have "m < 10 ^ w" by linarith
  then show "length (str_nat m) = w" using str_nat_width [OF assms(1)] assms(2) by simp
  show "int m \<le> MAX_NONCE" using assms(3) by (simp add: MAX_NONCE_def)
qed

lemma mine_widths_skip:
  assumes m: "minable u" and w: "0 < w" "w \<le> 20"
    and no: "\<And>n. length (str_nat n) = w \<Longrightarrow> int n \<le> MAX_NONCE \<Longrightarrow> \<not> passes u (int n)"
  shows "mine_widths u sk (w # wider) = mine_widths u sk wider"
proof -
  obtain template off target where
    p: "\<forall>n. length (str_nat n) = w \<longrightarrow> patch template off w (nonce_digits w n) = cand_bytes u n"
      "\<forall>n. length (str_nat n) = w \<and> int n \<le> MAX_NONCE \<longrightarrow> (passes u (int n) \<longleftrightarrow> from_be (sha256 (cand_bytes u n)) \<le> target)"
    and e: "mine_widths u sk (w # wider) =
      bindr (mine_width u sk template off w target (width_lo w) (min (10 ^ w - 1) (nat MAX_NONCE)))
        (\<lambda>found. case found of Some env \<Rightarrow> Inr env | None \<Rightarrow> mine_widths u sk wider)"
    using mine_widths_step [OF m w, of sk wider] by blast
  have "mine_width u sk template off w target (width_lo w) (min (10 ^ w - 1) (nat MAX_NONCE)) = Inr None"
    using in_width [OF w(1)] p no by (intro mine_width_none) metis
  then show ?thesis unfolding e by simp
qed

lemma mine_widths_hit:
  assumes m: "minable u" and w: "length (str_nat k) = w" "int k \<le> MAX_NONCE"
    and hit: "passes u (int k)" and no: "\<And>n. n < k \<Longrightarrow> \<not> passes u (int n)"
  shows "mine_widths u sk (w # wider) = mined_envelope u sk (str_nat k) (sha256 (cand_bytes u k))"
proof -
  have w0: "0 < w" using w(1) by auto
  have "nat MAX_NONCE < 10 ^ 20" by (simp add: MAX_NONCE_def)
  then have "k < 10 ^ 20" using w(2) by linarith
  then have w20: "w \<le> 20" using length_str_nat_le [of k 20] w(1) by simp
  obtain template off target where
    p: "\<forall>n. length (str_nat n) = w \<longrightarrow> patch template off w (nonce_digits w n) = cand_bytes u n"
      "\<forall>n. length (str_nat n) = w \<and> int n \<le> MAX_NONCE \<longrightarrow> (passes u (int n) \<longleftrightarrow> from_be (sha256 (cand_bytes u n)) \<le> target)"
    and e: "mine_widths u sk (w # wider) =
      bindr (mine_width u sk template off w target (width_lo w) (min (10 ^ w - 1) (nat MAX_NONCE)))
        (\<lambda>found. case found of Some env \<Rightarrow> Inr env | None \<Rightarrow> mine_widths u sk wider)"
    using mine_widths_step [OF m w0 w20, of sk wider] by blast
  have range: "width_lo w \<le> k" "k \<le> min (10 ^ w - 1) (nat MAX_NONCE)"
    using str_nat_width [OF w0, of k] w by auto
  have "mine_width u sk template off w target (width_lo w) (min (10 ^ w - 1) (nat MAX_NONCE)) =
      bindr (mined_envelope u sk (nonce_digits w k) (sha256 (patch template off w (nonce_digits w k)))) (\<lambda>env. Inr (Some env))"
  proof (rule mine_width_hit [OF range])
    show "\<not> from_be (sha256 (patch template off w (nonce_digits w n))) \<le> target" if "width_lo w \<le> n" "n < k" for n
      using in_width [OF w0 that(1)] that(2) range(2) p no by (metis less_imp_le order_trans)
    show "from_be (sha256 (patch template off w (nonce_digits w k))) \<le> target" using p w hit by metis
  qed
  then show ?thesis unfolding e using p(1) w(1) by (simp add: bindr_assoc bindr_Inr nonce_digits_width)
qed

lemma mine_widths_none:
  assumes m: "minable u" and no: "\<And>n. int n \<le> MAX_NONCE \<Longrightarrow> \<not> passes u (int n)"
  shows "0 < w \<Longrightarrow> mine_widths u sk [w..<21] = Inl (SppError ''work'' ''nonce-space-exhausted'')"
proof (induction "21 - w" arbitrary: w)
  case (Suc d)
  then have "[w..<21] = w # [Suc w..<21]" by (simp add: upt_conv_Cons)
  then show ?case using Suc.hyps(1) [of "Suc w"] Suc.hyps(2) Suc.prems mine_widths_skip [OF m Suc.prems, of sk "[Suc w..<21]"] no by simp
qed simp

lemma mine_widths_least:
  assumes m: "minable u" and k: "int k \<le> MAX_NONCE" "passes u (int k)" and no: "\<And>n. n < k \<Longrightarrow> \<not> passes u (int n)"
  shows "0 < w \<Longrightarrow> w \<le> length (str_nat k) \<Longrightarrow>
    mine_widths u sk [w..<21] = mined_envelope u sk (str_nat k) (sha256 (cand_bytes u k))"
proof (induction "length (str_nat k) - w" arbitrary: w)
  case 0
  have "nat MAX_NONCE < 10 ^ 20" by (simp add: MAX_NONCE_def)
  then have "k < 10 ^ 20" using k(1) by linarith
  then have "w \<le> 20" using length_str_nat_le [of k 20] 0 by simp
  then have "[w..<21] = w # [Suc w..<21]" by (simp add: upt_conv_Cons)
  then show ?case using mine_widths_hit [OF m _ k(1,2) no, of w] 0 by simp
next
  case (Suc d)
  have "nat MAX_NONCE < 10 ^ 20" by (simp add: MAX_NONCE_def)
  then have "k < 10 ^ 20" using k(1) by linarith
  then have w: "w \<le> 20" "w < length (str_nat k)" using length_str_nat_le [of k 20] Suc by simp_all
  have "\<not> passes u (int n)" if "length (str_nat n) = w" for n
  proof (rule no)
    have "n < 10 ^ w" "10 ^ w \<le> k"
      using str_nat_width [OF Suc.prems(1), of n] that length_str_nat_le [of k w] w(2) Suc.prems(1) by (auto simp: not_less [symmetric])
    then show "n < k" by linarith
  qed
  moreover have "[w..<21] = w # [Suc w..<21]" using w(1) by (simp add: upt_conv_Cons)
  ultimately show ?case using Suc.hyps w mine_widths_skip [OF m Suc.prems(1) w(1)] by simp
qed

section \<open>The reference loop\<close>

lemma mine_loop_reaches:
  assumes m: "minable u" and "int k \<le> MAX_NONCE"
    and no: "\<And>n. n < k \<Longrightarrow> \<not> passes u (int n) \<and> length (cand_bytes u n) \<le> MAX_JCS"
  shows "mine_loop u sk 0 = mine_loop u sk (int k)"
  using assms(2) no
proof (induction k)
  case (Suc k)
  then have k: "int k \<le> MAX_NONCE" "\<not> passes u (int k)" "length (cand_bytes u k) \<le> MAX_JCS" by simp_all
  obtain units where units: "work_units u (length (cand_bytes u k)) = Inr units"
      "\<not> from_be (sha256 (cand_bytes u k)) \<le> target_for_units units"
    using passes_iff [OF m k(1)] k(2) by blast
  have "canonicalize_bytes (PDict (candidate u (int k))) = Inr (cand_bytes u k)"
    using canonicalize_bytes_eq [OF minable_candidate(2) [OF m k(1)]] by (simp add: cand_bytes_def)
  then have "mine_loop u sk (int k) = mine_loop u sk (int k + 1)"
    using k units work_units_candidate [OF m, of k] by (subst mine_loop_unfold) (simp add: raise_if_def work_ok_def)
  then show ?case using Suc by (simp add: add.commute)
qed simp

lemma cand_bytes_mono: "minable u \<Longrightarrow> m \<le> n \<Longrightarrow> length (cand_bytes u m) \<le> length (cand_bytes u n)"
proof -
  assume m: "minable u" and le: "m \<le> n"
  have "n < 10 ^ length (str_nat n)"
    using of_digits_less [of 10 "to_digits 10 n"] to_digits_less [of 10 n] by (simp add: of_to_digits str_nat_def)
  then have "length (str_nat m) \<le> length (str_nat n)" using le by (intro length_str_nat_le) auto
  then show ?thesis using minable_template [OF m] by auto
qed


section \<open>The envelope\<close>

lemma validate_canonical:
  assumes "json_val (PDict d)" "canonicalize_bytes (PDict d) = Inr raw"
  shows "validate_bytes raw = validate_object d"
proof -
  have "parse_utf8 raw = Inr (norm (PDict d))" using parse_canonical [OF assms(1)] assms(2) by simp
  then have "parse_object raw = Inr (norm_obj d)" by (simp add: parse_object_iff norm_PDict del: norm.simps)
  then show ?thesis using validate_norm [OF assms(1)] by (simp add: validate_bytes_def)
qed

lemma mined_envelope_iff:
  assumes m: "minable u" and k: "int k \<le> MAX_NONCE" and sg: "sign sk (sha256 (cand_bytes u k)) = Inr sg"
    and env0: "env0 = dset (dset (candidate u (int k)) (lit ''id'') (PStr (assertion_id (cand_bytes u k)))) (lit ''sig'') (PStr (bytes_hex sg))"
  shows "mined_envelope u sk (str_nat k) (sha256 (cand_bytes u k)) = Inr env \<longleftrightarrow> env = env0 \<and> (\<exists>info. validate_object env0 = Inr info)"
proof -
  let ?c = "candidate u (int k)"
  have c: "?c = u @ [(lit ''nonce'', PStr (str_nat k))]" using candidate_eq [of u "int k"] m by (simp add: minable_def)
  have no: "\<not> dhas ?c (lit ''id'')" "\<not> dhas (?c @ [(lit ''id'', x)]) (lit ''sig'')" for x
    using m by (auto simp: c minable_def dhas_def)
  have "str_ok (assertion_id (cand_bytes u k))" by (simp add: assertion_id_def str_ok_hex str_ok_lit)
  then have "json_val (PDict (?c @ [(lit ''id'', PStr (assertion_id (cand_bytes u k)))]))"
    by (intro json_member [OF minable_candidate(2) [OF m k] _ _ no(1)]) (simp_all add: str_ok_lit)
  then have "json_val (PDict ((?c @ [(lit ''id'', PStr (assertion_id (cand_bytes u k)))]) @ [(lit ''sig'', PStr (bytes_hex sg))]))"
    by (intro json_member [OF _ _ _ no(2)]) (simp_all add: str_ok_lit str_ok_hex del: json_val.simps(7))
  then have j: "json_val (PDict env0)" using no by (simp add: env0 dset_append)
  obtain raw where raw: "canonicalize_bytes (PDict env0) = Inr raw" using canonicalize_bytes_eq [OF j] by blast
  have "dset u (lit ''nonce'') (PStr (str_nat k)) = ?c" using m by (simp add: c minable_def dset_append)
  then have e: "dset (dset (dset u (lit ''nonce'') (PStr (str_nat k))) (lit ''id'') (PStr (lit ''sha256:'' @ bytes_hex (sha256 (cand_bytes u k))))) (lit ''sig'') (PStr (bytes_hex sg)) = env0"
    by (simp add: env0 assertion_id_def)
  have "vid info = assertion_id (cand_bytes u k)" if "validate_object env0 = Inr info" for info
    using that unfolding validate_iff valid_envelope_def env0 by (auto simp: dget_dset)
  then show ?thesis
    unfolding mined_envelope_def Let_def sg bindr_simps e raw validate_canonical [OF j raw]
    by (cases "validate_object env0") (auto simp: raise_if_def assertion_id_def)
qed

section \<open>Property\<close>

text \<open>C37: on an assertion that satisfies the schema and has no \<^verbatim>\<open>ext\<close>, \<^verbatim>\<open>id\<close>, \<^verbatim>\<open>sig\<close> or \<^verbatim>\<open>nonce\<close>, the agent's miner, which
  patches the digits of the nonce into one template for each digit width, returns exactly the envelope that the
  reference miner returns when it canonicalizes every candidate from nonce 0, provided that envelope validates.\<close>
theorem agent_mine_equals_reference:
  assumes m: "minable u" and sk: "length sk = 32"
  shows "agent_mine u sk = Inr env \<longleftrightarrow> mine_and_sign u sk 0 = Inr env \<and> (\<exists>info. validate_object env = Inr info)"
proof -
  have "check_schema (dset u (lit ''nonce'') (PStr (lit ''0''))) = Inr ()" "dget u (lit ''nonce'') = None"
    using m check_schema_iff by (auto simp: minable_def dhas_iff_dget)
  then have loop: "mine_and_sign u sk 0 = mine_loop u sk 0" by (simp add: mine_and_sign_def minable_filter [OF m])
  have agent: "agent_mine u sk = mine_widths u sk [1..<21]" by (simp add: agent_mine_def minable_filter [OF m])
  show ?thesis
  proof (cases "\<exists>n. int n \<le> MAX_NONCE \<and> passes u (int n)")
    case False
    then have "agent_mine u sk = Inl (SppError ''work'' ''nonce-space-exhausted'')"
      unfolding agent using mine_widths_none [OF m, of 1 sk] by simp
    moreover have "mine_loop u sk 0 \<noteq> Inr env"
    proof
      assume "mine_loop u sk 0 = Inr env"
      then obtain n where "0 \<le> n" "n \<le> MAX_NONCE" "passes u n" using mine_loop_success unfolding mined_def by blast
      then show False using False by (metis nonneg_int_cases)
    qed
    ultimately show ?thesis using loop by simp
  next
    case True
    define k where "k = (LEAST n. int n \<le> MAX_NONCE \<and> passes u (int n))"
    have k: "int k \<le> MAX_NONCE" "passes u (int k)" using LeastI_ex [OF True] by (simp_all add: k_def)
    have no: "\<not> passes u (int n)" if "n < k" for n
      using not_less_Least [of n "\<lambda>n. int n \<le> MAX_NONCE \<and> passes u (int n)"] that k(1) by (simp add: k_def [symmetric])
    obtain sg where sg: "sign sk (sha256 (cand_bytes u k)) = Inr sg" using sign_ok [OF sk] by blast
    define env0 where "env0 = dset (dset (candidate u (int k)) (lit ''id'') (PStr (assertion_id (cand_bytes u k)))) (lit ''sig'') (PStr (bytes_hex sg))"
    have l: "1 \<le> length (str_nat k)" by (simp add: Suc_le_eq)
    have "agent_mine u sk = mined_envelope u sk (str_nat k) (sha256 (cand_bytes u k))"
      unfolding agent by (rule mine_widths_least [OF m k no zero_less_one l])
    then have a: "agent_mine u sk = Inr env \<longleftrightarrow> env = env0 \<and> (\<exists>info. validate_object env0 = Inr info)"
      using mined_envelope_iff [OF m k(1) sg env0_def] by simp
    have cb: "canonicalize_bytes (PDict (candidate u (int k))) = Inr (cand_bytes u k)"
      using canonicalize_bytes_eq [OF minable_candidate(2) [OF m k(1)]] by (simp add: cand_bytes_def)
    have "env = env0" if ran: "mine_loop u sk 0 = Inr env"
    proof -
      obtain n jcs sg' where n: "0 \<le> n" "mined u sk n jcs sg' env" "\<forall>i. 0 \<le> i \<and> i < n \<longrightarrow> \<not> passes u i"
        using mine_loop_success [OF ran] by blast
      have "passes u n" using n(2) by (simp add: mined_def)
      then have "n = int k" using n(1,3) k(2) no by (metis linorder_neqE nonneg_int_cases of_nat_0_le_iff of_nat_less_iff)
      then show ?thesis using n(2) cb sg by (simp add: mined_def env0_def)
    qed
    moreover have "mine_loop u sk 0 = Inr env0" if v: "validate_object env0 = Inr info" for info
    proof -
      have u: "reconstruct_u env0 = candidate u (int k)"
        using m unfolding env0_def by (intro reconstruct_mined) (auto simp: minable_def dhas_def candidate_eq)
      have len: "length (cand_bytes u k) \<le> MAX_JCS"
        using v cb unfolding validate_iff valid_envelope_def u by (auto simp: canonicalize_bytes_iff)
      have "mine_loop u sk 0 = mine_loop u sk (int k)"
        using cand_bytes_mono [OF m less_imp_le] len no by (intro mine_loop_reaches [OF m k(1)]) (meson order_trans)
      moreover obtain units where "work_units u (length (cand_bytes u k)) = Inr units"
          "from_be (sha256 (cand_bytes u k)) \<le> target_for_units units" using passes_iff [OF m k(1)] k(2) by blast
      ultimately show ?thesis
        using k(1) cb len sg work_units_candidate [OF m, of k]
        by (subst (asm) mine_loop_unfold) (simp add: raise_if_def work_ok_def env0_def)
    qed
    ultimately show ?thesis unfolding a loop by blast
  qed
qed


theorem agent_mine_equals_reference_witness:
  "minable (butlast sample_channel) \<and> length (replicate 32 7 :: bytes) = 32 \<and>
     (agent_mine (butlast sample_channel) (replicate 32 7) = Inr sample_channel \<longleftrightarrow>
      mine_and_sign (butlast sample_channel) (replicate 32 7) 0 = Inr sample_channel \<and> (\<exists>info. validate_object sample_channel = Inr info))"
proof -
  have "json_val (PDict (butlast sample_channel))"
    using sample_channel_json by (simp add: sample_channel_def)
  moreover have "dset (butlast sample_channel) (lit ''nonce'') (PStr (lit ''0'')) = sample_channel" by (simp add: sample_channel_def)
  ultimately have m: "minable (butlast sample_channel)"
    by (simp add: minable_def sample_channel_schema) (simp add: sample_channel_def dhas_def)
  show ?thesis using m agent_mine_equals_reference [OF m, of "replicate 32 7"] by simp
qed

end
