(* ===== verification/Json_Library.thy ===== *)
theory Json_Library
  imports Py_Json Revalidation
begin

text \<open>
  The standard \<^verbatim>\<open>json\<close> module against the protocol's own parser. Whatever \<^verbatim>\<open>parse_utf8\<close> accepts the
  library reads as the same value, with integers where the token has no fraction and no exponent
  (\<open>floats\<close> turns them back), and what the library writes of such a value \<^verbatim>\<open>parse_utf8\<close> reads as the
  value. The sync worker and the agent take listings apart with the library and validate what it
  writes; so they judge what the relay sent.
\<close>

section \<open>Integers as floats\<close>

fun floats :: "pyval \<Rightarrow> pyval" where
  "floats (PInt i) = (case float_of_int i of Inr x \<Rightarrow> PFloat x | Inl _ \<Rightarrow> PInt i)"
| "floats (PList vs) = PList (map floats vs)"
| "floats (PDict d) = PDict (map (\<lambda>p. (fst p, floats (snd p))) d)"
| "floats v = v"

abbreviation floats_obj :: "obj \<Rightarrow> obj" where
  "floats_obj d \<equiv> map (\<lambda>p. (fst p, floats (snd p))) d"

text \<open>A finite float is below \<open>2^top_exp\<close>; such an integer has few enough digits for \<^verbatim>\<open>int\<close> and \<^verbatim>\<open>str\<close>.\<close>

definition top_exp :: nat where
  "top_exp = 1024"

lemma finite_below:
  assumes "isfinite (round64 neg n 1)"
  shows "n < 2 ^ top_exp"
proof (cases "n = 0")
  case False
  then have n: "0 < n" by simp
  have "flog2 n 1 + 1 \<le> int top_exp"
    using assms False by (auto simp: round64_def Let_def top_exp_def split: if_splits prod.splits)
  then have "(2 :: real) powi (flog2 n 1 + 1) \<le> 2 powi (int top_exp)" by (rule power_int_increasing) simp_all
  moreover have "real n < 2 powi (flog2 n 1 + 1)" using flog2_bounds(2) [OF n, of 1] by simp
  ultimately have "real n < 2 powi (int top_exp)" by (rule less_le_trans [rotated])
  then have "real n < real (2 ^ top_exp)" by simp
  then show ?thesis by (simp only: of_nat_less_iff)
qed simp

lemma few_digits: "n < 2 ^ top_exp \<Longrightarrow> length (str_nat n) \<le> int_max_str_digits"
proof -
  assume n: "n < 2 ^ top_exp"
  have "(2 :: nat) ^ top_exp \<le> 10 ^ top_exp" by (rule power_mono) simp_all
  then have "n < 10 ^ top_exp" using n by linarith
  moreover have "0 < top_exp" by (simp add: top_exp_def)
  ultimately have "length (str_nat n) \<le> top_exp" by (rule length_str_nat_le)
  then show ?thesis by (simp add: int_max_str_digits_def top_exp_def)
qed

section \<open>Reading strings\<close>

lemma uxxxx_hex4: "hex4 s = Inr n \<Longrightarrow> uxxxx s = Inr (n, drop 4 s)"
  by (auto simp: hex4_def uxxxx_def Let_def split: if_splits)

lemma loads_unescape: "unescape s = Inr (x, r) \<Longrightarrow> \<exists>c. x = [c] \<and> loads_escape s = Inr (c, r)"
proof (cases s)
  case (Cons e q)
  assume u: "unescape s = Inr (x, r)"
  show ?thesis
  proof (cases "e = ch CHR ''u''")
    case True
    then have uu: "unescape_u q = Inr (x, r)" using u by (simp add: Cons unescape_def)
    then obtain cp where cp: "hex4 q = Inr cp" by (auto simp: unescape_u_def res_simps)
    have e: "loads_escape s = loads_u q" by (simp add: Cons True loads_escape_def)
    show ?thesis
    proof (cases "0xD800 \<le> cp \<and> cp \<le> 0xDBFF")
      case hi: True
      then obtain low where "take 2 (drop 4 q) = lit [CHR 0x5C, CHR ''u'']" "hex4 (drop 2 (drop 4 q)) = Inr low" "0xDC00 \<le> low" "low \<le> 0xDFFF"
          "x = [0x10000 + (cp - 0xD800) * 1024 + (low - 0xDC00)]" "r = drop 4 (drop 2 (drop 4 q))"
        using uu by (auto simp: unescape_u_def Let_def cp res_simps simp del: drop_drop split: if_splits)
      then show ?thesis unfolding e using hi by (simp add: loads_u_def uxxxx_hex4 [OF cp] uxxxx_hex4 del: drop_drop)
    next
      case False
      then have "x = [cp]" "r = drop 4 q" using uu by (auto simp: unescape_u_def cp split: if_splits)
      then show ?thesis unfolding e using False by (auto simp: loads_u_def uxxxx_hex4 [OF cp])
    qed
  qed (use u in \<open>auto simp: Cons unescape_def loads_escape_def split: if_splits\<close>)
qed (simp add: unescape_def)

lemma scanstring_loop: "string_loop chars s = Inr (x, r) \<Longrightarrow> \<exists>y. x = chars @ y \<and> scanstring s = Inr (y, r)"
proof (induction chars s rule: string_loop.induct)
  case (1 chars s)
  show ?case
  proof (cases s)
    case (Cons c q)
    consider "c = 34" | "c = 92" | "c \<noteq> 34" "c \<noteq> 92" by blast
    then show ?thesis
    proof cases
      case 1
      then show ?thesis using "1.prems" by (simp add: Cons res_simps)
    next
      case 2
      then obtain z q' where z: "unescape q = Inr (z, q')" "string_loop (chars @ z) q' = Inr (x, r)"
        using "1.prems" by (auto simp: Cons res_simps)
      obtain a where a: "z = [a]" "loads_escape q = Inr (a, q')" using loads_unescape [OF z(1)] by blast
      obtain y where "x = (chars @ z) @ y" "scanstring q' = Inr (y, r)"
        using "1.IH"(1) [OF Cons _ _ z(1) refl z(2)] 2 by auto
      then show ?thesis using 2 a by (simp add: Cons)
    next
      case 3
      then have n: "\<not> c \<le> 31" "string_loop (chars @ [c]) q = Inr (x, r)" using "1.prems" by (auto simp: Cons split: if_splits)
      then obtain y where "x = (chars @ [c]) @ y" "scanstring q = Inr (y, r)" using "1.IH"(2) [OF Cons 3 _ n(2)] by auto
      then show ?thesis using 3 n by (simp add: Cons)
    qed
  qed (use "1.prems" in simp)
qed

lemma scanstring_tok: "string_tok (34 # q) = Inr (x, r) \<Longrightarrow> scanstring q = Inr (x, r)"
  using scanstring_loop [of "[]" q x r] by (simp add: string_tok_def)


section \<open>Reading numbers\<close>

lemma opt_fraction_scan: "scan_frac s = Inr r \<Longrightarrow> opt_fraction s = r"
  by (auto simp: scan_frac_def opt_fraction_def simp del: dropWhile.simps split: list.splits if_splits)

lemma opt_exponent_scan: "scan_exp s = Inr r \<Longrightarrow> opt_exponent s = r"
  by (auto simp: scan_exp_def opt_exponent_def simp del: dropWhile.simps split: list.splits if_splits)

lemma no_strip: "s \<noteq> [] \<Longrightarrow> \<not> int_space (hd s) \<Longrightarrow> \<not> int_space (last s) \<Longrightarrow> strip_by int_space s = s"
proof -
  assume a: "s \<noteq> []" "\<not> int_space (hd s)" "\<not> int_space (last s)"
  then have "dropWhile int_space s = s" "dropWhile int_space (rev s) = rev s" by (simp_all add: dropWhile_eq_self_iff hd_rev)
  then show ?thesis by (simp add: strip_by_def)
qed

lemma py_int_signed:
  assumes ds: "list_all is_digit ds" "ds \<noteq> []" and "length ds \<le> int_max_str_digits"
  shows "py_int ((if neg then [45] else []) @ ds) =
    Inr (if neg then - int (nat_of_digits ds) else int (nat_of_digits ds))"
proof -
  have d: "is_digit (hd ds)" "is_digit (last ds)" using ds by (auto simp: list_all_iff)
  then have "strip_by int_space ((if neg then [45] else []) @ ds) = (if neg then [45] else []) @ ds"
    using ds(2) by (intro no_strip) (auto simp: int_space_def is_digit_def)
  moreover have "hd ds \<noteq> 45" "hd ds \<noteq> 43" using d by (auto simp: is_digit_def)
  ultimately show ?thesis using assms by (simp add: py_int_def Let_def underscore_digits_id)
qed

text \<open>The integer a token denotes, and the float it rounds to.\<close>

lemma int_token:
  assumes ok: "tok_ok ds [] None" and x: "py_float (tok_text neg ds [] None) = x" "isfinite x" "is_zero x \<Longrightarrow> \<not> neg"
  shows "\<exists>i. py_int (tok_text neg ds [] None) = Inr i \<and> float_of_int i = Inr x"
proof -
  let ?n = "nat_of_digits ds"
  have r: "round64 neg ?n 1 = x"
    using x(1) py_float_tok [OF ok, of neg] by (simp add: exp_val_def float_of_decimal_def num10_def den10_def)
  have ds: "list_all is_digit ds" "ds \<noteq> []" "hd ds \<noteq> 48 \<or> length ds = 1" using ok by (auto simp: tok_ok_def)
  have "?n < 2 ^ top_exp" using finite_below [of neg ?n] r x(2) by simp
  then have "length ds \<le> int_max_str_digits" using few_digits [of ?n] str_nat_of_digits [OF ds] by simp
  then have p: "py_int (tok_text neg ds [] None) = Inr (if neg then - int ?n else int ?n)"
    using py_int_signed [OF ds(1,2), of neg] by (cases neg) (simp_all add: tok_text_def frac_text_def exp_text_def)
  have "round64 ((if neg then - int ?n else int ?n) < 0) (nat \<bar>if neg then - int ?n else int ?n\<bar>) 1 = x"
  proof (cases "?n = 0")
    case True
    then have "is_zero x" using r by (auto simp: round64_def)
    then show ?thesis using x(3) r True by simp
  qed (use r in auto)
  then show ?thesis using p x(2) by (simp add: float_of_int_def Let_def)
qed

lemma match_number_tok:
  assumes "number_tok s = Inr (x, r)"
  shows "\<exists>w. match_number s = Inr (w, r) \<and> floats w = PFloat x"
proof -
  obtain neg b where b: "strip_minus s = (neg, b)" by force
  obtain s2 s3 where sc: "scan_int b = Inr s2" "scan_frac s2 = Inr s3" "scan_exp s3 = Inr r"
    and x: "x = py_float (take (length s - length r) s)" "isfinite x"
      "is_zero x \<Longrightarrow> \<not> fst (strip_minus (take (length s - length r) s))"
    using assms by (auto simp: number_tok_def Let_def b res_simps split: if_splits)
  obtain c q where c: "b = c # q" "is_digit c" and s2: "s2 = (if c = 48 then q else dropWhile is_digit b)"
    using sc(1) by (auto simp: scan_int_def split: list.splits if_splits)
  have o: "opt_exponent (opt_fraction s2) = r" using opt_fraction_scan [OF sc(2)] opt_exponent_scan [OF sc(3)] by simp
  let ?token = "take (length s - length r) s"
  have m: "match_number s = (if r = s2 then bindr (py_int ?token) (\<lambda>i. Inr (PInt i, r)) else Inr (PFloat (py_float ?token), r))"
    by (simp add: match_number_def b c Let_def s2 [unfolded c, symmetric] o)
  show ?thesis
  proof (cases "r = s2")
    case True
    define ds where "ds = (if c = 48 then [48] else takeWhile is_digit b)"
    have split: "b = ds @ r" by (simp add: ds_def True s2 c(1))
    have ok: "tok_ok ds [] None" using c by (auto simp: ds_def tok_ok_def list_all_iff dest: set_takeWhileD)
    have s: "s = (if neg then [45] else []) @ b" using b by (auto simp: strip_minus_def split: list.splits if_splits)
    have token: "?token = tok_text neg ds [] None" by (simp add: s split tok_text_def frac_text_def exp_text_def)
    have "fst (strip_minus (tok_text neg ds [] None)) = neg"
      using strip_minus_tok [OF ok, of neg "[]"] by simp
    then obtain i where "py_int ?token = Inr i" "float_of_int i = Inr x"
      using int_token [OF ok, of neg x] x unfolding token by auto
    then show ?thesis unfolding m using True by simp
  qed (use m x(1) in simp)
qed


section \<open>Reading documents\<close>

lemma scan_literals:
  "scan_once (Suc n) (lit ''true'' @ r) = Inr (PBool True, r)"
  "scan_once (Suc n) (lit ''false'' @ r) = Inr (PBool False, r)"
  "scan_once (Suc n) (lit ''null'' @ r) = Inr (PNone, r)"
  by (simp_all add: lit_def)

lemma scan_number:
  assumes "c = ch CHR ''-'' \<or> is_digit c" "number_tok (c # q) = Inr (x, r)"
  shows "scan_once (Suc n) (c # q) = match_number (c # q)"
proof -
  have inf: "take 9 (c # q) \<noteq> lit ''-Infinity''"
  proof
    assume "take 9 (c # q) = lit ''-Infinity''"
    then obtain z where "c # q = 45 # 73 # z" by (cases q) (auto simp: lit_def)
    then show False using assms(2) by (simp add: number_tok_def strip_minus_def scan_int_def is_digit_def)
  qed
  have "c \<noteq> 34" "c \<noteq> 123" "c \<noteq> 91" "c \<noteq> 110" "c \<noteq> 116" "c \<noteq> 102" "c \<noteq> 78" "c \<noteq> 73"
    using assms(1) by (auto simp: is_digit_def)
  moreover have "\<not> (c = 45 \<and> take 8 q = lit ''Infinity'')" using inf by (auto simp: lit_def)
  ultimately show ?thesis by (auto simp: lit_def)
qed

lemma dhas_floats: "dhas (floats_obj e) k = dhas e k"
  by (simp add: dhas_def image_image)

lemma len_ws: "ws s = c # q \<Longrightarrow> Suc (length q) \<le> length s"
  using ws_length [of s] by simp

lemma scans_grammar:
  "jval s v r \<Longrightarrow> \<forall>n. 2 * length s < n \<longrightarrow> (\<exists>w. scan_once n (ws s) = Inr (w, r) \<and> floats w = v)"
  "jelems s vs vs' r \<Longrightarrow> \<forall>n us. 2 * length s + 1 < n \<and> map floats us = vs \<longrightarrow>
     (\<exists>us'. parse_elements n us (ws s) = Inr (PList us', r) \<and> map floats us' = vs')"
  "jmembers s d d' r \<Longrightarrow> \<forall>n e q. 2 * length s < n \<and> floats_obj e = d \<and> s = 34 # q \<longrightarrow>
     (\<exists>e'. parse_members n e s = Inr (PDict e', r) \<and> floats_obj e' = d')"
proof (induction rule: jval_jelems_jmembers.inducts)
  case (obj_empty s q r)
  show ?case
  proof (intro allI impI)
    fix n assume "2 * length s < n"
    then obtain m where "n = Suc m" by (cases n) auto
    then show "\<exists>w. scan_once n (ws s) = Inr (w, r) \<and> floats w = PDict []" using obj_empty by simp
  qed
next
  case (obj s q t d r)
  show ?case
  proof (intro allI impI)
    fix n assume n: "2 * length s < n"
    then obtain m where m: "n = Suc m" by (cases n) auto
    have "2 * length (34 # t) < m" using n m len_ws [OF obj(1)] len_ws [OF obj(2)] by simp
    then obtain e where "parse_members m [] (34 # t) = Inr (PDict e, r)" "floats_obj e = d" using obj.IH by fastforce
    then show "\<exists>w. scan_once n (ws s) = Inr (w, r) \<and> floats w = PDict d" using obj(1,2) m by simp
  qed
next
  case (arr_empty s q r)
  show ?case
  proof (intro allI impI)
    fix n assume "2 * length s < n"
    then obtain m where "n = Suc m" by (cases n) auto
    then show "\<exists>w. scan_once n (ws s) = Inr (w, r) \<and> floats w = PList []" using arr_empty by simp
  qed
next
  case (arr s q c t vs r)
  show ?case
  proof (intro allI impI)
    fix n assume n: "2 * length s < n"
    then obtain m where m: "n = Suc m" by (cases n) auto
    have "ws (ws q) = ws q" by (simp add: ws_def)
    then have id: "ws (c # t) = c # t" unfolding arr(2) .
    have "2 * length (c # t) + 1 < m" using n m len_ws [OF arr(1)] len_ws [OF arr(2)] by simp
    then obtain us where "parse_elements m [] (c # t) = Inr (PList us, r)" "map floats us = vs" using arr.IH id by fastforce
    then show "\<exists>w. scan_once n (ws s) = Inr (w, r) \<and> floats w = PList vs" using arr(1,2,3) m by simp
  qed
next
  case (str s q x r)
  show ?case
  proof (intro allI impI)
    fix n assume "2 * length s < n"
    then obtain m where "n = Suc m" by (cases n) auto
    then show "\<exists>w. scan_once n (ws s) = Inr (w, r) \<and> floats w = PStr x" using str scanstring_tok [OF str(2)] by simp
  qed
next
  case (true s r)
  then show ?case by (metis floats.simps(5) less_imp_Suc_add scan_literals(1))
next
  case (false s r)
  then show ?case by (metis floats.simps(5) less_imp_Suc_add scan_literals(2))
next
  case (null s r)
  then show ?case by (metis floats.simps(4) less_imp_Suc_add scan_literals(3))
next
  case (num s c q x r)
  show ?case
  proof (intro allI impI)
    fix n assume "2 * length s < n"
    then obtain m where "n = Suc m" by (cases n) auto
    then show "\<exists>w. scan_once n (ws s) = Inr (w, r) \<and> floats w = PFloat x"
      using scan_number [OF num(2,3), of m] match_number_tok [OF num(3)] num(1) by simp
  qed
next
  case (elems_last s v q r vs)
  show ?case
  proof (intro allI impI)
    fix n us assume n: "2 * length s + 1 < n \<and> map floats us = vs"
    then obtain m where m: "n = Suc m" by (cases n) auto
    obtain w where "scan_once m (ws s) = Inr (w, q)" "floats w = v" using elems_last.IH n m by fastforce
    then show "\<exists>us'. parse_elements n us (ws s) = Inr (PList us', r) \<and> map floats us' = vs @ [v]" using n m elems_last(2) by simp
  qed
next
  case (elems_more s v q t vs vs' r)
  show ?case
  proof (intro allI impI)
    fix n us assume n: "2 * length s + 1 < n \<and> map floats us = vs"
    then obtain m where m: "n = Suc m" by (cases n) auto
    obtain w where w: "scan_once m (ws s) = Inr (w, q)" "floats w = v" using elems_more.IH(1) n m by fastforce
    have "2 * length t + 1 < m" using len_ws [OF elems_more(2)] jval_shorter(1) [OF elems_more(1)] n m by simp
    then obtain us' where "parse_elements m (us @ [w]) (ws t) = Inr (PList us', r)" "map floats us' = vs'"
      using elems_more.IH(2) [rule_format, of m "us @ [w]"] n w(2) by auto
    then show "\<exists>us'. parse_elements n us (ws s) = Inr (PList us', r) \<and> map floats us' = vs'" using m w elems_more(2) by simp
  qed
next
  case (members_last s k q t v u d r)
  show ?case
  proof (intro allI impI)
    fix n e p assume n: "2 * length s < n \<and> floats_obj e = d \<and> s = 34 # p"
    then obtain m where m: "n = Suc m" by (cases n) auto
    have nm: "2 * length s < Suc m" using conjunct1 [OF n] unfolding m .
    then have "2 * length t < m" using len_ws [OF members_last(2)] string_tok_shorter [OF members_last(1)] by linarith
    then obtain w where w: "scan_once m (ws t) = Inr (w, u)" "floats w = v" using members_last.IH by fastforce
    have "\<not> dhas e k" using members_last(4) conjunct1 [OF conjunct2 [OF n]] dhas_floats [of e k] by simp
    moreover have "scanstring p = Inr (k, q)" using scanstring_tok members_last(1) n by simp
    ultimately show "\<exists>e'. parse_members n e s = Inr (PDict e', r) \<and> floats_obj e' = d @ [(k, v)]"
      using n m w members_last(2,5) by (simp add: dset_append)
  qed
next
  case (members_more s k q t v u d x y d' r)
  show ?case
  proof (intro allI impI)
    fix n e p assume n: "2 * length s < n \<and> floats_obj e = d \<and> s = 34 # p"
    then obtain m where m: "n = Suc m" by (cases n) auto
    have lt: "Suc (length t) \<le> length q" "length q < length s" using len_ws [OF members_more(2)] string_tok_shorter [OF members_more(1)] by simp_all
    have nm: "2 * length s < Suc m" using conjunct1 [OF n] unfolding m .
    then have "2 * length t < m" using lt by linarith
    then obtain w where w: "scan_once m (ws t) = Inr (w, u)" "floats w = v" using members_more.IH(1) by fastforce
    have new: "\<not> dhas e k" using members_more(4) conjunct1 [OF conjunct2 [OF n]] dhas_floats [of e k] by simp
    have "2 * length (34 # y) < m"
      using lt nm jval_shorter(1) [OF members_more(3)] len_ws [OF members_more(5)] len_ws [OF members_more(6)] by simp
    then obtain e' where "parse_members m (e @ [(k, w)]) (34 # y) = Inr (PDict e', r)" "floats_obj e' = d'"
      using members_more.IH(2) [rule_format, of m "e @ [(k, w)]" y] n w(2) by auto
    moreover have "scanstring p = Inr (k, q)" using scanstring_tok members_more(1) n by simp
    ultimately show "\<exists>e'. parse_members n e s = Inr (PDict e', r) \<and> floats_obj e' = d'"
      using n m w new members_more(2,5,6) by (simp add: dset_append)
  qed
qed


text \<open>\<^verbatim>\<open>json.loads\<close> reads every document of the grammar.\<close>

lemma loads_jdoc: "jdoc s v \<Longrightarrow> \<exists>w. loads s = Inr w \<and> floats w = v"
proof -
  assume "jdoc s v"
  then obtain r where r: "jval s v r" "ws r = []" by (auto simp: jdoc_def)
  obtain w where w: "scan_once (2 * length s + 1) (ws s) = Inr (w, r)" "floats w = v"
    using scans_grammar(1) [OF r(1)] by fastforce
  have "take 1 s \<noteq> [0xFEFF]"
  proof
    assume "take 1 s = [0xFEFF]"
    then obtain q where q: "s = 0xFEFF # q" by (cases s) auto
    then have "ws s = 0xFEFF # q" by (simp add: ws_def is_ws_def)
    then have "scan_once (Suc (2 * length s)) (ws s) = match_number (0xFEFF # q)" by (simp add: lit_def)
    then show False using w(1) by (simp add: match_number_def strip_minus_def is_digit_def)
  qed
  then show ?thesis using w r(2) by (simp add: loads_def)
qed

section \<open>Writing\<close>

lemma repr_pos_token:
  assumes wf: "wf64 (FFin neg m e)" and m: "0 < m"
  shows "\<exists>ip fr ex. repr_pos m e = tok_text False ip fr ex \<and> tok_ok ip fr ex \<and>
    py_float (tok_text neg ip fr ex) = FFin neg m e"
proof -
  obtain ds p where rd: "repr_digits m e = (ds, p)" by (cases "repr_digits m e")
  note sp = repr_digits_spec [OF wf m rd]
  have sig: "list_all is_digit ds" "ds \<noteq> []" "hd ds \<noteq> 48" "last ds \<noteq> 48" using sp(1) by (auto simp: sig_digits_def)
  have z: "list_all is_digit (replicate n 48)" for n by (simp add: list_all_length is_digit_def)
  have reads: "repr_pos m e = tok_text False ip fr ex \<Longrightarrow> tok_ok ip fr ex \<Longrightarrow>
      float_of_decimal neg (nat_of_digits (ip @ fr)) (exp_val ex - int (length fr)) = FFin neg m e \<Longrightarrow> ?thesis" for ip fr ex
    by (intro exI [of _ ip] exI [of _ fr] exI [of _ ex]) (simp add: py_float_tok)
  consider (neg) "- 4 \<le> p" "p < 0" | (int) "0 \<le> p" "p < 16" "int (length ds) \<le> p + 1"
    | (mid) "0 \<le> p" "p < 16" "p + 1 < int (length ds)" | (sci) "p < - 4 \<or> 16 \<le> p" by linarith
  then show ?thesis
  proof cases
    case neg
    define k where "k = nat (- p - 1)"
    have "nat_of_digits ([48] @ replicate k 48 @ ds) = nat_of_digits ds"
      using nat_of_digits_zeros_append [of "Suc k" ds] by simp
    moreover have "- int (length (replicate k 48 @ ds)) = p + 1 - int (length ds)" using neg by (simp add: k_def)
    ultimately show ?thesis
      using neg sig z sp(2) [unfolded add.commute [of p 1]]
      by (intro reads [of "[48]" "replicate k 48 @ ds" None])
        (auto simp: repr_pos_def rd k_def tok_text_def frac_text_def exp_text_def tok_ok_def exp_val_def is_digit_def)
  next
    case int
    define k where "k = nat (p + 1) - length ds"
    have "float_of_decimal neg (nat_of_digits (ds @ replicate (Suc k) 48)) (- 1) = FFin neg m e"
      using sp(2) [unfolded add.commute [of p 1] add_diff_eq [symmetric]] int
      unfolding nat_of_digits_append_zeros float_of_decimal_shift by (simp add: k_def)
    moreover have "replicate (Suc k) 48 = replicate k 48 @ [48 :: nat]" by (simp add: replicate_append_same)
    ultimately show ?thesis
      using int sig z
      by (intro reads [of "ds @ replicate k 48" "[48]" None])
        (auto simp: repr_pos_def rd k_def tok_text_def frac_text_def exp_text_def tok_ok_def exp_val_def is_digit_def)
  next
    case mid
    define k where "k = nat (p + 1)"
    have k: "0 < k" "k < length ds" "int k = p + 1" using mid by (auto simp: k_def)
    have "list_all is_digit (take k ds)" "list_all is_digit (drop k ds)"
      using sig(1) by (auto simp: list_all_iff dest: in_set_takeD in_set_dropD)
    moreover have "hd (take k ds) \<noteq> 48" "take k ds \<noteq> []" "drop k ds \<noteq> []" using k sig(2,3) by (auto simp: hd_take)
    moreover have "p + 1 - int (length ds) = - int (length (drop k ds))" using k by simp
    ultimately show ?thesis
      using mid sp(2)
      by (intro reads [of "take k ds" "drop k ds" None])
        (auto simp: repr_pos_def rd k_def [symmetric] tok_text_def frac_text_def exp_text_def tok_ok_def exp_val_def)
  next
    case sci
    obtain d t where d: "ds = d # t" using sig by (cases ds) auto
    define x where "x = exp2d (nat \<bar>p\<bar>)"
    have xd: "list_all is_digit x" "x \<noteq> []" "nat_of_digits x = nat \<bar>p\<bar>" by (simp_all add: x_def exp2d_digits)
    show ?thesis
      using sci sig sp(2) xd
      by (intro reads [of "[d]" t "Some (if p < 0 then [45] else [43], x)"])
        (auto simp: repr_pos_def rd d tok_text_def frac_text_def exp_text_def tok_ok_def exp_val_def x_def lit_def)
  qed
qed


lemma tok_text_chars: "tok_ok ip fr ex \<Longrightarrow> str_ok (tok_text neg ip fr ex)"
proof -
  assume ok: "tok_ok ip fr ex"
  have dig: "list_all is_digit s \<Longrightarrow> str_ok s" for s by (auto simp: list_all_iff is_digit_def intro!: ascii_char_ok)
  have "str_ok (exp_text ex)" using ok dig by (auto simp: exp_text_def tok_ok_def ascii_char_ok split: option.splits)
  then show ?thesis using ok dig by (auto simp: tok_text_def tok_ok_def frac_text_def ascii_char_ok)
qed

lemma prints_token:
  assumes "tok_ok ip fr ex" "py_float (tok_text neg ip fr ex) = x" "num_ok x" "is_zero x \<Longrightarrow> \<not> neg"
  shows "prints (PFloat x) (tok_text neg ip fr ex)"
proof -
  obtain c q where "tok_text neg ip fr ex = c # q" "c = ch CHR ''-'' \<or> is_digit c"
    using assms(1) by (cases neg; cases ip) (auto simp: tok_text_def tok_ok_def lit_def)
  then show ?thesis using prints_number number_tok_text [OF assms(1) _ assms(2-4)] by blast
qed

lemma prints_float: "num_ok x \<Longrightarrow> prints (PFloat x) (float_text x) \<and> str_ok (float_text x)"
proof -
  assume ok: "num_ok x"
  then obtain neg m e where x: "x = FFin neg m e" by (cases x) (auto simp: num_ok_def)
  have "\<exists>ip fr ex. float_text x = tok_text neg ip fr ex \<and> tok_ok ip fr ex \<and> py_float (tok_text neg ip fr ex) = x \<and> (is_zero x \<longrightarrow> \<not> neg)"
  proof (cases "m = 0")
    case True
    then have x0: "x = FFin False 0 (- 1074)" using ok by (cases neg) (auto simp: x num_ok_def)
    have t: "tok_ok [48] [48] None" by (simp add: tok_ok_def is_digit_def)
    have "nat_of_digits [48, 48] = 0" by (simp add: nat_of_digits_def hex_val_def of_digits_def)
    then have "py_float (tok_text False [48] [48] None) = x"
      by (simp add: py_float_tok [OF t] exp_val_def x0 float_of_decimal_def num10_def round64_def)
    moreover have "float_text x = tok_text False [48] [48] None"
      by (simp add: float_text_def x0 tok_text_def frac_text_def exp_text_def lit_def)
    ultimately show ?thesis using t x x0 by auto
  next
    case False
    then obtain ip fr ex where "repr_pos m e = tok_text False ip fr ex" "tok_ok ip fr ex" "py_float (tok_text neg ip fr ex) = x"
      using repr_pos_token [of neg m e] ok x by (auto simp: num_ok_def)
    moreover have "\<not> is_zero x" using False x by simp
    moreover have "float_text x = tok_text neg ip fr ex"
      using False x calculation(1) tok_text_neg [of neg ip fr ex] by (simp add: float_text_def lit_def)
    ultimately show ?thesis by blast
  qed
  then show ?thesis using prints_token tok_text_chars ok by metis
qed

lemma prints_int:
  assumes f: "float_of_int i = Inr x" and ok: "num_ok x"
  shows "int_repr i = Inr (str_int i) \<and> prints (PFloat x) (str_int i) \<and> str_ok (str_int i)"
proof -
  let ?n = "nat \<bar>i\<bar>"
  have r: "round64 (i < 0) ?n 1 = x" using f by (auto simp: float_of_int_def Let_def split: if_splits)
  have t: "tok_ok (str_nat ?n) [] None"
    using hd_str_nat [of ?n] by (cases "?n = 0") (auto simp: tok_ok_def str_nat_digits)
  have s: "str_int i = tok_text (i < 0) (str_nat ?n) [] None"
    by (auto simp: str_int_def tok_text_def frac_text_def exp_text_def lit_def)
  have p: "py_float (tok_text (i < 0) (str_nat ?n) [] None) = x"
    using r by (simp add: py_float_tok [OF t] exp_val_def float_of_decimal_def num10_def den10_def)
  have z: "\<not> i < 0" if "is_zero x"
  proof -
    obtain b m e where x: "x = FFin b m e" using ok by (cases x) (auto simp: num_ok_def)
    have "b = (i < 0)" using round64_sign [of "i < 0" ?n 1 b m e] r x by simp
    then show ?thesis using that ok x by (auto simp: num_ok_def)
  qed
  have "?n < 2 ^ top_exp" using finite_below [of "i < 0" ?n] r ok by (simp add: num_ok_def)
  then have "int_repr i = Inr (str_int i)" using few_digits [of ?n] by (simp add: int_repr_def)
  then show ?thesis using prints_token [OF t p ok z] tok_text_chars [OF t, of "i < 0"] s by simp
qed

text \<open>A writer whose quoted strings are themselves plain characters.\<close>

locale library_writer = json_writer quote gap for quote gap +
  assumes quote_ok: "str_ok s \<Longrightarrow> str_ok (quote s)"
begin

lemma gap_ok: "str_ok gap"
proof -
  have "is_ws c \<Longrightarrow> char_ok c" for c by (rule ascii_char_ok) (auto simp: is_ws_def)
  then show ?thesis using gap_ws by (auto simp: list_all_iff)
qed

lemma text_prints: "json_val (floats w) \<Longrightarrow> \<exists>t. write_json quote gap w = Inr t \<and> prints (floats w) t \<and> str_ok t"
proof (induction w)
  case PNone
  then show ?case using prints_literal by (auto intro: str_ok_lit)
next
  case (PBool b)
  then show ?case using prints_literal by (cases b) (auto intro: str_ok_lit)
next
  case (PInt i)
  then obtain x where "float_of_int i = Inr x" "num_ok x" by (cases "float_of_int i") auto
  then show ?case using prints_int [of i x] by simp
next
  case (PFloat x)
  then show ?case using prints_float by simp
next
  case (PStr s)
  then show ?case using string_written quote_ok by simp
next
  case (PList vs)
  then have "\<forall>v\<in>set vs. \<exists>t. write_json quote gap v = Inr t \<and> prints (floats v) t \<and> str_ok t" by (auto simp: list_all_iff)
  from mapr_choose [OF this] obtain ts where
    ts: "mapr (write_json quote gap) vs = Inr ts" "list_all2 (\<lambda>v t. prints (floats v) t \<and> str_ok t) vs ts" by blast
  have "list_all2 prints (map floats vs) ts" unfolding list_all2_map1 using ts(2) by (rule list_all2_mono) simp
  moreover have "list_all str_ok ts" by (rule list_all2_right [OF ts(2)]) simp
  ultimately show ?case using list_written [of "map floats vs" ts] ts(1) gap_ok by (auto simp: str_ok_join ascii_char_ok)
next
  case (PDict d)
  let ?f = "\<lambda>p. bindr (write_json quote gap (snd p)) (\<lambda>t. Inr (quote (fst p) @ 58 # gap @ t))"
  have "\<forall>p\<in>set d. \<exists>x. ?f p = Inr x \<and> writes_member quote gap (fst p, floats (snd p)) x \<and> str_ok x"
  proof
    fix p assume p: "p \<in> set d"
    then have ok: "str_ok (fst p)" "json_val (floats (snd p))" using PDict.prems by (auto simp: list_all_iff)
    obtain t where "write_json quote gap (snd p) = Inr t" "prints (floats (snd p)) t" "str_ok t"
      using PDict.IH [of p "snd p"] p ok(2) by (cases p) auto
    then show "\<exists>x. ?f p = Inr x \<and> writes_member quote gap (fst p, floats (snd p)) x \<and> str_ok x"
      using ok(1) quote_ok gap_ok by (auto simp: writes_member_def ascii_char_ok)
  qed
  from mapr_choose [OF this] obtain xs where
    xs: "mapr ?f d = Inr xs" "list_all2 (\<lambda>p x. writes_member quote gap (fst p, floats (snd p)) x \<and> str_ok x) d xs" by blast
  have "list_all2 (writes_member quote gap) (floats_obj d) xs"
    unfolding list_all2_map1 using xs(2) by (rule list_all2_mono) simp
  moreover have "list_all str_ok xs" by (rule list_all2_right [OF xs(2)]) simp
  moreover have "distinct (map fst (floats_obj d))" using PDict.prems by simp
  ultimately show ?case using dict_written [of "floats_obj d" xs] xs(1) gap_ok
    by (auto simp: str_ok_join ascii_char_ok lit_def)
qed

end

interpretation compact_text: library_writer escape_string "[]"
  by unfold_locales (rule escape_string_ok)

lemmas dumps_prints = compact_text.text_prints

lemma dumps_reads_back: "json_val (floats w) \<Longrightarrow> \<exists>t. dumps_bytes w = Inr t \<and> parse_utf8 t = Inr (floats w)"
proof -
  assume "json_val (floats w)"
  then obtain t where t: "dumps w = Inr t" "prints (floats w) t" "str_ok t" using dumps_prints by blast
  have "jval (t @ []) (floats w) []" using t(2) unfolding prints_def by (metis num_stop_def)
  then have "jdoc t (floats w)" by (auto simp: jdoc_def ws_def)
  then show ?thesis using t parse_utf8_iff [OF t(3)] str_ok_scalar [OF t(3)] by (simp add: dumps_bytes_def utf8_encode_def)
qed

lemma loads_parsed: "parse_utf8 b = Inr v \<Longrightarrow> \<exists>w. loads_bytes b = Inr w \<and> floats w = v"
proof -
  assume "parse_utf8 b = Inr v"
  then obtain s where s: "str_ok s" "b = utf8_bytes s" "jdoc s v" by (rule parse_utf8_D)
  have "utf8_decode b = Inr s" using s(2) utf8_decode_bytes [OF str_ok_scalar [OF s(1)]] by simp
  then show ?thesis using loads_jdoc [OF s(3)] by (simp add: loads_bytes_def)
qed

section \<open>Properties\<close>




end
