(* ===== verification/Mine_Command.thy ===== *)
theory Mine_Command
  imports Json_Library Mining
begin

text \<open>
  \<^verbatim>\<open>implementations/python/mine.py\<close>: the command that mines and signs the assertion in a file and prints the
  envelope. The file is given by its bytes; \<open>None\<close> stands for the usage line.
\<close>

definition TEST_SK :: bytes where
  "TEST_SK = projr (fromhex (lit ''9d61b19deffd5a60ba844af492ec2cc44449c5697b326919703bac031cae7f60''))"

definition mine_main :: "pystr list \<Rightarrow> bytes \<Rightarrow> exn + (int \<times> pystr option)" where
  "mine_main argv content =
     (if length argv < 2 then Inr (3, None)
      else
        bindr (if length argv = 4 \<and> argv ! 2 = lit ''--sk-hex'' then fromhex (argv ! 3) else Inr TEST_SK) (\<lambda>sk.
        bindr (parse_object content) (\<lambda>u.
        bindr (mine_and_sign u sk 0) (\<lambda>env.
        bindr (dumps (PDict env)) (\<lambda>t. Inr (0, Some (t @ [10])))))))"

lemma json_dset: "json_val (PDict d) \<Longrightarrow> str_ok k \<Longrightarrow> json_val v \<Longrightarrow> json_val (PDict (dset d k v))"
proof (induction d)
  case (Cons p d)
  have d: "json_val (PDict d)" "fst p \<notin> set (map fst d)" "str_ok (fst p)" "json_val (snd p)" using Cons.prems(1) by simp_all
  show ?case
  proof (cases "fst p = k")
    case False
    then have "fst p \<notin> set (map fst (dset d k v))" using d(2) unfolding set_keys_dset by simp
    then show ?thesis using False Cons.IH [OF d(1) Cons.prems(2,3)] d(3,4) by simp
  qed (use d Cons.prems in simp)
qed simp

lemma floats_json: "json_val v \<Longrightarrow> floats v = v"
proof (induction v rule: json_val.induct)
  case (6 vs)
  then show ?case by (simp add: list_all_iff map_idI)
next
  case (7 d)
  then have "\<forall>p\<in>set d. floats (snd p) = snd p" by (simp add: list_all_iff)
  then have "map (\<lambda>p. (fst p, floats (snd p))) d = d" by (intro map_idI) simp
  then show ?case by simp
qed simp_all

lemma mined_json:
  assumes "json_val (PDict u)" "mine_and_sign u sk 0 = Inr env"
  shows "json_val (PDict env)"
proof -
  define v where "v = (case dget u (lit ''nonce'') of Some v \<Rightarrow> v | None \<Rightarrow> PStr (lit ''0''))"
  let ?b = "filter (\<lambda>p. fst p \<noteq> lit ''nonce'') u"
  have m: "check_schema (dset u (lit ''nonce'') v) = Inr ()" "mine_loop ?b sk 0 = Inr env"
    using assms(2) by (auto simp: mine_and_sign_def v_def res_simps)
  obtain n jcs sg where n: "0 \<le> n" "mined ?b sk n jcs sg env" using mine_loop_success [OF m(2)] by blast
  have c: "json_val (PDict (candidate ?b n))"
    using candidate_ok(2) [OF assms(1) check_schema_iff [THEN iffD1, OF m(1)] n(1)] n(2) by (simp add: mined_def)
  have ok: "str_ok (lit ''id'')" "str_ok (lit ''sig'')" "str_ok (assertion_id jcs)" "str_ok (bytes_hex sg)"
    using str_ok_hex by (simp_all add: assertion_id_def str_ok_lit)
  show ?thesis
    using n(2) json_dset [OF json_dset [OF c ok(1), of "PStr (assertion_id jcs)"] ok(2), of "PStr (bytes_hex sg)"] ok(3,4)
    by (simp add: mined_def del: json_val.simps(7))
qed

section \<open>Property\<close>



end
