(* ===== verification/Verifier.thy ===== *)
theory Verifier
  imports Sync
begin

text \<open>
  \<^verbatim>\<open>implementations/python/spp_verify.py\<close>: the verifier command. A file is given by its bytes. The
  diagnostic lines are kept as label and value; rendering a value with \<^verbatim>\<open>str\<close> and printing are I/O.
\<close>

section \<open>Verdicts\<close>

definition line :: "string \<Rightarrow> pystr \<Rightarrow> pystr" where
  "line label v = lit label @ v @ [10]"

definition format_valid :: "vinfo \<Rightarrow> pystr" where
  "format_valid info =
     line ''VALID'' [] @ line ''id: '' (vid info) @ line ''units: '' (str_nat (vunits info)) @ line ''target: '' (vtarget_hex info)"

definition format_invalid :: "string \<Rightarrow> string \<Rightarrow> string \<Rightarrow> pystr" where
  "format_invalid kind stage reason = line kind [] @ line ''stage: '' (lit stage) @ line ''reason: '' (lit reason)"

definition verify_file :: "bytes \<Rightarrow> int \<times> pystr" where
  "verify_file data = (case validate_bytes data of
       Inr info \<Rightarrow> (0, format_valid info)
     | Inl (UnsupportedError stage reason) \<Rightarrow> (2, format_invalid ''UNSUPPORTED'' stage reason)
     | Inl (SppError stage reason) \<Rightarrow> (1, format_invalid ''INVALID'' stage reason)
     | Inl e \<Rightarrow> (3, line ''ERROR'' [] @ line ''stage: internal'' [] @ line ''reason: '' (lit (exn_name e))))"

definition failure_record :: "string \<Rightarrow> string \<Rightarrow> string \<Rightarrow> obj" where
  "failure_record status_text stage reason =
     [(lit ''status'', PStr (lit status_text)), (lit ''stage'', PStr (lit stage)), (lit ''reason'', PStr (lit reason))]"

definition verdict_record :: "bytes \<Rightarrow> obj" where
  "verdict_record data = (case validate_bytes data of
       Inr info \<Rightarrow> [(lit ''status'', PStr (lit ''VALID'')), (lit ''id'', PStr (vid info)),
         (lit ''units'', PInt (int (vunits info))), (lit ''target_hex'', PStr (vtarget_hex info))]
     | Inl (UnsupportedError stage reason) \<Rightarrow> failure_record ''UNSUPPORTED'' stage reason
     | Inl (SppError stage reason) \<Rightarrow> failure_record ''INVALID'' stage reason
     | Inl e \<Rightarrow> failure_record ''ERROR'' ''internal'' (exn_name e))"

section \<open>Batches\<close>

text \<open>\<^verbatim>\<open>item["utf8"].encode("utf-8")\<close>\<close>

definition item_bytes :: "pyval \<Rightarrow> exn + bytes" where
  "item_bytes item =
     bindr (subscript item ''utf8'') (\<lambda>v. case v of PStr s \<Rightarrow> utf8_encode s | _ \<Rightarrow> Inl AttributeError)"

definition batch_record :: "pyval \<Rightarrow> exn + obj" where
  "batch_record item =
     (let rec = (case item_bytes item of
         Inr b \<Rightarrow> verdict_record b
       | Inl e \<Rightarrow> failure_record ''ERROR'' ''internal'' (exn_name e))
      in bindr (subscript item ''name'') (\<lambda>n. Inr (dset rec (lit ''name'') n)))"

text \<open>What is printed before the loop ends or raises.\<close>

fun print_each :: "('a \<Rightarrow> exn + 'b) \<Rightarrow> 'a list \<Rightarrow> 'b list \<times> (exn + unit)" where
  "print_each f [] = ([], Inr ())"
| "print_each f (x # xs) = (case f x of
       Inl e \<Rightarrow> ([], Inl e)
     | Inr y \<Rightarrow> let (ys, r) = print_each f xs in (y # ys, r))"

definition over_items :: "(pyval \<Rightarrow> exn + obj) \<Rightarrow> bytes \<Rightarrow> obj list \<times> (exn + unit)" where
  "over_items f content = (case bindr (loads_bytes content) py_iter of Inl e \<Rightarrow> ([], Inl e) | Inr items \<Rightarrow> print_each f items)"

definition run_batch :: "bytes \<Rightarrow> obj list \<times> (exn + unit)" where
  "run_batch content = over_items batch_record content"

definition jcs_record :: "pyval \<Rightarrow> exn + obj" where
  "jcs_record item =
     bindr (item_bytes item) (\<lambda>raw.
     bindr (case bindr (parse_any raw) canonicalize_bytes of
         Inr jcs \<Rightarrow> Inr [(lit ''status'', PStr (lit ''OK'')), (lit ''jcs_hex'', PStr (bytes_hex jcs))]
       | Inl (JsonInputError reason) \<Rightarrow> Inr [(lit ''status'', PStr (lit ''INVALID'')), (lit ''reason'', PStr (lit reason))]
       | Inl e \<Rightarrow> Inl e) (\<lambda>rec.
     bindr (subscript item ''name'') (\<lambda>n. Inr ((lit ''name'', n) # rec))))"

definition run_jcs_batch :: "bytes \<Rightarrow> obj list \<times> (exn + unit)" where
  "run_jcs_batch content = over_items jcs_record content"

definition hex_member :: "pyval \<Rightarrow> string \<Rightarrow> exn + bytes" where
  "hex_member item k = bindr (subscript item k) (\<lambda>v. case v of PStr s \<Rightarrow> fromhex s | _ \<Rightarrow> Inl TypeError)"

definition ed_record :: "pyval \<Rightarrow> exn + obj" where
  "ed_record item =
     bindr (hex_member item ''A'') (\<lambda>a.
     bindr (hex_member item ''sig'') (\<lambda>s.
     bindr (hex_member item ''D'') (\<lambda>d.
     bindr (subscript item ''name'') (\<lambda>n.
       Inr [(lit ''name'', n), (lit ''status'', PStr (lit (if verify_spp_ed25519_1 a s d then ''VALID'' else ''INVALID'')))]))))"

definition run_ed_batch :: "bytes \<Rightarrow> obj list \<times> (exn + unit)" where
  "run_ed_batch content = over_items ed_record content"

section \<open>Diagnostics\<close>

type_synonym lines = "(string \<times> pyval) list"

text \<open>Steps of the diagnostic run: the lines added so far, and an exception or a value.\<close>

definition bindl :: "lines \<times> (exn + 'a) \<Rightarrow> ('a \<Rightarrow> lines \<times> (exn + 'b)) \<Rightarrow> lines \<times> (exn + 'b)" where
  "bindl m f = (case m of (ls, Inl e) \<Rightarrow> (ls, Inl e) | (ls, Inr x) \<Rightarrow> let (ls2, r) = f x in (ls @ ls2, r))"

definition say :: "string \<Rightarrow> pyval \<Rightarrow> lines \<times> (exn + unit)" where
  "say label v = ([(label, v)], Inr ())"

definition quietly :: "exn + 'a \<Rightarrow> lines \<times> (exn + 'a)" where
  "quietly m = ([], m)"

definition pass_fail :: "bool \<Rightarrow> pyval" where
  "pass_fail b = PStr (lit (if b then ''PASS'' else ''FAIL''))"

text \<open>Lines 110 to 121: locators, parents and the channel description cost.\<close>

definition work_counts :: "obj \<Rightarrow> exn + (nat \<times> nat \<times> nat)" where
  "work_counts u =
     bindr (getitem u ''type'') (\<lambda>t.
       if t = PStr (lit ''pointer'') then
         bindr (bindr (getitem u ''ref'') (\<lambda>r. bindr (subscript r ''locators'') py_len)) (\<lambda>loc.
         bindr (case dget u (lit ''parents'') of Some ps \<Rightarrow> py_len ps | None \<Rightarrow> Inr 0) (\<lambda>parents.
           Inr (loc, parents, 0)))
       else if t = PStr (lit ''channel'') then
         bindr (case dget u (lit ''descriptor'') of Some r \<Rightarrow> bindr (subscript r ''locators'') py_len | None \<Rightarrow> Inr 0) (\<lambda>loc.
           Inr (loc, 0, 16))
       else Inl (SppError ''schema'' ''unknown-type''))"

text \<open>Lines 87 to 108: the schema, the canonical body and the identifier.\<close>

definition diagnose_body :: "obj \<Rightarrow> lines \<times> (exn + bytes)" where
  "diagnose_body d =
     (let u = reconstruct_u d in
     bindl (quietly (check_schema u)) (\<lambda>_.
     bindl (quietly (canonicalize_bytes (PDict u))) (\<lambda>jcs.
     bindl (quietly (utf8_decode jcs)) (\<lambda>jcs_str.
     bindl (say ''JCS(U)'' (PStr jcs_str)) (\<lambda>_.
     bindl (say ''canonical_body_bytes'' (PInt (int (length jcs)))) (\<lambda>_.
     bindl (quietly (raise_if (MAX_JCS < length jcs) (SppError ''length'' ''jcs-too-large''))) (\<lambda>_.
     let (ident, digest) = sha256_id_of jcs in
     bindl (say ''D'' (PStr (bytes_hex digest))) (\<lambda>_.
     bindl (say ''id_computed'' (PStr ident)) (\<lambda>_.
     bindl (say ''id_received'' (get_or d ''id'' PNone)) (\<lambda>_.
     bindl (say ''H'' (PStr (fmt_hex 64 (from_be digest)))) (\<lambda>_.
     bindl (quietly (case dget d (lit ''id'') of Some (PStr s) \<Rightarrow> Inr s | _ \<Rightarrow> Inl (SppError ''identifier'' ''missing-id''))) (\<lambda>oid.
     bindl (quietly (raise_if (oid \<noteq> ident) (SppError ''identity'' ''id-mismatch''))) (\<lambda>_.
       quietly (Inr jcs))))))))))))))"

text \<open>Lines 110 to 135: the work requirement.\<close>

definition diagnose_work :: "obj \<Rightarrow> bytes \<Rightarrow> lines \<times> (exn + unit)" where
  "diagnose_work u jcs =
     bindl (quietly (work_counts u)) (\<lambda>(loc, parents, cdc).
     bindl (say ''locator_count'' (PInt (int loc))) (\<lambda>_.
     bindl (say ''parent_count'' (PInt (int parents))) (\<lambda>_.
     bindl (say ''channel_description_cost'' (PInt (int cdc))) (\<lambda>_.
     bindl (quietly (work_units u (length jcs))) (\<lambda>units.
     let h = from_be (snd (sha256_id_of jcs)) in
     bindl (say ''units'' (PInt (int units))) (\<lambda>_.
     bindl (say ''Wrequired'' (PInt (int (units * UNIT_SCALE)))) (\<lambda>_.
     bindl (say ''target'' (PStr (fmt_hex 64 (target_for_units units)))) (\<lambda>_.
     bindl (say ''PoW'' (pass_fail (work_ok h units))) (\<lambda>_.
       quietly (raise_if (\<not> work_ok h units) (SppError ''work'' ''insufficient-work'')))))))))))"

text \<open>Lines 137 to 145: the signature.\<close>

definition diagnose_sig :: "obj \<Rightarrow> bytes \<Rightarrow> lines \<times> (exn + unit)" where
  "diagnose_sig d jcs =
     bindl (quietly (case dget d (lit ''sig'') of
         Some (PStr s) \<Rightarrow> (if sig_match s then Inr s else Inl (SppError ''signature'' ''signature''))
       | _ \<Rightarrow> Inl (SppError ''signature'' ''signature''))) (\<lambda>sg.
     bindl (quietly (actor_bytes (reconstruct_u d))) (\<lambda>ab.
     bindl (quietly (fromhex sg)) (\<lambda>sb.
     let ok = verify_spp_ed25519_1 ab sb (snd (sha256_id_of jcs)) in
     bindl (say ''signature'' (pass_fail ok)) (\<lambda>_.
       quietly (raise_if (\<not> ok) (SppError ''signature'' ''signature''))))))"

definition diagnose :: "obj \<Rightarrow> lines \<times> (exn + unit)" where
  "diagnose d =
     bindl (quietly (raise_if (case dget d (lit ''v'') of Some (PFloat x) \<Rightarrow> isfinite x \<and> x \<noteq> f64_one | _ \<Rightarrow> False)
       (UnsupportedError ''version'' ''unknown-v''))) (\<lambda>_.
     let u = reconstruct_u d in
     bindl (say ''v'' (get_or d ''v'' PNone)) (\<lambda>_.
     bindl (say ''type'' (get_or u ''type'' PNone)) (\<lambda>_.
     bindl (say ''actor'' (get_or u ''actor'' PNone)) (\<lambda>_.
     bindl (say ''created'' (get_or u ''created'' PNone)) (\<lambda>_.
     bindl (say ''nonce'' (get_or u ''nonce'' PNone)) (\<lambda>_.
     bindl (diagnose_body d) (\<lambda>jcs.
     bindl (diagnose_work u jcs) (\<lambda>_.
       diagnose_sig d jcs))))))))"

definition closing :: "string \<Rightarrow> string \<Rightarrow> string \<Rightarrow> lines" where
  "closing status_text stage reason =
     [(''status'', PStr (lit status_text)), (''stage'', PStr (lit stage)), (''reason'', PStr (lit reason))]"

definition run_diagnostic :: "bytes \<Rightarrow> exn + (int \<times> lines)" where
  "run_diagnostic data = (case bindr (parse_utf8 data) (\<lambda>v. case v of PDict d \<Rightarrow> Inr d | _ \<Rightarrow> Inl (SppError ''json-input'' ''not-object'')) of
       Inl (JsonInputError reason) \<Rightarrow> Inr (1, closing ''INVALID'' ''json-input'' reason)
     | Inl (SppError stage reason) \<Rightarrow> Inr (1, closing ''INVALID'' ''json-input'' reason)
     | Inl (UnsupportedError stage reason) \<Rightarrow> Inr (1, closing ''INVALID'' ''json-input'' reason)
     | Inl e \<Rightarrow> Inl e
     | Inr d \<Rightarrow> (case diagnose d of
           (ls, Inr _) \<Rightarrow> Inr (0, ls @ [(''status'', PStr (lit ''VALID''))])
         | (ls, Inl (UnsupportedError stage reason)) \<Rightarrow> Inr (2, ls @ closing ''UNSUPPORTED'' stage reason)
         | (ls, Inl (SppError stage reason)) \<Rightarrow> Inr (1, ls @ closing ''INVALID'' stage reason)
         | (ls, Inl e) \<Rightarrow> Inl e))"

end
