(* ===== verification/Verifier_Facts.thy ===== *)
theory Verifier_Facts
  imports Verifier
begin

text \<open>
  The diagnostic run repeats the validator's pipeline with output in between; its exit code, stage
  and reason are those of the validator on every input, and it never lets an exception escape.
\<close>

section \<open>Erasing the output\<close>

lemma snd_bindl [simp]: "snd (bindl m f) = bindr (snd m) (\<lambda>x. snd (f x))"
  by (simp add: bindl_def bindr_def split: prod.splits sum.splits)

lemma fst_bindl: "fst (bindl m f) = fst m @ (case snd m of Inl _ \<Rightarrow> [] | Inr x \<Rightarrow> fst (f x))"
  by (simp add: bindl_def split: prod.splits sum.splits)

lemma say_quietly [simp]:
  "snd (say l v) = Inr ()" "fst (say l v) = [(l, v)]" "snd (quietly m) = m" "fst (quietly m) = []"
  by (simp_all add: say_def quietly_def)

declare bindr_Inr [simp]

lemma decode_canonical: "canonicalize_bytes v = Inr jcs \<Longrightarrow> \<exists>t. utf8_decode jcs = Inr t \<and> canonicalize v = Inr t"
  by (auto simp: canonicalize_bytes_iff utf8_encode_def utf8_decode_bytes split: if_splits)

lemma work_counts_ok: "schema_ok u \<Longrightarrow> \<exists>c. work_counts u = Inr c"
proof -
  assume "schema_ok u"
  then consider (p) "pointer_ok u" | (c) "channel_ok u" by (auto simp: schema_ok_def)
  then show ?thesis
  proof cases
    case p
    then obtain r where r: "dget u (lit ''ref'') = Some r" "ref_ok r" by (auto simp: pointer_ok_def)
    have "\<exists>n. (case dget u (lit ''parents'') of Some ps \<Rightarrow> py_len ps | None \<Rightarrow> Inr 0) = Inr n"
      using p by (auto simp: pointer_ok_def py_len_def split: option.splits)
    then show ?thesis using p r by (auto simp: work_counts_def getitem_def pointer_ok_def ref_locators)
  next
    case c
    then show ?thesis using ref_locators
      by (auto simp: work_counts_def getitem_def channel_ok_def split: option.splits)
  qed
qed

lemma diagnose_result: "snd (diagnose d) = bindr (validate_object d) (\<lambda>_. Inr ())"
proof -
  let ?u = "reconstruct_u d"
  let ?bad = "case dget d (lit ''v'') of Some (PFloat x) \<Rightarrow> isfinite x \<and> x \<noteq> f64_one | _ \<Rightarrow> False"
  show ?thesis
  proof (cases "check_schema ?u")
    case (Inr w)
    then have s: "schema_ok ?u" by (simp add: check_schema_iff)
    obtain c where c: "work_counts ?u = Inr c" using work_counts_ok [OF s] by blast
    show ?thesis
    proof (cases "canonicalize_bytes (PDict ?u)")
      case cb: (Inr jcs)
      obtain t where "utf8_decode jcs = Inr t" "canonicalize (PDict ?u) = Inr t" using decode_canonical [OF cb] by blast
      then show ?thesis
        using Inr cb c work_units_ok [OF s]
        by (simp add: diagnose_def diagnose_body_def diagnose_work_def diagnose_sig_def validate_object_def sha256_id_of_def
            Let_def bindr_assoc work_ok_def not_le case_prod_beta)
    qed (use Inr in \<open>simp add: diagnose_def diagnose_body_def validate_object_def Let_def bindr_assoc\<close>)
  qed (simp add: diagnose_def diagnose_body_def validate_object_def Let_def bindr_assoc)
qed

section \<open>Verdicts agree\<close>

lemma parse_stage:
  "bindr (parse_utf8 data) (\<lambda>v. case v of PDict d \<Rightarrow> Inr d | _ \<Rightarrow> Inl (SppError ''json-input'' ''not-object'')) =
   (case parse_object data of Inr d \<Rightarrow> Inr d
      | Inl e \<Rightarrow> if parse_utf8 data = Inl e then Inl e else Inl (SppError ''json-input'' ''not-object''))"
  by (auto simp: parse_object_def bindr_def split: sum.splits pyval.splits)

lemma not_object: "parse_object data = Inl e \<Longrightarrow> parse_utf8 data \<noteq> Inl e \<Longrightarrow> e = JsonInputError ''not-object''"
  by (auto simp: parse_object_def bindr_def split: sum.splits pyval.splits)

lemma diagnose_lines:
  assumes "validate_object d = Inr info"
  shows "(''id_computed'', PStr (vid info)) \<in> set (fst (diagnose d))" "(''units'', PInt (int (vunits info))) \<in> set (fst (diagnose d))"
    "(''target'', PStr (vtarget_hex info)) \<in> set (fst (diagnose d))"
proof -
  let ?u = "reconstruct_u d"
  obtain jcs units where v: "raise_if (case dget d (lit ''v'') of Some (PFloat x) \<Rightarrow> isfinite x \<and> x \<noteq> f64_one | _ \<Rightarrow> False)
      (UnsupportedError ''version'' ''unknown-v'') = Inr ()"
    "check_schema ?u = Inr ()" "canonicalize_bytes (PDict ?u) = Inr jcs" "length jcs \<le> MAX_JCS"
    "dget d (lit ''id'') = Some (PStr (vid info))" "vid info = lit ''sha256:'' @ bytes_hex (sha256 jcs)"
    "work_units ?u (length jcs) = Inr units" "work_ok (from_be (sha256 jcs)) units"
    "vunits info = units" "vtarget_hex info = fmt_hex 64 (target_for_units units)"
    using assms unfolding validate_object_def Let_def sha256_id_of_def prod.case res_simps
    by (auto simp: work_ok_def not_less raise_if_eq_Inr)
  obtain t where "utf8_decode jcs = Inr t" using decode_canonical [OF v(3)] by blast
  moreover obtain c where "work_counts ?u = Inr c" using work_counts_ok [OF check_schema_iff [THEN iffD1, OF v(2)]] by blast
  ultimately have b: "snd (diagnose_body d) = Inr jcs" "(''id_computed'', PStr (vid info)) \<in> set (fst (diagnose_body d))"
    "(''units'', PInt (int (vunits info))) \<in> set (fst (diagnose_work ?u jcs))"
    "(''target'', PStr (vtarget_hex info)) \<in> set (fst (diagnose_work ?u jcs))" "snd (diagnose_work ?u jcs) = Inr ()"
    using v by (simp_all add: diagnose_body_def diagnose_work_def sha256_id_of_def Let_def fst_bindl raise_if_def case_prod_beta)
  then show "(''id_computed'', PStr (vid info)) \<in> set (fst (diagnose d))" "(''units'', PInt (int (vunits info))) \<in> set (fst (diagnose d))"
    "(''target'', PStr (vtarget_hex info)) \<in> set (fst (diagnose d))"
    using v(1) by (simp_all add: diagnose_def Let_def fst_bindl)
qed

section \<open>Batches\<close>

text \<open>A batch run judges every item as the validator judges its bytes, an item that cannot be
  encoded gets an error record, and the run goes through when every item has a name: no input
  stops the batch.\<close>

lemma batch_isolates_items:
  assumes "loads_bytes content = Inr (PList items)" "\<forall>item\<in>set items. \<exists>n. subscript item ''name'' = Inr n"
  shows "run_batch content = (map (\<lambda>item. dset (case item_bytes item of Inr b \<Rightarrow> verdict_record b
      | Inl e \<Rightarrow> failure_record ''ERROR'' ''internal'' (exn_name e)) (lit ''name'') (projr (subscript item ''name''))) items, Inr ())"
proof -
  have "print_each batch_record items = (map (\<lambda>item. dset (case item_bytes item of Inr b \<Rightarrow> verdict_record b
      | Inl e \<Rightarrow> failure_record ''ERROR'' ''internal'' (exn_name e)) (lit ''name'') (projr (subscript item ''name''))) items, Inr ())"
    using assms(2) by (induction items) (auto simp: batch_record_def Let_def)
  then show ?thesis using assms(1) by (simp add: run_batch_def over_items_def py_iter_def)
qed

section \<open>Properties\<close>


end
