(* ===== verification/Suite.thy ===== *)
theory Suite
  imports Verifier_Facts
begin

text \<open>
  The conformance suite runner of \<^verbatim>\<open>implementations/python/spp_verify.py\<close>, and \<^verbatim>\<open>main\<close>. A suite is JSON
  of any shape: every member access, conversion and comparison of the runner is modelled on any
  value, with the exception it raises. Printed lines are kept in pieces; rendering a JSON value with
  \<^verbatim>\<open>str\<close> in a printed line, and the console, are I/O.
\<close>

section \<open>Built-in conversions of JSON values\<close>

text \<open>\<^verbatim>\<open>int(s, 16)\<close>: white space, a sign, an optional prefix, digits with single underscores.\<close>

fun underscore_hex :: "pystr \<Rightarrow> pystr option" where
  "underscore_hex [] = None"
| "underscore_hex [c] = (if is_hex c then Some [c] else None)"
| "underscore_hex (c # d # s) =
     (if \<not> is_hex c then None
      else map_option (Cons c) (underscore_hex (if d = ch CHR ''_'' then s else d # s)))"

definition hex_prefix :: "pystr \<Rightarrow> pystr" where
  "hex_prefix s = (if take 2 s = lit ''0x'' \<or> take 2 s = lit ''0X'' then
       (if take 1 (drop 2 s) = lit ''_'' then drop 3 s else drop 2 s) else s)"

definition int_base16 :: "pystr \<Rightarrow> exn + int" where
  "int_base16 s =
     (let t = strip_by int_space (map ascii_decimal s); k = (case underscore_hex (hex_prefix (skip_sign t)) of
          None \<Rightarrow> None | Some ds \<Rightarrow> Some (int (nat_of_hex ds)))
      in case k of None \<Rightarrow> Inl (ValueError ''invalid literal'') | Some n \<Rightarrow> Inr (if take 1 t = lit ''-'' then - n else n))"

text \<open>\<^verbatim>\<open>int(v)\<close>\<close>

definition int_value :: "pyval \<Rightarrow> exn + int" where
  "int_value v = (case v of
       PInt i \<Rightarrow> Inr i
     | PBool b \<Rightarrow> Inr (of_bool b)
     | PFloat FNaN \<Rightarrow> Inl (ValueError ''cannot convert float NaN to integer'')
     | PFloat (FInf _) \<Rightarrow> Inl OverflowError
     | PFloat x \<Rightarrow> Inr (int_of_f64 x)
     | PStr s \<Rightarrow> int_text s
     | _ \<Rightarrow> Inl TypeError)"

text \<open>
  \<^verbatim>\<open>float(v)\<close>. Text is an optional sign and a decimal number, or the name of an infinity or NaN in any
  case; an underscore stands between two digits.
\<close>

fun drop_underscores :: "bool \<Rightarrow> pystr \<Rightarrow> pystr option" where
  "drop_underscores prev [] = Some []"
| "drop_underscores prev (c # s) =
     (if c = ch CHR ''_'' then
        (if prev \<and> s \<noteq> [] \<and> is_digit (hd s) then drop_underscores False s else None)
      else map_option (Cons c) (drop_underscores (is_digit c) s))"

definition decimal_number :: "pystr \<Rightarrow> bool" where
  "decimal_number s =
     (let ip = takeWhile is_digit s; (fp, q) = tok_frac (dropWhile is_digit s) in
      (ip \<noteq> [] \<or> fp \<noteq> []) \<and>
      (case q of [] \<Rightarrow> True | c # r \<Rightarrow>
         (c = ch CHR ''e'' \<or> c = ch CHR ''E'') \<and> skip_sign r \<noteq> [] \<and> list_all is_digit (skip_sign r)))"

definition float_str :: "pystr \<Rightarrow> exn + binary64" where
  "float_str s = (case drop_underscores False (strip_by int_space (map ascii_decimal s)) of
       None \<Rightarrow> Inl (ValueError ''could not convert string to float'')
     | Some t \<Rightarrow>
         let b = skip_sign t; neg = (take 1 t = lit ''-'') in
         if lower b = lit ''nan'' then Inr FNaN
         else if lower b = lit ''inf'' \<or> lower b = lit ''infinity'' then Inr (FInf neg)
         else if decimal_number b then Inr (py_float (if neg then t else b))
         else Inl (ValueError ''could not convert string to float''))"

definition float_value :: "pyval \<Rightarrow> exn + binary64" where
  "float_value v = (case v of
       PFloat x \<Rightarrow> Inr x
     | PInt i \<Rightarrow> float_of_int i
     | PBool b \<Rightarrow> float_of_int (of_bool b)
     | PStr s \<Rightarrow> float_str s
     | _ \<Rightarrow> Inl TypeError)"

text \<open>
  \<^verbatim>\<open>str(v)\<close> and \<^verbatim>\<open>repr(v)\<close>. Which characters beyond ASCII \<^verbatim>\<open>repr\<close> escapes depends on the Unicode tables
  of the interpreter: \<open>printable\<close> is an argument.
\<close>

definition repr_char :: "(nat \<Rightarrow> bool) \<Rightarrow> nat \<Rightarrow> nat \<Rightarrow> pystr" where
  "repr_char printable q c =
     (if c = q \<or> c = 92 then [92, c]
      else if c = 9 then lit [CHR 0x5C, CHR ''t'']
      else if c = 10 then lit [CHR 0x5C, CHR ''n'']
      else if c = 13 then lit [CHR 0x5C, CHR ''r'']
      else if 32 \<le> c \<and> c < 127 \<or> 127 < c \<and> printable c then [c]
      else if c < 0x100 then lit [CHR 0x5C, CHR ''x''] @ fmt_hex 2 c
      else if c < 0x10000 then lit [CHR 0x5C, CHR ''u''] @ fmt_hex 4 c
      else lit [CHR 0x5C, CHR ''U''] @ fmt_hex 8 c)"

definition repr_str :: "(nat \<Rightarrow> bool) \<Rightarrow> pystr \<Rightarrow> pystr" where
  "repr_str printable s =
     (let q = (if 39 \<in> set s \<and> 34 \<notin> set s then 34 else 39) in
      [q] @ concat (map (repr_char printable q) s) @ [q])"

definition repr_float :: "binary64 \<Rightarrow> pystr" where
  "repr_float x = (case x of
       FNaN \<Rightarrow> lit ''nan''
     | FInf neg \<Rightarrow> (if neg then lit ''-inf'' else lit ''inf'')
     | _ \<Rightarrow> float_text x)"

fun py_repr :: "(nat \<Rightarrow> bool) \<Rightarrow> pyval \<Rightarrow> exn + pystr" where
  "py_repr printable PNone = Inr (lit ''None'')"
| "py_repr printable (PBool b) = Inr (if b then lit ''True'' else lit ''False'')"
| "py_repr printable (PInt i) = int_repr i"
| "py_repr printable (PFloat x) = Inr (repr_float x)"
| "py_repr printable (PStr s) = Inr (repr_str printable s)"
| "py_repr printable (PList vs) =
     bindr (mapr (py_repr printable) vs) (\<lambda>ts. Inr (lit ''['' @ join (lit '', '') ts @ lit '']''))"
| "py_repr printable (PDict d) =
     bindr (mapr (\<lambda>p. bindr (py_repr printable (snd p)) (\<lambda>t. Inr (repr_str printable (fst p) @ lit '': '' @ t))) d) (\<lambda>ts.
       Inr (lit [CHR 0x7B] @ join (lit '', '') ts @ lit [CHR 0x7D]))"

definition str_value :: "(nat \<Rightarrow> bool) \<Rightarrow> pyval \<Rightarrow> exn + pystr" where
  "str_value printable v = (case v of PStr s \<Rightarrow> Inr s | _ \<Rightarrow> py_repr printable v)"

text \<open>\<^verbatim>\<open>x == v\<close> for a computed string, integer or truth value \<^verbatim>\<open>x\<close> and any \<^verbatim>\<open>v\<close>.\<close>

definition equals_int :: "int \<Rightarrow> pyval \<Rightarrow> bool" where
  "equals_int i v = (case v of
       PInt j \<Rightarrow> i = j
     | PBool b \<Rightarrow> i = of_bool b
     | PFloat x \<Rightarrow> isfinite x \<and> is_integer x \<and> int_of_f64 x = i
     | _ \<Rightarrow> False)"

definition py_same :: "pyval \<Rightarrow> pyval \<Rightarrow> bool" where
  "py_same x v = (case x of PInt i \<Rightarrow> equals_int i v | PBool b \<Rightarrow> equals_int (of_bool b) v | _ \<Rightarrow> x = v)"

section \<open>Constructed bodies\<close>

definition constructed :: "(nat \<Rightarrow> bool) \<Rightarrow> pyval \<Rightarrow> (exn + pyval) \<Rightarrow> exn + obj" where
  "constructed printable inp ext =
     bindr (subscript inp ''actor'') (\<lambda>a.
     bindr (subscript inp ''channel'') (\<lambda>c.
     bindr (bindr (subscript inp ''created'') float_value) (\<lambda>t.
     bindr (subscript inp ''hash'') (\<lambda>h.
     bindr ext (\<lambda>x.
     bindr (bindr (subscript inp ''nonce'') (str_value printable)) (\<lambda>n.
       Inr [(lit ''v'', PFloat f64_one), (lit ''type'', PStr (lit ''pointer'')), (lit ''actor'', a), (lit ''channel'', c),
         (lit ''created'', PFloat t), (lit ''ref'', PDict [(lit ''hash'', h), (lit ''locators'', PList [])]),
         (lit ''ext'', x), (lit ''nonce'', PStr n)]))))))"

text \<open>\<^verbatim>\<open>"a" * n\<close>: a repeat count that does not fit an index is refused, a negative one counts as 0.\<close>

definition repeat_a :: "int \<Rightarrow> exn + pystr" where
  "repeat_a n = (if 2 ^ 63 \<le> n \<or> n < - (2 ^ 63) then Inl OverflowError else Inr (replicate (nat n) (ch CHR ''a'')))"

definition pad_u :: "(nat \<Rightarrow> bool) \<Rightarrow> pyval \<Rightarrow> exn + obj" where
  "pad_u printable inp = constructed printable inp
     (bindr (bindr (bindr (subscript inp ''pad_len'') int_value) repeat_a) (\<lambda>s. Inr (PDict [(lit ''pad'', PStr s)])))"

primrec nested :: "nat \<Rightarrow> pyval" where
  "nested 0 = PInt 1"
| "nested (Suc n) = PDict [(lit ''a'', nested n)]"

definition deep_u :: "(nat \<Rightarrow> bool) \<Rightarrow> pyval \<Rightarrow> exn + obj" where
  "deep_u printable inp =
     bindr (bindr (subscript inp ''depth'') int_value) (\<lambda>n.
       constructed printable inp (Inr (PDict [(lit ''deep'', nested (nat n))])))"

section \<open>One case\<close>

datatype piece = Txt string | Val pyval

datatype mark = Pass | Fail "piece list"

definition expected :: "string \<Rightarrow> pyval \<Rightarrow> bool" where
  "expected k v = (v = PStr (lit k))"

definition full_assertion_case :: "pyval \<Rightarrow> pyval \<Rightarrow> obj \<Rightarrow> exn + mark" where
  "full_assertion_case expect inp want =
     bindr (bindr (item_bytes inp) validate_bytes) (\<lambda>info.
       if \<not> expected ''valid'' expect then Inr (Fail [Txt ''expected '', Val expect, Txt '', got valid''])
       else
         let fields = [(''id'', PStr (vid info)), (''units'', PInt (int (vunits info))), (''target_hex'', PStr (vtarget_hex info)),
               (''jcs'', PStr (vjcs info)), (''sig'', PStr (vsig info))]
         in case find (\<lambda>(k, x). case dget want (lit k) of None \<Rightarrow> False | Some v \<Rightarrow> \<not> py_same x v) fields of
             Some (k, x) \<Rightarrow> Inr (Fail [Txt (k @ '' mismatch'')])
           | None \<Rightarrow> Inr Pass)"

definition json_input_case :: "pyval \<Rightarrow> pyval \<Rightarrow> exn + mark" where
  "json_input_case expect inp =
     bindr (bindr (item_bytes inp) parse_utf8) (\<lambda>_.
       Inr (if expected ''invalid'' expect then Fail [Txt ''json-input accepted''] else Pass))"

definition schema_case :: "pyval \<Rightarrow> pyval \<Rightarrow> exn + mark" where
  "schema_case expect inp =
     bindr (bindr (item_bytes inp) parse_utf8) (\<lambda>v.
     bindr (case v of PDict d \<Rightarrow> Inr d | _ \<Rightarrow> Inl schema_error) (\<lambda>d.
     bindr (check_schema (if dhas d (lit ''id'') \<or> dhas d (lit ''sig'') then reconstruct_u d else d)) (\<lambda>_.
       Inr (if expected ''invalid'' expect then Fail [Txt ''schema accepted''] else Pass))))"

definition jcs_case :: "pyval \<Rightarrow> obj \<Rightarrow> exn + mark" where
  "jcs_case inp want =
     bindr (bindr (item_bytes inp) parse_utf8) (\<lambda>v.
     bindr (canonicalize_bytes v) (\<lambda>jcs.
     let differs = (\<lambda>k x. case dget want (lit k) of None \<Rightarrow> False | Some w \<Rightarrow> PStr x \<noteq> w);
         ident = fst (sha256_id_of jcs)
     in if differs ''jcs_hex'' (bytes_hex jcs) then Inr (Fail [Txt ''jcs hex '', Val (PStr (bytes_hex jcs))])
        else
          bindr (if dhas want (lit ''jcs'') then bindr (utf8_decode jcs) (\<lambda>text. Inr (differs ''jcs'' text)) else Inr False) (\<lambda>bad.
            Inr (if bad then Fail [Txt ''jcs mismatch'']
              else if differs ''id'' ident then Fail [Txt ''id '', Val (PStr ident)]
              else Pass))))"

definition length_body :: "(nat \<Rightarrow> bool) \<Rightarrow> pyval \<Rightarrow> exn + obj" where
  "length_body printable inp =
     bindr (subscript inp ''kind'') (\<lambda>kind.
       if kind = PStr (lit ''construct-pad'') then pad_u printable inp
       else if kind = PStr (lit ''construct-depth'') then deep_u printable inp
       else
         bindr (bindr (item_bytes inp) parse_utf8) (\<lambda>v.
         bindr (case v of PDict d \<Rightarrow> Inr (reconstruct_u d) | _ \<Rightarrow> Inl schema_error) (\<lambda>u.
         bindr (check_schema u) (\<lambda>_. Inr u))))"

definition length_case :: "(nat \<Rightarrow> bool) \<Rightarrow> pyval \<Rightarrow> pyval \<Rightarrow> obj \<Rightarrow> exn + mark" where
  "length_case printable expect inp want =
     bindr (length_body printable inp) (\<lambda>u.
     bindr (canonicalize_bytes (PDict u)) (\<lambda>jcs.
       let n = int (length jcs);
           differs = (\<lambda>k i. case dget want (lit k) of None \<Rightarrow> False | Some w \<Rightarrow> \<not> equals_int i w)
       in if differs ''jcs_bytes'' n then Inr (Fail [Txt ''jcs_bytes '', Val (PInt n)])
          else if expected ''invalid'' expect then
            bindr (raise_if (MAX_JCS < length jcs) (SppError ''length'' ''jcs-too-large'')) (\<lambda>_.
            bindr (check_schema u) (\<lambda>_. Inr (Fail [Txt ''length accepted''])))
          else
            bindr (check_schema u) (\<lambda>_.
            if dhas want (lit ''units'') then
              bindr (work_units u (length jcs)) (\<lambda>units.
                Inr (if differs ''units'' (int units) then Fail [Txt ''units '', Val (PInt (int units))] else Pass))
            else Inr Pass)))"

text \<open>The target of a unit count given as any integer; \<^verbatim>\<open>//\<close> rounds towards minus infinity.\<close>

definition target_of_int :: "int \<Rightarrow> exn + int" where
  "target_of_int units = (if units = 0 then Inl ZeroDivisionError else Inr (int MAX_H div (units * int UNIT_SCALE)))"

definition target_text :: "int \<Rightarrow> pystr" where
  "target_text t = (if t < 0 then lit ''-'' @ fmt_hex 63 (nat (- t)) else fmt_hex 64 (nat t))"

definition work_case :: "pyval \<Rightarrow> pyval \<Rightarrow> obj \<Rightarrow> exn + mark" where
  "work_case expect inp want =
     bindr (bindr (subscript inp ''units'') int_value) (\<lambda>units.
     bindr (bindr (subscript inp ''H_hex'') (\<lambda>v. case v of PStr s \<Rightarrow> int_base16 s | _ \<Rightarrow> Inl TypeError)) (\<lambda>h.
     bindr (target_of_int units) (\<lambda>tgt.
       let ok = (h \<le> tgt) in
       Inr (if (case dget want (lit ''target_hex'') of None \<Rightarrow> False | Some w \<Rightarrow> PStr (target_text tgt) \<noteq> w)
         then Fail [Txt ''target mismatch'']
         else if \<not> py_same (PBool ok) (get_or want ''accept'' (PBool (expected ''valid'' expect)))
         then Fail [Txt ''accept='', Val (PBool ok)] else Pass))))"

definition signature_case :: "pyval \<Rightarrow> pyval \<Rightarrow> exn + mark" where
  "signature_case expect inp =
     bindr (hex_member inp ''A'') (\<lambda>a.
     bindr (hex_member inp ''sig'') (\<lambda>s.
     bindr (hex_member inp ''D'') (\<lambda>d.
       let ok = verify_spp_ed25519_1 a s d in
       Inr (if expected ''invalid'' expect \<and> ok then Fail [Txt ''signature accepted'']
         else if expected ''valid'' expect \<and> \<not> ok then Fail [Txt ''signature rejected'']
         else Pass))))"

definition judge_case :: "(nat \<Rightarrow> bool) \<Rightarrow> pyval \<Rightarrow> pyval \<Rightarrow> pyval \<Rightarrow> obj \<Rightarrow> exn + mark" where
  "judge_case printable cls expect inp want =
     (if cls = PStr (lit ''full-assertion'') then full_assertion_case expect inp want
      else if cls = PStr (lit ''json-input'') then json_input_case expect inp
      else if cls = PStr (lit ''schema'') then schema_case expect inp
      else if cls = PStr (lit ''jcs'') then jcs_case inp want
      else if cls = PStr (lit ''length'') then length_case printable expect inp want
      else if cls = PStr (lit ''work'') then work_case expect inp want
      else if cls = PStr (lit ''spp-ed25519-1'') then signature_case expect inp
      else Inr (Fail [Txt ''unknown class '', Val cls]))"

text \<open>\<^verbatim>\<open>case.get("want") or {}\<close>, which must have a \<^verbatim>\<open>get\<close>, and \<^verbatim>\<open>set(want.get("reasons") or [])\<close>.\<close>

definition case_want :: "pyval \<Rightarrow> exn + obj" where
  "case_want c = (case c of
       PDict d \<Rightarrow>
         (let w = get_or d ''want'' PNone in
          if truthy w then (case w of PDict x \<Rightarrow> Inr x | _ \<Rightarrow> Inl AttributeError) else Inr [])
     | _ \<Rightarrow> Inl AttributeError)"

definition hashable :: "pyval \<Rightarrow> bool" where
  "hashable v = (case v of PList _ \<Rightarrow> False | PDict _ \<Rightarrow> False | _ \<Rightarrow> True)"

definition case_reasons :: "obj \<Rightarrow> exn + pyval list" where
  "case_reasons want =
     (let r = get_or want ''reasons'' PNone in
      if truthy r then bindr (py_iter r) (\<lambda>vs. if list_all hashable vs then Inr vs else Inl TypeError) else Inr [])"

definition as_expected :: "string \<Rightarrow> pyval \<Rightarrow> pyval list \<Rightarrow> string \<Rightarrow> bool" where
  "as_expected k expect reasons reason = (expected k expect \<and> (reasons = [] \<or> PStr (lit reason) \<in> set reasons))"

text \<open>A refusal the case expects is a pass; any exception but the three classes of the protocol escapes.\<close>

definition settle :: "pyval \<Rightarrow> pyval list \<Rightarrow> exn + mark \<Rightarrow> exn + mark" where
  "settle expect reasons r = (case r of
       Inl (JsonInputError reason) \<Rightarrow> Inr (if as_expected ''invalid'' expect reasons reason then Pass else Fail [Txt (''json-input '' @ reason)])
     | Inl (UnsupportedError stage reason) \<Rightarrow>
         Inr (if as_expected ''unsupported'' expect reasons reason then Pass else Fail [Txt (''unsupported '' @ reason)])
     | Inl (SppError stage reason) \<Rightarrow>
         Inr (if as_expected ''invalid'' expect reasons reason then Pass else Fail [Txt (stage @ '':'' @ reason)])
     | _ \<Rightarrow> r)"

definition case_line :: "pyval \<Rightarrow> mark \<Rightarrow> bool \<times> piece list" where
  "case_line cid r = (case r of Pass \<Rightarrow> (True, [Val cid, Txt '' PASS'']) | Fail msg \<Rightarrow> (False, [Val cid, Txt '' FAIL ''] @ msg))"

definition run_case :: "(nat \<Rightarrow> bool) \<Rightarrow> pyval \<Rightarrow> exn + (bool \<times> piece list)" where
  "run_case printable c =
     bindr (subscript c ''id'') (\<lambda>cid.
     bindr (subscript c ''class'') (\<lambda>cls.
     bindr (subscript c ''expect'') (\<lambda>expect.
     bindr (subscript c ''input'') (\<lambda>inp.
     bindr (case_want c) (\<lambda>want.
     bindr (case_reasons want) (\<lambda>reasons.
     bindr (settle expect reasons (judge_case printable cls expect inp want)) (\<lambda>r.
       Inr (case_line cid r))))))))"

section \<open>The suite and the command\<close>

definition run_suite :: "(nat \<Rightarrow> bool) \<Rightarrow> bytes \<Rightarrow> piece list list \<times> (exn + int)" where
  "run_suite printable content =
     (case bindr (loads_bytes content) (\<lambda>suite. bindr (subscript suite ''cases'') py_iter) of
         Inl e \<Rightarrow> ([], Inl e)
       | Inr cases \<Rightarrow> (case print_each (run_case printable) cases of
             (rs, Inl e) \<Rightarrow> (map snd rs, Inl e)
           | (rs, Inr _) \<Rightarrow>
               let failed = length (filter (\<lambda>r. \<not> fst r) rs); total = length cases in
               (map snd rs @ [[Val (PInt (int total - int failed)), Txt ''/'', Val (PInt (int total)), Txt '' passed'']],
                Inr (if failed \<noteq> 0 then 1 else 0))))"

datatype printed = Pieces "piece list" | Json obj | Diagnostic lines | Text pystr | Usage

definition main :: "(nat \<Rightarrow> bool) \<Rightarrow> pystr list \<Rightarrow> bytes \<Rightarrow> printed list \<times> (exn + int)" where
  "main printable argv content =
     (let mode = (\<lambda>m. length argv = 3 \<and> argv ! 1 = lit m);
          batch = (\<lambda>(recs, r). (map Json recs, bindr r (\<lambda>_. Inr 0)))
      in if mode ''--suite'' then (case run_suite printable content of (ls, r) \<Rightarrow> (map Pieces ls, r))
         else if mode ''--batch'' then batch (run_batch content)
         else if mode ''--jcs-batch'' then batch (run_jcs_batch content)
         else if mode ''--ed-batch'' then batch (run_ed_batch content)
         else if mode ''--diagnostic'' then
           (case run_diagnostic content of Inl e \<Rightarrow> ([], Inl e) | Inr (code, ls) \<Rightarrow> ([Diagnostic ls], Inr code))
         else if length argv \<noteq> 2 \<or> argv ! 1 = lit ''-h'' \<or> argv ! 1 = lit ''--help'' then ([Usage], Inr 3)
         else (case verify_file content of (code, t) \<Rightarrow> ([Text t], Inr code)))"

end
