(* ===== verification/Federation.thy ===== *)
theory Federation
  imports Json_Library Sync Server_Facts
begin

text \<open>
  From a relay's listing to the sync worker. The durable relay writes a listing by splicing stored
  canonical envelopes into a JSON text; the sync worker takes that text apart with the standard
  library, writes each item again and validates what it wrote.
\<close>

section \<open>The listing as a JSON text\<close>

definition plain :: "pystr \<Rightarrow> bool" where
  "plain s = list_all (\<lambda>c. 32 \<le> c \<and> c \<le> 126 \<and> c \<noteq> 34 \<and> c \<noteq> 92) s"

lemma plain_ok: "plain s \<Longrightarrow> str_ok s"
  by (auto simp: plain_def list_all_iff intro!: ascii_char_ok)

lemma escape_plain: "plain s \<Longrightarrow> escape_string s = [34] @ s @ [34]"
proof -
  assume "plain s"
  then have "concat (map escape_char s) = s" by (induction s) (auto simp: plain_def escape_char_def)
  then show ?thesis by (simp add: escape_string_def)
qed

lemma utf8_plain: "list_all (\<lambda>c. c < 128) s \<Longrightarrow> utf8_bytes s = map of_nat s"
  by (induction s) (auto simp: utf8_char_def)

lemma dumps_str_plain: "plain s \<Longrightarrow> dumps_str s = utf8_bytes (escape_string s)"
proof -
  assume p: "plain s"
  then have "concat (map dumps_char s) = s" by (induction s) (auto simp: plain_def dumps_char_def)
  moreover have "list_all (\<lambda>c. c < 128) ([34] @ s @ [34])" using p by (auto simp: plain_def list_all_iff)
  ultimately show ?thesis using utf8_plain by (simp add: dumps_str_def escape_plain [OF p] utf8_char_def)
qed

lemma plain_cursor: "plain (encode_cursor i)"
  by (auto simp: plain_def encode_cursor_def b64_char_def list_all_iff)

lemma utf8_join: "utf8_bytes (join sep ts) = join (utf8_bytes sep) (map utf8_bytes ts)"
  by (induction sep ts rule: join.induct) simp_all

definition next_value :: "pystr option \<Rightarrow> pyval" where
  "next_value nxt = (case nxt of None \<Rightarrow> PNone | Some c \<Rightarrow> PStr c)"

lemma prints_parsed: "prints v t \<Longrightarrow> str_ok t \<Longrightarrow> parse_utf8 (utf8_bytes t) = Inr v"
proof -
  assume t: "prints v t" "str_ok t"
  have "jval (t @ []) v []" using t(1) unfolding prints_def by (metis num_stop_def)
  then have "jdoc t v" by (auto simp: jdoc_def ws_def)
  then show ?thesis using parse_utf8_iff [OF t(2)] by blast
qed

lemma list_body_parsed:
  assumes ts: "list_all2 prints vs ts" "list_all str_ok ts" and nxt: "case nxt of None \<Rightarrow> True | Some c \<Rightarrow> plain c"
  shows "parse_utf8 (list_body (bracketed (map utf8_bytes ts)) nxt) =
    Inr (PDict [(lit ''items'', PList vs), (lit ''next'', next_value nxt)])"
proof -
  define t2 where "t2 = (case nxt of None \<Rightarrow> lit ''null'' | Some c \<Rightarrow> escape_string c)"
  have t2: "prints (next_value nxt) t2" "str_ok t2"
    using nxt prints_literal(1) prints_string plain_ok escape_string_ok str_ok_lit [of "''null''"]
    by (auto simp: t2_def next_value_def split: option.splits)
  have b2: "(case nxt of None \<Rightarrow> asc ''null'' | Some t \<Rightarrow> dumps_str t) = utf8_bytes t2"
    using nxt dumps_str_plain by (auto simp: t2_def asc_def lit_def utf8_char_def split: option.splits)
  let ?l = "91 # join [44] ts @ [93]"
  let ?xs = "[escape_string (lit ''items'') @ [58] @ ?l, escape_string (lit ''next'') @ [58] @ t2]"
  have keys: "str_ok (lit ''items'')" "str_ok (lit ''next'')" by (rule str_ok_lit, simp)+
  have "list_all2 prints_member [(lit ''items'', PList vs), (lit ''next'', next_value nxt)] ?xs"
    using prints_list [OF ts(1)] t2(1) keys by (auto simp: prints_member_def)
  then have p: "prints (PDict [(lit ''items'', PList vs), (lit ''next'', next_value nxt)]) (123 # join [44] ?xs @ [125])"
    by (rule prints_dict) simp
  have ok: "str_ok (123 # join [44] ?xs @ [125])"
    using keys escape_string_ok str_ok_join [OF ts(2)] t2(2) by (auto simp: ascii_char_ok)
  have "utf8_bytes (123 # join [44] ?xs @ [125]) = list_body (bracketed (map utf8_bytes ts)) nxt"
    unfolding list_body_def b2 bracketed_def
    by (simp add: utf8_join asc_def lit_def escape_string_def escape_char_def utf8_char_def)
  then show ?thesis using prints_parsed [OF p ok] by simp
qed


section \<open>What the clients read from it\<close>

lemma floats_eq:
  "floats w = PDict o' \<longleftrightarrow> (\<exists>e. w = PDict e \<and> floats_obj e = o')"
  "floats w = PList vs \<longleftrightarrow> (\<exists>ws. w = PList ws \<and> map floats ws = vs)"
  "floats w = PStr s \<longleftrightarrow> w = PStr s" "floats w = PNone \<longleftrightarrow> w = PNone"
  by (cases w; auto split: sum.splits)+

lemma floats_next: "floats w = next_value nxt \<longleftrightarrow> w = next_value nxt"
  by (cases nxt) (simp_all add: next_value_def floats_eq)

text \<open>A stored envelope is the canonical text of a valid object.\<close>

lemma row_text:
  assumes "row_ok r"
  shows "\<exists>t d info. envelope r = utf8_bytes t \<and> str_ok t \<and> prints (PDict d) t \<and> json_val (PDict d) \<and>
    validate_object d = Inr info \<and> validate_bytes (envelope r) = Inr info \<and> vid info = rid r"
proof -
  obtain d info where d: "parse_object (envelope r) = Inr d" "canonicalize_bytes (PDict d) = Inr (envelope r)"
      "validate_bytes (envelope r) = Inr info" "vid info = rid r"
    using assms by (auto simp: row_ok_def)
  note j = parse_object_json [OF d(1)]
  obtain t where t: "jcs_ref (PDict d) = Inr t" "prints (norm (PDict d)) t" using jcs_ref_prints [OF j] by blast
  have ok: "str_ok t" by (rule jcs_ref_chars [OF j t(1)])
  have e: "envelope r = utf8_bytes t"
    using d(2) t(1) by (simp add: canonicalize_bytes_def canonicalize_eq_ref utf8_encode_def split: if_splits)
  have "parse_utf8 (envelope r) = Inr (norm (PDict d))" using prints_parsed [OF t(2) ok] by (simp add: e)
  then have n: "norm (PDict d) = PDict d" using d(1) by (simp add: parse_object_iff del: norm.simps)
  have "validate_object d = Inr info" using d(1,3) by (simp add: validate_bytes_def)
  then show ?thesis using e ok t(2) j d(3,4) unfolding n by blast
qed

lemma recheck_parsed:
  assumes "floats_obj e = d" "json_val (PDict d)" "validate_object d = Inr info"
  shows "\<exists>raw. recheck e = Inr (raw, vid info) \<and> parse_utf8 raw = Inr (PDict d) \<and> validate_bytes raw = Inr info"
proof -
  obtain raw where raw: "dumps_bytes (PDict e) = Inr raw" "parse_utf8 raw = Inr (PDict d)"
    using dumps_reads_back [of "PDict e"] assms(1,2) by auto
  have "parse_object raw = Inr d" using raw(2) by (simp add: parse_object_iff)
  then have "validate_bytes raw = Inr info" using assms(3) by (simp add: validate_bytes_def)
  then show ?thesis using raw by (simp add: recheck_def)
qed

lemma fetch_page_rows: "fetch_page ps after rows = Inr (xs, nxt) \<Longrightarrow> set xs \<subseteq> snd ` set rows \<and> (nxt = None \<or> (\<exists>i. nxt = Some (encode_cursor i)))"
  by (force simp: fetch_page_def select_after_def paginate_def Let_def res_simps split: if_splits dest!: in_set_takeD)

text \<open>\<open>read_as e b\<close>: \<open>e\<close> is what the library makes of the stored envelope \<open>b\<close>, numbers apart.\<close>

definition read_as :: "obj \<Rightarrow> bytes \<Rightarrow> bool" where
  "read_as e b = (\<exists>d info. parse_object b = Inr d \<and> json_val (PDict d) \<and> floats_obj e = d \<and>
     validate_object d = Inr info \<and> validate_bytes b = Inr info)"

lemma read_as_rechecks:
  assumes "read_as e b"
  shows "\<exists>raw info. validate_bytes b = Inr info \<and> recheck e = Inr (raw, vid info) \<and> validate_bytes raw = Inr info"
  using assms recheck_parsed unfolding read_as_def by blast

text \<open>A page of envelopes is a JSON text; the library reads it item by item.\<close>

definition holds_envelope :: "obj \<Rightarrow> bytes \<Rightarrow> bool" where
  "holds_envelope d b = (parse_object b = Inr d \<and> json_val (PDict d) \<and>
     (\<exists>info. validate_object d = Inr info \<and> validate_bytes b = Inr info))"

lemma listing_parsed:
  assumes rows: "\<forall>b\<in>set blobs. \<exists>r. row_ok r \<and> b = envelope r" and nxt: "case nxt of None \<Rightarrow> True | Some c \<Rightarrow> plain c"
  shows "\<exists>ds. parse_utf8 (list_body (bracketed blobs) nxt) =
      Inr (PDict [(lit ''items'', PList (map PDict ds)), (lit ''next'', next_value nxt)]) \<and> list_all2 holds_envelope ds blobs"
proof -
  have "\<forall>b\<in>set blobs. \<exists>p. b = utf8_bytes (fst p) \<and> str_ok (fst p) \<and> prints (PDict (snd p)) (fst p) \<and> holds_envelope (snd p) b"
  proof
    fix b assume "b \<in> set blobs"
    then obtain r where "row_ok r" "b = envelope r" using rows by blast
    then obtain t d where t: "b = utf8_bytes t" "str_ok t" "prints (PDict d) t" "json_val (PDict d)"
        "\<exists>info. validate_object d = Inr info \<and> validate_bytes b = Inr info" using row_text by blast
    then have "parse_object b = Inr d" using prints_parsed [of "PDict d" t] by (simp add: parse_object_iff)
    then show "\<exists>p. b = utf8_bytes (fst p) \<and> str_ok (fst p) \<and> prints (PDict (snd p)) (fst p) \<and> holds_envelope (snd p) b"
      using t by (intro exI [of _ "(t, d)"]) (simp add: holds_envelope_def)
  qed
  then obtain f where f: "\<And>b. b \<in> set blobs \<Longrightarrow> b = utf8_bytes (fst (f b)) \<and> str_ok (fst (f b)) \<and>
      prints (PDict (snd (f b))) (fst (f b)) \<and> holds_envelope (snd (f b)) b" by metis
  let ?ts = "map (\<lambda>b. fst (f b)) blobs" and ?ds = "map (\<lambda>b. snd (f b)) blobs"
  have ts: "list_all2 prints (map PDict ?ds) ?ts" "list_all str_ok ?ts" "map utf8_bytes ?ts = blobs"
    using f by (auto simp: list_all2_map1 list_all2_map2 list_all2_same list_all_iff o_def intro!: map_idI)
  have "list_all2 holds_envelope ?ds blobs" using f by (simp add: list_all2_map1 list_all2_same)
  then show ?thesis using list_body_parsed [OF ts(1,2) nxt] unfolding ts(3) by blast
qed

lemma floats_objects: "map floats vs = map PDict ds \<Longrightarrow> \<exists>es. vs = map PDict es \<and> map floats_obj es = ds"
proof (induction ds arbitrary: vs)
  case (Cons d ds)
  then obtain v us where v: "vs = v # us" "floats v = PDict d" "map floats us = map PDict ds" by auto
  obtain e where e: "v = PDict e" "floats_obj e = d" using v(2) by (auto simp: floats_eq)
  obtain es where es: "us = map PDict es" "map floats_obj es = ds" using Cons.IH [OF v(3)] by blast
  show ?case using v(1) e es by (intro exI [of _ "e # es"]) simp
qed simp

lemma listing_reads:
  assumes "\<forall>b\<in>set blobs. \<exists>r. row_ok r \<and> b = envelope r" "case nxt of None \<Rightarrow> True | Some c \<Rightarrow> plain c"
  shows "\<exists>envs. loads_bytes (list_body (bracketed blobs) nxt) =
      Inr (PDict [(lit ''items'', PList (map PDict envs)), (lit ''next'', next_value nxt)]) \<and> list_all2 read_as envs blobs"
proof -
  obtain ds where ds: "parse_utf8 (list_body (bracketed blobs) nxt) =
      Inr (PDict [(lit ''items'', PList (map PDict ds)), (lit ''next'', next_value nxt)])" "list_all2 holds_envelope ds blobs"
    using listing_parsed [OF assms] by blast
  obtain w where w: "loads_bytes (list_body (bracketed blobs) nxt) = Inr w"
      "floats w = PDict [(lit ''items'', PList (map PDict ds)), (lit ''next'', next_value nxt)]"
    using loads_parsed [OF ds(1)] by blast
  obtain vs where vs: "w = PDict [(lit ''items'', PList vs), (lit ''next'', next_value nxt)]" "map floats vs = map PDict ds"
    using w(2) by (auto simp: floats_eq floats_next map_eq_Cons_conv)
  obtain envs where envs: "vs = map PDict envs" "map floats_obj envs = ds" using floats_objects [OF vs(2)] by blast
  have "list_all2 read_as envs blobs"
    using ds(2) unfolding envs(2) [symmetric] list_all2_map1
    by (rule list_all2_mono) (auto simp: holds_envelope_def read_as_def)
  then show ?thesis using w(1) vs(1) envs(1) by blast
qed

lemma listing_read:
  assumes "\<forall>b\<in>set blobs. \<exists>r. row_ok r \<and> b = envelope r" "case nxt of None \<Rightarrow> True | Some c \<Rightarrow> plain c"
  shows "\<exists>envs. loads_bytes (list_body (bracketed blobs) nxt) =
      Inr (PDict [(lit ''items'', PList (map PDict envs)), (lit ''next'', next_value nxt)]) \<and>
    list_all2 (\<lambda>env b. \<exists>raw info. validate_bytes b = Inr info \<and> recheck env = Inr (raw, vid info) \<and> validate_bytes raw = Inr info) envs blobs"
proof -
  obtain envs where e: "loads_bytes (list_body (bracketed blobs) nxt) =
      Inr (PDict [(lit ''items'', PList (map PDict envs)), (lit ''next'', next_value nxt)])" "list_all2 read_as envs blobs"
    using listing_reads [OF assms] by blast
  show ?thesis by (rule exI [of _ envs], rule conjI [OF e(1) list_all2_mono [OF e(2)]]) (rule read_as_rechecks)
qed

text \<open>What a page of a channel or an object holds.\<close>

lemma page_rows:
  assumes "relay_reach cfg st" "channel_assertions hex after st = Inr (blobs, nxt) \<or> object_assertions hex after st = Inr (blobs, nxt)"
  shows "\<forall>b\<in>set blobs. \<exists>r. row_ok r \<and> b = envelope r" "nxt = None \<or> (\<exists>i. nxt = Some (encode_cursor i))"
proof -
  have p: "set blobs \<subseteq> envelope ` set (assertions st) \<and> (nxt = None \<or> (\<exists>i. nxt = Some (encode_cursor i)))"
    using assms(2) fetch_page_rows unfolding channel_assertions_def object_assertions_def
    by (fastforce simp: channel_rows_def object_rows_def)
  then show "\<forall>b\<in>set blobs. \<exists>r. row_ok r \<and> b = envelope r" using relay_reach_ok [OF assms(1)] by blast
  show "nxt = None \<or> (\<exists>i. nxt = Some (encode_cursor i))" using p by blast
qed

lemma plain_next: "nxt = None \<or> (\<exists>i. nxt = Some (encode_cursor i)) \<Longrightarrow> case nxt of None \<Rightarrow> True | Some c \<Rightarrow> plain c"
  using plain_cursor by auto

section \<open>Property\<close>

text \<open>Every page of a channel or object listing that a durable relay serves is read by the sync worker as a list
  of envelopes and a next cursor, and each of them passes the worker's independent validation under
  the identifier the stored envelope has.\<close>
theorem served_listing_passes_recheck:
  assumes "relay_reach cfg st"
    and "channel_assertions hex after st = Inr (blobs, nxt) \<or> object_assertions hex after st = Inr (blobs, nxt)"
  shows "\<exists>envs. loads_bytes (list_body (bracketed blobs) nxt) =
      Inr (PDict [(lit ''items'', PList (map PDict envs)), (lit ''next'', next_value nxt)]) \<and>
    list_all2 (\<lambda>env b. \<exists>raw info. validate_bytes b = Inr info \<and> recheck env = Inr (raw, vid info) \<and> validate_bytes raw = Inr info) envs blobs"
  by (rule listing_read [OF page_rows(1) [OF assms] plain_next [OF page_rows(2) [OF assms]]])

theorem served_listing_passes_recheck_witness:
  "loads_bytes (list_body (bracketed []) None) = Inr (PDict [(lit ''items'', PList []), (lit ''next'', PNone)])"
  using served_listing_passes_recheck [OF reach_sample, of "[]" 0 "[]" None]
  by (auto simp: channel_assertions_def channel_rows_def new_store_def fetch_page_def select_after_def paginate_def next_value_def)

end
