(* ===== verification/Suite_Facts.thy ===== *)
theory Suite_Facts
  imports Suite Federation
begin

text \<open>
  What a run of the conformance suite shows: on full assertions the runner's verdict is the comparison
  of the validator's verdict with the expectation of the case. The classes \<^verbatim>\<open>jcs\<close>, \<^verbatim>\<open>json-input\<close> and
  \<^verbatim>\<open>schema\<close> look at less of the expectation.
\<close>

section \<open>Full assertions\<close>

text \<open>The members a case may pin, and that the report agrees with those it does.\<close>

definition report_fields :: "vinfo \<Rightarrow> (string \<times> pyval) list" where
  "report_fields info =
     [(''id'', PStr (vid info)), (''units'', PInt (int (vunits info))), (''target_hex'', PStr (vtarget_hex info)),
      (''jcs'', PStr (vjcs info)), (''sig'', PStr (vsig info))]"

definition report_agrees :: "obj \<Rightarrow> vinfo \<Rightarrow> bool" where
  "report_agrees want info =
     list_all (\<lambda>(k, x). case dget want (lit k) of None \<Rightarrow> True | Some v \<Rightarrow> py_same x v) (report_fields info)"

text \<open>The validator's verdict on the bytes is the one the case expects.\<close>

definition verdict_holds :: "pyval \<Rightarrow> obj \<Rightarrow> pyval list \<Rightarrow> bytes \<Rightarrow> bool" where
  "verdict_holds expect want reasons b = (case validate_bytes b of
       Inr info \<Rightarrow> expected ''valid'' expect \<and> report_agrees want info
     | Inl (UnsupportedError stage reason) \<Rightarrow> as_expected ''unsupported'' expect reasons reason
     | Inl (SppError stage reason) \<Rightarrow> as_expected ''invalid'' expect reasons reason
     | Inl e \<Rightarrow> False)"

text \<open>A case of that class with all its members, and whether it holds.\<close>

definition assertion_case :: "pyval \<Rightarrow> bool" where
  "assertion_case c =
     (case bindr (subscript c ''id'') (\<lambda>_. bindr (subscript c ''expect'') (\<lambda>_. bindr (bindr (subscript c ''input'') item_bytes) (\<lambda>_.
        bindr (case_want c) case_reasons))) of Inl e \<Rightarrow> False | Inr r \<Rightarrow> subscript c ''class'' = Inr (PStr (lit ''full-assertion'')))"

definition case_holds :: "pyval \<Rightarrow> bool" where
  "case_holds c =
     (case bindr (subscript c ''expect'') (\<lambda>expect. bindr (bindr (subscript c ''input'') item_bytes) (\<lambda>b.
        bindr (case_want c) (\<lambda>want. bindr (case_reasons want) (\<lambda>reasons. Inr (verdict_holds expect want reasons b))))) of
        Inl e \<Rightarrow> False | Inr r \<Rightarrow> r)"

lemma find_mismatch:
  "find (\<lambda>(k, x). case dget want (lit k) of None \<Rightarrow> False | Some v \<Rightarrow> \<not> py_same x v) (report_fields info) = None
     \<longleftrightarrow> report_agrees want info"
  by (auto simp: find_None_iff report_agrees_def list_all_iff split: option.splits)

lemma settle_assertion:
  assumes "item_bytes inp = Inr b"
  shows "\<exists>r. settle expect reasons (full_assertion_case expect inp want) = Inr r \<and> (r = Pass \<longleftrightarrow> verdict_holds expect want reasons b)"
proof (cases "validate_bytes b")
  case (Inl e)
  then have "spp_error e" using spp_only_validate_bytes [of b] by (simp add: spp_only_def)
  then show ?thesis using assms Inl by (auto simp: spp_error_def full_assertion_case_def settle_def verdict_holds_def)
next
  case (Inr info)
  have "full_assertion_case expect inp want =
      (if \<not> expected ''valid'' expect then Inr (Fail [Txt ''expected '', Val expect, Txt '', got valid''])
       else case find (\<lambda>(k, x). case dget want (lit k) of None \<Rightarrow> False | Some v \<Rightarrow> \<not> py_same x v) (report_fields info) of
           Some (k, x) \<Rightarrow> Inr (Fail [Txt (k @ '' mismatch'')]) | None \<Rightarrow> Inr Pass)"
    using assms Inr by (simp add: full_assertion_case_def report_fields_def Let_def)
  then show ?thesis using Inr find_mismatch [of want info]
    by (cases "find (\<lambda>(k, x). case dget want (lit k) of None \<Rightarrow> False | Some v \<Rightarrow> \<not> py_same x v) (report_fields info)")
       (auto simp: verdict_holds_def settle_def)
qed

lemma run_assertion_case:
  assumes "assertion_case c"
  shows "\<exists>msg. run_case printable c = Inr (case_holds c, msg)"
proof -
  obtain cid expect inp b want reasons where c: "subscript c ''id'' = Inr cid" "subscript c ''expect'' = Inr expect"
      "subscript c ''input'' = Inr inp" "item_bytes inp = Inr b" "case_want c = Inr want" "case_reasons want = Inr reasons"
      "subscript c ''class'' = Inr (PStr (lit ''full-assertion''))"
    using assms by (auto simp: assertion_case_def res_simps split: sum.splits)
  obtain r where "settle expect reasons (full_assertion_case expect inp want) = Inr r" "r = Pass \<longleftrightarrow> verdict_holds expect want reasons b"
    using settle_assertion [OF c(4)] by blast
  then show ?thesis using c by (cases r) (simp_all add: run_case_def judge_case_def case_holds_def case_line_def)
qed

section \<open>The other classes\<close>

text \<open>A case of class \<^verbatim>\<open>jcs\<close> that pins nothing passes as soon as its text parses, whatever it expects.\<close>

lemma jcs_case_ignores_expect:
  assumes "subscript c ''id'' = Inr cid" "subscript c ''class'' = Inr (PStr (lit ''jcs''))" "subscript c ''expect'' = Inr expect"
    "subscript c ''input'' = Inr inp" "case_want c = Inr []" "item_bytes inp = Inr b" "parse_utf8 b = Inr v"
  shows "run_case printable c = Inr (True, [Val cid, Txt '' PASS''])"
proof -
  have "canonicalize_bytes v = Inr (canon_bytes v)" by (rule canonicalize_bytes_eq [OF parse_utf8_json [OF assms(7)]])
  then show ?thesis using assms
    by (simp add: run_case_def judge_case_def jcs_case_def case_reasons_def get_or_def dhas_def settle_def case_line_def)
qed

text \<open>A case of class \<^verbatim>\<open>json-input\<close> that is accepted passes unless it expects \<^verbatim>\<open>"invalid"\<close>.\<close>

lemma accepted_json_input_passes:
  assumes "item_bytes inp = Inr b" "parse_utf8 b = Inr v"
  shows "settle expect reasons (json_input_case expect inp) = Inr Pass \<longleftrightarrow> \<not> expected ''invalid'' expect"
  using assms by (simp add: json_input_case_def settle_def)

section \<open>Whole suites\<close>

lemma print_each_ok:
  assumes "\<And>x. x \<in> set xs \<Longrightarrow> \<exists>m. f x = Inr (g x, m)"
  shows "\<exists>rs. print_each f xs = (rs, Inr ()) \<and> map fst rs = map g xs"
  using assms
proof (induction xs)
  case (Cons x xs)
  then obtain m rs where "f x = Inr (g x, m)" "print_each f xs = (rs, Inr ())" "map fst rs = map g xs" by fastforce
  then show ?case by simp
qed simp

text \<open>C36: run on a suite of full assertions, the command prints a line for each case and a closing line, never raises,
  and exits with 0 exactly when for every case the validator's verdict on its bytes is the expected one:
  valid with the pinned report members, or refused in the expected way for one of the reasons named.\<close>
theorem suite_run_is_verdict:
  assumes "loads_bytes content = Inr (PDict d)" "dget d (lit ''cases'') = Some (PList cs)" "list_all assertion_case cs"
  shows "\<exists>ls. run_suite printable content = (ls, Inr (if list_all case_holds cs then 0 else 1)) \<and> length ls = length cs + 1"
proof -
  have "\<exists>rs. print_each (run_case printable) cs = (rs, Inr ()) \<and> map fst rs = map case_holds cs"
    by (rule print_each_ok) (use assms(3) run_assertion_case in \<open>auto simp: list_all_iff\<close>)
  then obtain rs where rs: "print_each (run_case printable) cs = (rs, Inr ())" "map fst rs = map case_holds cs" by blast
  have "length (filter (\<lambda>r. \<not> fst r) rs) = 0 \<longleftrightarrow> list_all (\<lambda>b. b) (map fst rs)" by (auto simp: filter_empty_conv list_all_iff)
  then have f: "length (filter (\<lambda>r. \<not> fst r) rs) = 0 \<longleftrightarrow> list_all case_holds cs" by (simp add: rs(2) list_all_iff)
  have l: "length rs = length cs" using arg_cong [OF rs(2), of length] by simp
  show ?thesis using assms(1,2) f l by (simp add: run_suite_def getitem_def subscript_def py_iter_def rs(1) Let_def)
qed

definition sample_case :: pyval where
  "sample_case = PDict [(lit ''class'', PStr (lit ''full-assertion'')), (lit ''expect'', PStr (lit ''invalid'')),
     (lit ''id'', PStr (lit ''empty'')), (lit ''input'', PDict [(lit ''utf8'', PStr [])])]"

definition sample_suite :: pyval where
  "sample_suite = PDict [(lit ''cases'', PList [sample_case])]"

lemma sample_suite_json: "json_val sample_suite" "norm sample_suite = sample_suite"
  by (simp_all add: sample_suite_def sample_case_def lit_def ascii_char_ok utf16be_def utf16_units_def be16_def)

lemma sample_suite_loads: "loads_bytes (canon_bytes sample_suite) = Inr sample_suite"
proof -
  have "parse_utf8 (canon_bytes sample_suite) = Inr sample_suite"
    using parse_canonical [OF sample_suite_json(1)] sample_suite_json by (simp add: canonicalize_bytes_eq)
  then obtain w where "loads_bytes (canon_bytes sample_suite) = Inr w" "floats w = sample_suite" using loads_parsed by blast
  moreover from this(2) have "w = sample_suite"
    by (auto simp: sample_suite_def sample_case_def floats_eq map_eq_Cons_conv)
  ultimately show ?thesis by simp
qed

lemma sample_case_holds: "assertion_case sample_case" "case_holds sample_case"
proof -
  have "parse_object [] = Inl (JsonInputError ''invalid-json'')" by code_simp
  then have "validate_bytes [] = Inl (SppError ''json-input'' ''invalid-json'')" by (simp add: validate_bytes_def)
  then show "assertion_case sample_case" "case_holds sample_case"
    by (simp_all add: sample_case_def assertion_case_def case_holds_def subscript_def getitem_def item_bytes_def utf8_encode_def
        case_want_def case_reasons_def get_or_def verdict_holds_def as_expected_def expected_def)
qed

theorem suite_run_is_verdict_witness:
  "\<exists>ls. run_suite (\<lambda>c. False) (canon_bytes sample_suite) = (ls, Inr 0) \<and> length ls = Suc 1"
  using suite_run_is_verdict [of "canon_bytes sample_suite" "[(lit ''cases'', PList [sample_case])]" "[sample_case]" "\<lambda>c. False"]
    sample_suite_loads sample_case_holds by (simp add: sample_suite_def)

end
