(* ===== verification/Http_Send.thy ===== *)
theory Http_Send
  imports Federation
begin

text \<open>
  \<^verbatim>\<open>_send\<close> of the two relays: a reply as it goes to the socket. A value is written with \<^verbatim>\<open>json.dumps\<close> and its
  defaults, whose text the protocol's parser reads as the value again.
\<close>

section \<open>Text in ASCII\<close>

lemma hex4_fmt:
  assumes "u < 65536"
  shows "length (fmt_hex 4 u) = 4" "hex4 (fmt_hex 4 u @ r) = Inr u"
proof -
  have "length (to_digits 16 u) \<le> 4" using assms by (intro length_to_digits_le) simp_all
  then show l: "length (fmt_hex 4 u) = 4" by (simp add: fmt_hex_def Let_def)
  have "list_all (\<lambda>d. d < 16) (to_digits 16 u)" by (rule to_digits_less) simp
  then have "list_all is_hex (fmt_hex 4 u)" by (auto simp: fmt_hex_def Let_def list_all_iff)
  then show "hex4 (fmt_hex 4 u @ r) = Inr u" using l by (simp add: hex4_def nat_of_fmt_hex)
qed

lemma dumps_char_read:
  assumes "scalar c"
  shows "string_loop acc (dumps_char c @ r) = string_loop (acc @ [c]) r"
proof -
  consider (a) "c \<in> {34, 92, 8, 12, 10, 13, 9}" | (b) "32 \<le> c \<and> c \<le> 126" "c \<notin> {34, 92}"
    | (u) "c \<notin> {34, 92, 8, 12, 10, 13, 9}" "\<not> (32 \<le> c \<and> c \<le> 126)" "c < 0x10000"
    | (p) "0x10000 \<le> c" by fastforce
  then show ?thesis
  proof cases
    case u
    then have ns: "\<not> (0xD800 \<le> c \<and> c \<le> 0xDFFF)" using assms by (auto simp: scalar_def is_surrogate_def)
    have "unescape (ch CHR ''u'' # fmt_hex 4 c @ r) = Inr ([c], r)"
      using hex4_fmt [of c] u(3) ns by (auto simp: unescape_def unescape_u_def Let_def)
    then show ?thesis using u by (simp add: dumps_char_def utf16_units_def)
  next
    case p
    let ?v = "c - 0x10000"
    let ?hi = "0xD800 + ?v div 1024" and ?lo = "0xDC00 + ?v mod 1024"
    have c: "c \<le> 0x10FFFF" using assms by (simp add: scalar_def)
    have hi: "0xD800 \<le> ?hi" "?hi \<le> 0xDBFF" using p c by auto
    have lo: "0xDC00 \<le> ?lo" "?lo \<le> 0xDFFF" by auto
    have eq: "0x10000 + (?hi - 0xD800) * 1024 + (?lo - 0xDC00) = c" using p by (simp add: div_mult_mod_eq)
    have "unescape (ch CHR ''u'' # fmt_hex 4 ?hi @ [92, ch CHR ''u''] @ fmt_hex 4 ?lo @ r) = Inr ([c], r)"
      using hex4_fmt [of ?hi] hex4_fmt [of ?lo] hi lo eq by (simp add: unescape_def unescape_u_def Let_def lit_def)
    moreover have "utf16_units c = [?hi, ?lo]" using p by (simp add: utf16_units_def)
    ultimately show ?thesis using p by (simp add: dumps_char_def)
  qed (auto simp: dumps_char_def unescape_def)
qed

lemma ascii_string_read: "str_ok s \<Longrightarrow> string_tok (ascii_string s @ r) = Inr (s, r)"
proof -
  assume s: "str_ok s"
  have "list_all scalar s \<Longrightarrow> string_loop acc (concat (map dumps_char s) @ r) = string_loop (acc @ s) r" for acc r
    by (induction s arbitrary: acc) (simp_all add: dumps_char_read)
  then show ?thesis using s by (simp add: ascii_string_def string_tok_def str_ok_scalar check_scalars_ok)
qed

lemma dumps_char_ascii: "scalar c \<Longrightarrow> list_all (\<lambda>x. x < 128) (dumps_char c)"
proof -
  have h: "list_all (\<lambda>x. x < 128) (fmt_hex w u)" for w u
  proof -
    have "list_all (\<lambda>d. d < 16) (to_digits 16 u)" by (rule to_digits_less) simp
    then show ?thesis by (auto simp: fmt_hex_def Let_def list_all_iff dig_char_def)
  qed
  show ?thesis using h by (auto simp: dumps_char_def list_all_iff)
qed

lemma ascii_string_ok: "str_ok s \<Longrightarrow> str_ok (ascii_string s)"
proof -
  assume "str_ok s"
  then have "list_all scalar s" by (rule str_ok_scalar)
  then have "list_all (\<lambda>x. x < 128) (ascii_string s)"
    using dumps_char_ascii by (auto simp: ascii_string_def list_all_iff)
  then show ?thesis using ascii_char_ok by (auto simp: list_all_iff)
qed

interpretation default_text: library_writer ascii_string "[32]"
proof unfold_locales
  show "str_ok s \<Longrightarrow> string_tok (ascii_string s @ r) = Inr (s, r)" for s r by (rule ascii_string_read)
  show "\<exists>q. ascii_string s = 34 # q" for s by (simp add: ascii_string_def)
  show "str_ok s \<Longrightarrow> str_ok (ascii_string s)" for s by (rule ascii_string_ok)
qed (simp add: is_ws_def)

section \<open>Sending\<close>

definition relay_send :: "reply \<Rightarrow> exn + http_reply" where
  "relay_send r =
     bindr (case body r of BBytes b \<Rightarrow> Inr b | BJson v \<Rightarrow> bindr (dumps_ascii v) utf8_encode) (\<lambda>data.
       Inr \<lparr>rp_status = status r, rp_type = ''application/json'', rp_length = str_nat (length data), rp_body = data\<rparr>)"

lemma relay_send_bytes: "relay_send (send c (BBytes b)) =
    Inr \<lparr>rp_status = c, rp_type = ''application/json'', rp_length = str_nat (length b), rp_body = b\<rparr>"
  by (simp add: relay_send_def send_def)

text \<open>A reply that holds a JSON value, and what is sent for it.\<close>

definition carries :: "reply \<Rightarrow> pyval \<Rightarrow> bool" where
  "carries r v = (case body r of BBytes b \<Rightarrow> parse_utf8 b = Inr v | BJson w \<Rightarrow> json_val (floats w) \<and> floats w = v)"

definition sent_as :: "reply \<Rightarrow> pyval \<Rightarrow> http_reply \<Rightarrow> bool" where
  "sent_as r v h = (relay_send r = Inr h \<and> rp_status h = status r \<and> rp_type h = ''application/json'' \<and>
     rp_length h = str_nat (length (rp_body h)) \<and> parse_utf8 (rp_body h) = Inr v)"

lemma carried_sent: "carries r v \<Longrightarrow> \<exists>h. sent_as r v h"
proof (cases "body r")
  case (BJson w)
  assume "carries r v"
  then have w: "json_val (floats w) \<and> floats w = v" unfolding carries_def BJson rbody.case .
  then obtain t where "dumps_ascii w = Inr t" "prints v t" "str_ok t" using default_text.text_prints [of w] by blast
  then show ?thesis
    using BJson prints_parsed [of v t] str_ok_scalar [of t] by (simp add: sent_as_def relay_send_def utf8_encode_def)
qed (simp add: carries_def sent_as_def relay_send_def)

text \<open>Error replies hold their token and message.\<close>

definition error_value :: "pystr \<Rightarrow> pystr \<Rightarrow> pyval" where
  "error_value t m = PDict [(lit ''error'', PStr t), (lit ''message'', PStr m)]"

lemma str_ok_any_lit [simp]: "str_ok (lit s)"
proof -
  have "char_ok n" if "n < 256" for n using that by (auto simp: char_ok_def scalar_def is_surrogate_def noncharacter_def)
  then have "char_ok (of_char c)" for c by (simp add: nat_of_char_less_256)
  then show ?thesis by (simp add: lit_def list_all_iff)
qed

lemma reply_keys [simp]: "lit ''error'' \<noteq> lit ''message''" "lit ''id'' \<noteq> lit ''duplicate''"
  by (simp_all add: lit_def)

lemma carries_err: "carries (err code t m) (error_value (lit t) (lit m))"
  by (simp add: carries_def err_def send_def error_value_def)

lemma carries_admitted: "str_ok i \<Longrightarrow> carries (send 200 (BJson (PDict [(lit ''id'', PStr i), (lit ''duplicate'', PBool b)])))
    (PDict [(lit ''id'', PStr i), (lit ''duplicate'', PBool b)])"
  by (simp add: carries_def send_def)

lemma refusal_sent: "refusal (Replied r) \<Longrightarrow> \<exists>t m. carries r (error_value (lit t) (lit m))"
  using carries_err unfolding refusal_def by blast

lemma post_carries:
  assumes "1 \<le> pow_multiplier cfg" "snd (do_POST cfg n t req st) = Replied r"
  shows "(status r \<in> {400, 403, 404} \<and> (\<exists>t m. carries r (error_value (lit t) (lit m)))) \<or>
    (\<exists>i b. status r = 200 \<and> carries r (PDict [(lit ''id'', PStr i), (lit ''duplicate'', PBool b)]))"
proof (cases "admit cfg req")
  case (Inl out)
  then have "refusal (Replied r)" using assms admit_refuses [OF assms(1), of req] by (simp add: do_POST_def refuses_def)
  then show ?thesis using refusal_sent [of r] refusal_status [of "Replied r"] by blast
next
  case (Inr a)
  then obtain d where "valid_envelope d (a_info a)" using admit_Inr [OF Inr] validate_bytes_Inr by metis
  then have "str_ok (vid (a_info a))" by (auto simp: valid_envelope_def assertion_id_hex str_ok_hex)
  moreover obtain b where "r = send 200 (BJson (PDict [(lit ''id'', PStr (vid (a_info a))), (lit ''duplicate'', PBool b)]))"
    using assms(2) Inr by (auto simp: do_POST_def Let_def split: prod.splits)
  ultimately have "status r = 200 \<and> carries r (PDict [(lit ''id'', PStr (vid (a_info a))), (lit ''duplicate'', PBool b)])"
    using carries_admitted by (simp add: send_def)
  then show ?thesis by blast
qed

lemma post_sent:
  assumes "1 \<le> pow_multiplier cfg" "snd (do_POST cfg n t req st) = Replied r"
  shows "\<exists>h. relay_send r = Inr h \<and> rp_status h = status r"
  using post_carries [OF assms] carried_sent unfolding sent_as_def by blast

end
