(* ===== verification/Relay_Sync.thy ===== *)
theory Relay_Sync
  imports Http_Send
begin

text \<open>
  The sync worker between two durable relays. The network is the one where a request to either
  relay's address reaches its handler: the path and the cursor are cut from the target, the headers
  are those the worker sends, row numbers are SQLite's next ones, and the body is what the handler
  writes. What an exception in a handler looks like to the client is an argument.
\<close>

section \<open>Two relays on a network\<close>

record relays =
  source_store :: store
  target_store :: store

definition received :: "pystr \<Rightarrow> http_request \<Rightarrow> request" where
  "received base req =
     (let t = drop (length (relay_url base [])) (hurl req); p = takeWhile (\<lambda>c. c \<noteq> ch CHR ''?'') t; q = drop (length p) t;
          data = (case hdata req of None \<Rightarrow> [] | Some b \<Rightarrow> b)
      in \<lparr>path = p, cursor_query = (if take 8 q = lit ''?cursor='' \<and> drop 8 q \<noteq> [] then Some (drop 8 q) else None),
          content_encoding = None,
          content_type = (if hdata req = None then None else Some (lit ''application/json'')),
          content_length = (if hdata req = None then None else Some (str_nat (length data))), stream = data\<rparr>)"

definition answered :: "http \<Rightarrow> reply \<Rightarrow> http" where
  "answered crashed r =
     (case relay_send r of
         Inl e \<Rightarrow> crashed
       | Inr h \<Rightarrow>
           if rp_status h < 400 then Response (rp_status h) (Inr (rp_body h)) else HTTPError (rp_status h) (Inr (rp_body h)))"

definition handle :: "http \<Rightarrow> int \<Rightarrow> config \<Rightarrow> pystr \<Rightarrow> http_request \<Rightarrow> store \<Rightarrow> http \<times> store" where
  "handle crashed now cfg base req st =
     (if hmethod req = ''GET'' then
        (case do_GET cfg (received base req) st of Inl e \<Rightarrow> (crashed, st) | Inr r \<Rightarrow> (answered crashed r, st))
      else
        (case do_POST cfg (Suc (last_seq st)) now (received base req) st of
           (st', Raised e) \<Rightarrow> (crashed, st') | (st', Replied r) \<Rightarrow> (answered crashed r, st')))"

definition reaches :: "pystr \<Rightarrow> pystr \<Rightarrow> bool" where
  "reaches base url = (take (length (relay_url base (lit ''/''))) url = relay_url base (lit ''/''))"

definition two_relays :: "http \<Rightarrow> int \<Rightarrow> config \<Rightarrow> config \<Rightarrow> pystr \<Rightarrow> pystr \<Rightarrow> relays net" where
  "two_relays crashed now cfgA cfgB a b = \<lparr>urlopen = (\<lambda>req w.
     if reaches a (hurl req) then
       (case handle crashed now cfgA a req (source_store w) of (r, st) \<Rightarrow> (r, w\<lparr>source_store := st\<rparr>))
     else if reaches b (hurl req) then
       (case handle crashed now cfgB b req (target_store w) of (r, st) \<Rightarrow> (r, w\<lparr>target_store := st\<rparr>))
     else (Failed ''URLError'', w))\<rparr>"

section \<open>Reading a listing\<close>

text \<open>
  The interface between a listing and the loop that reads it: a page request for a cursor is answered
  by the page after it, of which the worker keeps what shows the items listed.
\<close>

definition page_url :: "pystr \<Rightarrow> pystr \<Rightarrow> pystr option \<Rightarrow> pystr" where
  "page_url base p c = (case c of None \<Rightarrow> relay_url base p | Some x \<Rightarrow> relay_url base p @ lit ''?cursor='' @ x)"

definition cursor_for :: "pystr option \<Rightarrow> int \<Rightarrow> bool" where
  "cursor_for c after = (case c of None \<Rightarrow> after = 0 | Some x \<Rightarrow> (\<exists>i. x = encode_cursor i) \<and> decode_cursor x = Inr after)"

lemma encoded_not_empty: "encode_cursor i \<noteq> []"
proof -
  have "str_int i \<noteq> []" by (simp add: str_int_def)
  then have "b64_sextets (str_int i) \<noteq> []" by (cases "str_int i" rule: b64_sextets.cases) simp_all
  then show ?thesis by (simp add: encode_cursor_def)
qed

locale served_listing =
  fixes net :: "'w net" and base p :: pystr
    and page :: "int \<Rightarrow> 'w \<Rightarrow> exn + ('b list \<times> pystr option)"
    and inv_of :: "'w \<Rightarrow> bool"
    and keep :: "pyval \<Rightarrow> 'a option" and showing :: "'a \<Rightarrow> 'b \<Rightarrow> bool"
  assumes page_read: "inv_of w \<Longrightarrow> page after w = Inr (items, nxt) \<Longrightarrow> cursor_for c after \<Longrightarrow>
      \<exists>xs. http_get_json net (page_url base p c) w =
          ((200, PDict [(lit ''items'', PList xs), (lit ''next'', next_value nxt)]), w) \<and>
        list_all2 showing (List.map_filter keep xs) items"
    and page_next: "inv_of w \<Longrightarrow> page after w = Inr (items, Some x) \<Longrightarrow> \<exists>i. x = encode_cursor i"
begin

lemma read_listing:
  assumes "inv_of w" "crawl page after (replicate n w) = Some items" "cursor_for c after"
  shows "\<exists>ks. page_loop n net base p keep acc (next_value c) w = (Returned (acc @ ks, []), w) \<and> list_all2 showing ks items"
  using assms(2,3)
proof (induction n arbitrary: after c acc items)
  case (Suc n)
  have url: "with_cursor (relay_url base p) (next_value c) = Inr (page_url base p c)"
    using Suc.prems(2) encoded_not_empty by (cases c) (auto simp: with_cursor_def next_value_def page_url_def cursor_for_def)
  obtain its nxt where pg: "page after w = Inr (its, nxt)" using Suc.prems(1) by (auto split: sum.splits)
  obtain xs where xs: "http_get_json net (page_url base p c) w =
      ((200, PDict [(lit ''items'', PList xs), (lit ''next'', next_value nxt)]), w)" "list_all2 showing (List.map_filter keep xs) its"
    using page_read [OF assms(1) pg Suc.prems(2)] by blast
  show ?case
  proof (cases nxt)
    case None
    then have "items = its" using Suc.prems(1) pg by simp
    moreover have "next_value nxt = PNone" using None by (simp add: next_value_def)
    ultimately show ?thesis using xs by (simp add: url get_or_def py_iter_def)
  next
    case (Some x)
    obtain k more where k: "decode_cursor x = Inr k" "crawl page k (replicate n w) = Some more" "items = its @ more"
      using Suc.prems(1) pg Some by (auto split: sum.splits)
    have enc: "\<exists>i. x = encode_cursor i" using page_next [OF assms(1)] pg Some by blast
    then have ne: "x \<noteq> []" by (auto simp: encoded_not_empty)
    obtain ks where ks: "page_loop n net base p keep (acc @ List.map_filter keep xs) (next_value (Some x)) w =
        (Returned ((acc @ List.map_filter keep xs) @ ks, []), w)" "list_all2 showing ks more"
      using Suc.IH [OF k(2), of "Some x" "acc @ List.map_filter keep xs"] k(1) enc unfolding cursor_for_def by auto
    have "truthy (next_value (Some x))" using ne by (simp add: next_value_def)
    then have "page_loop (Suc n) net base p keep acc (next_value c) w = (Returned (acc @ (List.map_filter keep xs @ ks), []), w)"
      using ks(1) by (simp add: url xs(1) Some get_or_def py_iter_def)
    then show ?thesis using list_all2_appendI [OF xs(2) ks(2)] k(3) by blast
  qed
qed simp

end
section \<open>The listings of a relay\<close>

definition route :: "pystr \<Rightarrow> bool" where
  "route p = (p \<noteq> [] \<and> hd p = 47 \<and> 63 \<notin> set p)"

lemma relay_url_append: "relay_url base p = relay_url base [] @ p"
  by (simp add: relay_url_def)

lemma reaches_route: "route p \<Longrightarrow> reaches base (relay_url base p @ q)"
proof -
  assume "route p"
  then obtain t where p: "p = 47 # t" by (cases p) (auto simp: route_def)
  have "relay_url base (lit ''/'') = relay_url base [] @ [47]" using relay_url_append [of base "lit ''/''"] by (simp add: lit_def)
  moreover have "relay_url base p = relay_url base [] @ 47 # t" using relay_url_append [of base p] by (simp add: p)
  ultimately show "reaches base (relay_url base p @ q)" by (simp add: reaches_def)
qed

lemma takeWhile_route: "route p \<Longrightarrow> takeWhile (\<lambda>c. c \<noteq> 63) (p @ q) = p @ takeWhile (\<lambda>c. c \<noteq> 63) q"
  by (intro takeWhile_append2) (auto simp: route_def)

lemma received_page:
  assumes "route p" "c = None \<or> (\<exists>x. c = Some x \<and> x \<noteq> [])"
  shows "path (received base \<lparr>hmethod = m, hurl = page_url base p c, hdata = d\<rparr>) = p"
    "cursor_query (received base \<lparr>hmethod = m, hurl = page_url base p c, hdata = d\<rparr>) = c"
proof -
  define q where "q = (case c of None \<Rightarrow> [] | Some x \<Rightarrow> lit ''?cursor='' @ x)"
  have u: "drop (length (relay_url base [])) (page_url base p c) = p @ q"
    by (simp add: page_url_def q_def relay_url_append [of base p] split: option.splits)
  have "takeWhile (\<lambda>c. c \<noteq> 63) q = []" by (simp add: q_def lit_def split: option.splits)
  then have t: "takeWhile (\<lambda>c. c \<noteq> 63) (p @ q) = p" using takeWhile_route [OF assms(1)] by simp
  then show "path (received base \<lparr>hmethod = m, hurl = page_url base p c, hdata = d\<rparr>) = p"
    by (simp add: received_def Let_def u)
  have "cursor_query (received base \<lparr>hmethod = m, hurl = page_url base p c, hdata = d\<rparr>) =
      (if take 8 q = lit ''?cursor='' \<and> drop 8 q \<noteq> [] then Some (drop 8 q) else None)"
    by (simp add: received_def Let_def u t del: drop_drop)
  then show "cursor_query (received base \<lparr>hmethod = m, hurl = page_url base p c, hdata = d\<rparr>) = c"
    using assms(2) by (auto simp: q_def lit_def)
qed

text \<open>A page the source serves arrives as it is; reading changes nothing.\<close>

lemma get_served:
  assumes "route p" "c = None \<or> (\<exists>x. c = Some x \<and> x \<noteq> [])"
    "\<And>req. path req = p \<Longrightarrow> cursor_query req = c \<Longrightarrow> do_GET cfgA req (source_store w) = Inr (send 200 (BBytes b))" "loads_bytes b = Inr v"
  shows "http_get_json (two_relays crashed now cfgA cfgB a d) (page_url a p c) w = ((200, v), w)"
proof -
  have "reaches a (page_url a p c)"
    using reaches_route [OF assms(1), of a "[]"] reaches_route [OF assms(1)] by (simp add: page_url_def split: option.splits)
  moreover have "do_GET cfgA (received a \<lparr>hmethod = ''GET'', hurl = page_url a p c, hdata = None\<rparr>) (source_store w) = Inr (send 200 (BBytes b))"
    by (rule assms(3) [OF received_page [OF assms(1,2)]])
  ultimately show ?thesis
    by (simp add: http_get_json_def two_relays_def handle_def answered_def relay_send_bytes read_json_def assms(4))
qed

definition channel_path :: "pystr \<Rightarrow> pystr" where
  "channel_path hex = lit ''/v1/channels/sha256/'' @ hex @ lit ''/assertions''"

lemma hex_no_mark: "hex64_match hex \<Longrightarrow> 63 \<notin> set hex \<and> 47 \<notin> set hex"
  by (auto simp: hex64_match_def list_all_iff is_lower_hex_def is_digit_def)

lemma routes: "hex64_match hex \<Longrightarrow> route (channel_path hex)" "hex64_match hex \<Longrightarrow> route (assertion_path hex)" "route (lit ''/v1/channels'')"
  by (auto dest: hex_no_mark simp: route_def channel_path_def assertion_path_def lit_def)

lemma parts_channel:
  assumes "hex64_match hex"
  shows "split_on 47 (strip_by (\<lambda>c. c = 47) (channel_path hex)) = map lit [''v1'', ''channels'', ''sha256''] @ [hex, lit ''assertions'']"
proof -
  have "strip_by (\<lambda>c. c = 47) (channel_path hex) = lit ''v1/channels/sha256/'' @ hex @ lit ''/assertions''"
    by (simp add: strip_by_def channel_path_def lit_def)
  also have "\<dots> = lit ''v1'' @ 47 # lit ''channels'' @ 47 # lit ''sha256'' @ 47 # hex @ 47 # lit ''assertions''" by (simp add: lit_def)
  finally show ?thesis
    using hex_no_mark [OF assms] by (simp add: split_on_append split_no_sep lit_def)
qed

lemma get_channel:
  assumes "hex64_match hex" "path req = channel_path hex" "cursor_for (cursor_query req) after"
    "channel_assertions hex after st = Inr (blobs, nxt)"
  shows "do_GET cfg req st = Inr (send 200 (BBytes (list_body (bracketed blobs) nxt)))"
proof -
  have "(case cursor_query req of None \<Rightarrow> Inr 0 | Some c \<Rightarrow> decode_cursor c) = Inr after"
    using assms(3) by (auto simp: cursor_for_def split: option.splits)
  moreover have "channel_path hex \<noteq> lit ''/.well-known/spp''" "channel_path hex \<noteq> lit ''/v1/channels''"
    by (simp_all add: channel_path_def lit_def)
  ultimately show ?thesis
    using parts_channel [OF assms(1)] assms(1,2,4)
    by (simp add: do_GET_def route_GET_def get_listing_def Let_def)
qed

lemma get_directory:
  assumes "path req = lit ''/v1/channels''" "cursor_for (cursor_query req) after" "advertised_channels after st = Inr (ids, nxt)"
  shows "do_GET cfg req st = Inr (send 200 (BBytes (list_body (bracketed (map dumps_str ids)) nxt)))"
proof -
  have "(case cursor_query req of None \<Rightarrow> Inr 0 | Some c \<Rightarrow> decode_cursor c) = Inr after"
    using assms(2) by (auto simp: cursor_for_def split: option.splits)
  then show ?thesis using assms(1,3) by (simp add: do_GET_def)
qed

section \<open>What the worker reads\<close>

definition checked :: "obj \<Rightarrow> bytes \<Rightarrow> bool" where
  "checked env b = (\<exists>raw info. validate_bytes b = Inr info \<and> recheck env = Inr (raw, vid info) \<and> validate_bytes raw = Inr info)"

lemma keep_dicts: "List.map_filter as_dict (map PDict envs) = envs"
  by (induction envs) (simp_all add: map_filter_simps as_dict_def)

lemma keep_strings: "List.map_filter as_str (map PStr ids) = ids"
  by (induction ids) (simp_all add: map_filter_simps as_str_def)

lemma cursor_nonempty: "cursor_for c after \<Longrightarrow> c = None \<or> (\<exists>x. c = Some x \<and> x \<noteq> [])"
  using encoded_not_empty by (auto simp: cursor_for_def split: option.splits)

lemma channel_page_read:
  assumes "relay_reach cfgA (source_store w)" "hex64_match hex" "channel_assertions hex after (source_store w) = Inr (blobs, nxt)"
    "cursor_for c after"
  shows "\<exists>xs. http_get_json (two_relays crashed now cfgA cfgB a d) (page_url a (channel_path hex) c) w =
          ((200, PDict [(lit ''items'', PList xs), (lit ''next'', next_value nxt)]), w) \<and>
        list_all2 checked (List.map_filter as_dict xs) blobs"
proof -
  note p = page_rows [OF assms(1) disjI1 [OF assms(3)]]
  obtain envs where e: "loads_bytes (list_body (bracketed blobs) nxt) =
      Inr (PDict [(lit ''items'', PList (map PDict envs)), (lit ''next'', next_value nxt)])" "list_all2 checked envs blobs"
    using listing_read [OF p(1) plain_next [OF p(2)]] unfolding checked_def by blast
  show ?thesis
    using get_served [OF routes(1) [OF assms(2)] cursor_nonempty [OF assms(4)] _ e(1)] get_channel [OF assms(2) _ _ assms(3)] assms(4) e(2)
    by (intro exI [of _ "map PDict envs"]) (simp add: keep_dicts)
qed

text \<open>The directory names channels by identifiers, which are plain text.\<close>

lemma row_ident: "row_ok r \<Longrightarrow> \<exists>hex. rid r = lit ''sha256:'' @ hex \<and> hex64_match hex"
  unfolding row_ok_def using vid_hex validate_bytes_Inr by metis

lemma plain_ident: "hex64_match hex \<Longrightarrow> plain (lit ''sha256:'' @ hex)"
  by (auto simp: plain_def hex64_match_def list_all_iff is_lower_hex_def is_digit_def lit_def)

lemma directory_ids:
  assumes "relay_reach cfg st" "advertised_channels after st = Inr (ids, nxt)"
  shows "\<forall>i\<in>set ids. \<exists>hex. i = lit ''sha256:'' @ hex \<and> hex64_match hex" "nxt = None \<or> (\<exists>i. nxt = Some (encode_cursor i))"
proof -
  note ok = relay_reach_ok [OF assms(1)]
  have r: "snd ` set (advertised_rows st) \<subseteq> rid ` set (assertions st)" using ok by (auto simp: advertised_rows_eq)
  note f = fetch_page_rows [OF assms(2) [unfolded advertised_channels_def]]
  have "set ids \<subseteq> rid ` set (assertions st)" using f r by blast
  then show "\<forall>i\<in>set ids. \<exists>hex. i = lit ''sha256:'' @ hex \<and> hex64_match hex" using ok row_ident by (auto dest!: subsetD)
  show "nxt = None \<or> (\<exists>i. nxt = Some (encode_cursor i))" using f by blast
qed

lemma directory_parsed:
  assumes "relay_reach cfg st" "advertised_channels after st = Inr (ids, nxt)"
  shows "parse_utf8 (list_body (bracketed (map dumps_str ids)) nxt) =
    Inr (PDict [(lit ''items'', PList (map PStr ids)), (lit ''next'', next_value nxt)])"
proof -
  note p = directory_ids [OF assms(1,2)]
  have pl: "plain i" if "i \<in> set ids" for i using bspec [OF p(1) that] by (auto dest: plain_ident)
  let ?ts = "map escape_string ids"
  have ts: "map utf8_bytes ?ts = map dumps_str ids"
    unfolding map_map by (rule map_cong [OF refl]) (simp only: o_def dumps_str_plain [OF pl])
  have sk: "str_ok i" if "i \<in> set ids" for i using pl [OF that] by (rule plain_ok)
  have t2: "list_all2 prints (map PStr ids) ?ts"
    unfolding list_all2_map1 list_all2_map2 list_all2_same using prints_string sk by blast
  have "list_all str_ok ?ts"
  proof (rule list_all_iff [THEN iffD2], rule ballI)
    fix t assume "t \<in> set ?ts"
    then obtain i where "i \<in> set ids" "t = escape_string i" by auto
    then show "str_ok t" using escape_string_ok [OF sk] by blast
  qed
  note t2 this
  then show ?thesis
    using list_body_parsed [of "map PStr ids" ?ts nxt, OF _ _ plain_next [OF p(2)]] unfolding ts by blast
qed

lemma directory_page_read:
  assumes "relay_reach cfgA (source_store w)" "advertised_channels after (source_store w) = Inr (ids, nxt)" "cursor_for c after"
  shows "\<exists>xs. http_get_json (two_relays crashed now cfgA cfgB a d) (page_url a (lit ''/v1/channels'') c) w =
          ((200, PDict [(lit ''items'', PList xs), (lit ''next'', next_value nxt)]), w) \<and>
        list_all2 (=) (List.map_filter as_str xs) ids"
proof -
  obtain v where v: "loads_bytes (list_body (bracketed (map dumps_str ids)) nxt) = Inr v"
      "floats v = PDict [(lit ''items'', PList (map PStr ids)), (lit ''next'', next_value nxt)]" using loads_parsed [OF directory_parsed [OF assms(1,2)]] by blast
  then obtain xs where xs: "v = PDict [(lit ''items'', PList xs), (lit ''next'', next_value nxt)]" "map floats xs = map PStr ids"
    by (auto simp: floats_eq floats_next map_eq_Cons_conv)
  have "list_all2 (=) (map floats xs) (map PStr ids)" by (simp add: xs(2) list.rel_eq)
  then have "list_all2 (\<lambda>x i. x = PStr i) xs ids"
    unfolding list_all2_map1 list_all2_map2 by (rule list_all2_mono) (simp only: floats_eq)
  then have "xs = map PStr ids" by (induction rule: list_all2_induct) simp_all
  then show ?thesis
    using get_served [OF routes(3) cursor_nonempty [OF assms(3)] _ v(1)] get_directory [OF _ _ assms(2)] assms(3)
    by (intro exI [of _ "map PStr ids"]) (simp add: keep_strings xs(1) list.rel_eq)
qed

interpretation chan_read: served_listing "two_relays crashed now cfgA cfgB a d" a "channel_path hex"
    "\<lambda>after w. channel_assertions hex after (source_store w)" "\<lambda>w. relay_reach cfgA (source_store w) \<and> hex64_match hex"
    as_dict checked for crashed now cfgA cfgB a d hex
proof unfold_locales
  fix w :: relays and after items nxt c
  assume "relay_reach cfgA (source_store w) \<and> hex64_match hex" "channel_assertions hex after (source_store w) = Inr (items, nxt)" "cursor_for c after"
  then show "\<exists>xs. http_get_json (two_relays crashed now cfgA cfgB a d) (page_url a (channel_path hex) c) w =
          ((200, PDict [(lit ''items'', PList xs), (lit ''next'', next_value nxt)]), w) \<and>
        list_all2 checked (List.map_filter as_dict xs) items" using channel_page_read by blast
next
  fix w :: relays and after items x
  assume "relay_reach cfgA (source_store w) \<and> hex64_match hex" "channel_assertions hex after (source_store w) = Inr (items, Some x)"
  then show "\<exists>i. x = encode_cursor i" using page_rows(2) by blast
qed

interpretation dir_read: served_listing "two_relays crashed now cfgA cfgB a d" a "lit ''/v1/channels''"
    "\<lambda>after w. advertised_channels after (source_store w)" "\<lambda>w. relay_reach cfgA (source_store w)"
    as_str "(=)" for crashed now cfgA cfgB a d
proof unfold_locales
  fix w :: relays and after items nxt c
  assume "relay_reach cfgA (source_store w)" "advertised_channels after (source_store w) = Inr (items, nxt)" "cursor_for c after"
  then show "\<exists>xs. http_get_json (two_relays crashed now cfgA cfgB a d) (page_url a (lit ''/v1/channels'') c) w =
          ((200, PDict [(lit ''items'', PList xs), (lit ''next'', next_value nxt)]), w) \<and>
        list_all2 (=) (List.map_filter as_str xs) items" by (rule directory_page_read)
next
  fix w :: relays and after items x
  assume "relay_reach cfgA (source_store w)" "advertised_channels after (source_store w) = Inr (items, Some x)"
  then show "\<exists>i. x = encode_cursor i" using directory_ids(2) by blast
qed

end
