(* ===== verification/Relay_Copy.thy ===== *)
theory Relay_Copy
  imports Relay_Sync Sync_Facts
begin

text \<open>
  A whole run of the sync worker between two durable relays: it reads every listing to its end,
  finds every item valid, and submits each; what the destination's policy does not refuse is then
  stored there.
\<close>

section \<open>Complete listings\<close>

lemma crawl_map: "crawl (\<lambda>after w. f after (g w)) after us = crawl f after (map g us)"
  by (induction us arbitrary: after) (auto split: sum.splits option.splits)

lemma still_grows: "sorted_wrt store_grows (replicate n st)"
  by (induction n) auto

lemma channel_rows_bound: "length (channel_rows hex st) \<le> length (assertions st)"
  by (simp add: channel_rows_def)

lemma crawl_still:
  assumes "store_ok st" "length (assertions st) < n"
  shows "crawl (channel_assertions hex) 0 (replicate n st) = Some (map snd (channel_rows hex st))"
    "crawl advertised_channels 0 (replicate n st) = Some (map snd (advertised_rows st))"
proof -
  have n: "replicate n st \<noteq> []" "hd (replicate n st) = st" "last (replicate n st) = st" using assms(2) by auto
  have "length (channel_rows hex st) < n" using channel_rows_bound [of hex st] assms(2) by simp
  then obtain items where "crawl (channel_assertions hex) 0 (replicate n st) = Some items"
      "prefix (map snd (channel_rows hex st)) items" "prefix items (map snd (channel_rows hex st))"
    using chan_list.crawl_complete [OF still_grows n(1), of hex] assms(1) unfolding n(2,3) length_replicate by blast
  then show "crawl (channel_assertions hex) 0 (replicate n st) = Some (map snd (channel_rows hex st))"
    using prefix_order.antisym by blast
  have "length (advertised_rows st) < n" using assms by (simp add: advertised_rows_eq le_less_trans [OF length_filter_le])
  then obtain items where "crawl advertised_channels 0 (replicate n st) = Some items"
      "prefix (map snd (advertised_rows st)) items" "prefix items (map snd (advertised_rows st))"
    using adv_list.crawl_complete [OF still_grows n(1)] assms(1) unfolding n(2,3) length_replicate by blast
  then show "crawl advertised_channels 0 (replicate n st) = Some (map snd (advertised_rows st))"
    using prefix_order.antisym by blast
qed

lemma first_page: "cursor_for None 0" "next_value None = PNone"
  by (simp_all add: cursor_for_def next_value_def)

lemma list_channel_read:
  assumes "relay_reach cfgA (source_store w)" "hex64_match hex" "length (assertions (source_store w)) < n"
  shows "\<exists>envs. list_channel n (two_relays crashed now cfgA cfgB a b) a hex w = (Returned (envs, []), w) \<and>
    list_all2 checked envs (map snd (channel_rows hex (source_store w)))"
proof -
  have "crawl (\<lambda>after w. channel_assertions hex after (source_store w)) 0 (replicate n w) = Some (map snd (channel_rows hex (source_store w)))"
    unfolding crawl_map map_replicate using crawl_still(1) relay_reach_ok [OF assms(1)] assms(3) by blast
  from chan_read.read_listing [OF conjI [OF assms(1,2)] this first_page(1), where acc = "[]"]
  show ?thesis by (simp add: list_channel_def channel_path_def first_page(2))
qed

lemma list_advertised_read:
  assumes "relay_reach cfgA (source_store w)" "length (assertions (source_store w)) < n"
  shows "list_advertised n (two_relays crashed now cfgA cfgB a b) a w = (Returned (map snd (advertised_rows (source_store w)), []), w)"
proof -
  have "crawl (\<lambda>after w. advertised_channels after (source_store w)) 0 (replicate n w) = Some (map snd (advertised_rows (source_store w)))"
    unfolding crawl_map map_replicate using crawl_still(2) relay_reach_ok [OF assms(1)] assms(2) by blast
  from dir_read.read_listing [OF assms(1) this first_page(1), where acc = "[]"]
  show ?thesis by (simp add: list_advertised_def first_page(2) list.rel_eq)
qed

section \<open>Gathering\<close>

lemma envelope_read:
  assumes "row_ok r"
  shows "\<exists>env. loads_bytes (envelope r) = Inr (PDict env) \<and> checked env (envelope r)"
proof -
  obtain t d info where t: "envelope r = utf8_bytes t" "str_ok t" "prints (PDict d) t" "json_val (PDict d)"
      "validate_object d = Inr info" "validate_bytes (envelope r) = Inr info" using row_text [OF assms] by blast
  obtain v where v: "loads_bytes (envelope r) = Inr v" "floats v = PDict d"
    using loads_parsed [OF prints_parsed [OF t(3,2)]] unfolding t(1) by blast
  obtain env where env: "v = PDict env" "floats_obj env = d" using v(2) floats_eq(1) by blast
  show ?thesis using recheck_parsed [OF env(2) t(4,5)] t(6) v(1) unfolding checked_def env(1) by blast
qed

lemma fetch_one_read:
  assumes "relay_reach cfgA (source_store w)" "hex64_match hex" "get_assertion hex (source_store w) = Some e"
  shows "\<exists>env. fetch_one (two_relays crashed now cfgA cfgB a b) a hex w = (Returned [env], w) \<and> checked env e"
proof -
  note ok = relay_reach_ok [OF assms(1)]
  obtain r where r: "r \<in> set (assertions (source_store w))" "envelope r = e" using assms(3) ok by (auto simp: get_assertion_iff)
  obtain env where env: "loads_bytes e = Inr (PDict env)" "checked env e" using envelope_read ok r by blast
  have "http_get_json (two_relays crashed now cfgA cfgB a b) (page_url a (assertion_path hex) None) w = ((200, PDict env), w)"
    by (rule get_served [OF routes(2) [OF assms(2)] _ get_stored [OF assms(2,3)] env(1)]) simp_all
  then show ?thesis using env(2) by (simp add: fetch_one_def page_url_def assertion_path_def)
qed

text \<open>What a source offers of a channel: the listing and, when the directory is followed, its description.\<close>

definition offered :: "bool \<Rightarrow> store \<Rightarrow> pystr \<Rightarrow> bytes list" where
  "offered adv st cid =
     map snd (channel_rows (drop 7 cid) st) @
     (if adv then (case get_assertion (drop 7 cid) st of Some e \<Rightarrow> [e] | None \<Rightarrow> []) else [])"

definition known :: "bool \<Rightarrow> store \<Rightarrow> pystr \<Rightarrow> bool" where
  "known adv st cid =
     (take 7 cid = lit ''sha256:'' \<and> hex64_match (drop 7 cid) \<and> (adv \<longrightarrow> get_assertion (drop 7 cid) st \<noteq> None))"

lemma after_colon_known: "known adv st cid \<Longrightarrow> after_colon cid = Inr (drop 7 cid)"
proof -
  assume "known adv st cid"
  then have "cid = lit ''sha256:'' @ drop 7 cid" unfolding known_def by (metis append_take_drop_id)
  then show ?thesis by (metis after_colon_id)
qed

lemma gather_read:
  assumes "relay_reach cfgA (source_store w)" "length (assertions (source_store w)) < n" "list_all (known adv (source_store w)) cids"
  shows "\<exists>g. gather n (two_relays crashed now cfgA cfgB a b) a adv cids w = (Returned (g, []), w) \<and>
    list_all2 (\<lambda>p. checked (snd p)) g (concat (map (offered adv (source_store w)) cids))"
  using assms(3)
proof (induction cids)
  case (Cons cid cids)
  let ?net = "two_relays crashed now cfgA cfgB a b" and ?hex = "drop 7 cid" and ?st = "source_store w"
  have k: "known adv ?st cid" "hex64_match ?hex" using Cons.prems by (simp_all add: known_def)
  obtain envs where envs: "list_channel n ?net a ?hex w = (Returned (envs, []), w)" "list_all2 checked envs (map snd (channel_rows ?hex ?st))"
    using list_channel_read [OF assms(1) k(2) assms(2)] by blast
  obtain one where one: "(if adv then fetch_one ?net a ?hex else liftw (Inr [])) w = (Returned one, w)"
      "list_all2 checked one (if adv then (case get_assertion ?hex ?st of Some e \<Rightarrow> [e] | None \<Rightarrow> []) else [])"
  proof (cases adv)
    case True
    then obtain e where e: "get_assertion ?hex ?st = Some e" using k(1) by (auto simp: known_def)
    obtain env where "fetch_one ?net a ?hex w = (Returned [env], w)" "checked env e" using fetch_one_read [OF assms(1) k(2) e] by blast
    then show ?thesis using that [of "[env]"] e True by simp
  qed (use that [of "[]"] in \<open>simp add: liftw_def\<close>)
  obtain g where g: "gather n ?net a adv cids w = (Returned (g, []), w)"
      "list_all2 (\<lambda>p. checked (snd p)) g (concat (map (offered adv ?st) cids))" using Cons.IH Cons.prems by auto
  have "gather n ?net a adv (cid # cids) w = (Returned (map (Pair cid) (envs @ one) @ g, []), w)"
    using envs(1) one(1) g(1) by (simp add: bindw_def liftw_def after_colon_known [OF k(1)])
  moreover have "list_all2 (\<lambda>p. checked (snd p)) (map (Pair cid) (envs @ one)) (offered adv ?st cid)"
    using list_all2_appendI [OF envs(2) one(2)] unfolding list_all2_map1 snd_conv offered_def .
  ultimately show ?case using list_all2_appendI g(2) by fastforce
qed simp

section \<open>Delivering\<close>

definition stored_ids :: "store \<Rightarrow> pystr set" where
  "stored_ids st = rid ` set (assertions st)"

lemma stored_ids_grow: "store_grows st st' \<Longrightarrow> store_ok st \<Longrightarrow> stored_ids st \<subseteq> stored_ids st'"
  unfolding stored_ids_def using set_mono_prefix [OF rows_grow(4)] by (intro image_mono) blast

lemma do_POST_last_seq: "store_ok st \<Longrightarrow> last_seq (fst (do_POST cfg (Suc (last_seq st)) t req st)) \<le> Suc (last_seq st)"
proof (cases "admit cfg req")
  case (Inr a)
  assume "store_ok st"
  then show ?thesis
    using Inr add_known [of _ "vid (a_info a)" st] add_new(3) [of st "vid (a_info a)"]
    by (cases "vid (a_info a) \<in> rid ` set (assertions st)") (force simp: do_POST_store)+
qed (simp add: do_POST_store)

lemma py_int_str_nat_eq: "py_int (str_nat k) = Inr n \<Longrightarrow> n = int k"
proof -
  assume a: "py_int (str_nat k) = Inr n"
  have "is_digit (hd (str_nat k))" using str_nat_digits [of k] by (cases "str_nat k") auto
  then show ?thesis
    using a str_nat_digits [of k]
    by (auto simp: py_int_def strip_digits underscore_digits_id Let_def is_digit_def split: if_splits)
qed

lemma read_body_whole:
  assumes "content_length req = Some (str_nat (length (stream req)))" "read_body cfg req = Inr content"
  shows "content = stream req"
proof -
  have "header (content_length req) = str_nat (length (stream req))" using assms(1) by (simp add: header_def)
  then show ?thesis
    using assms(2) by (auto simp: read_body_def Let_def res_simps dest!: py_int_str_nat_eq split: sum.splits)
qed

text \<open>One submission: the relay stays a reachable store, and what it answers with 200 it holds, read in the submitted bytes.\<close>

lemma handle_post:
  assumes "1 \<le> pow_multiplier cfg" "relay_reach cfg st" "Suc (last_seq st) < 2 ^ 63" "validate_bytes raw = Inr info"
  obtains r st' h where "handle crashed now cfg b \<lparr>hmethod = ''POST'', hurl = relay_url b (lit ''/v1/assertions''), hdata = Some raw\<rparr> st =
      (answered crashed r, st')" "relay_reach cfg st'" "store_grows st st'" "last_seq st' \<le> Suc (last_seq st)"
    "relay_send r = Inr h" "rp_status h = status r"
    "status r = 200 \<longrightarrow> (\<exists>a. admit cfg (received b \<lparr>hmethod = ''POST'', hurl = relay_url b (lit ''/v1/assertions''), hdata = Some raw\<rparr>) = Inr a \<and>
       a_info a = info \<and> vid info \<in> stored_ids st' \<and>
       st' = snd (add (Suc (last_seq st)) now (vid info) (a_canonical a) (a_type a) (a_actor a) (Some (a_channel a)) (a_object a) st))"
proof -
  let ?req = "received b \<lparr>hmethod = ''POST'', hurl = relay_url b (lit ''/v1/assertions''), hdata = Some raw\<rparr>"
  define st' where "st' = fst (do_POST cfg (Suc (last_seq st)) now ?req st)"
  have ok: "store_ok st" using relay_reach_ok [OF assms(2)] by blast
  have st': "relay_reach cfg st'" "store_grows st st'" "last_seq st' \<le> Suc (last_seq st)"
    unfolding st'_def using posted [OF assms(2) _ assms(3)] do_POST_grows [OF _ assms(3)] do_POST_last_seq [OF ok] by simp_all
  obtain out where out: "do_POST cfg (Suc (last_seq st)) now ?req st = (st', out)" unfolding st'_def by (metis prod.collapse)
  have "\<exists>r. out = Replied r \<and> (status r = 200 \<longrightarrow> (\<exists>a. admit cfg ?req = Inr a \<and> a_info a = info \<and> vid info \<in> stored_ids st'))"
  proof (cases "admit cfg ?req")
    case (Inl x)
    then have "x = out" using out by (simp add: do_POST_def)
    then show ?thesis using assms(1) Inl admit_refuses [of cfg ?req] refusal_status unfolding refuses_def by fastforce
  next
    case (Inr acc)
    obtain content where content: "read_body cfg ?req = Inr content" "validate_bytes content = Inr (a_info acc)"
      using admit_Inr [OF Inr] by metis
    have "stream ?req = raw" "content_length ?req = Some (str_nat (length (stream ?req)))" by (simp_all add: received_def Let_def)
    then have "content = raw" using read_body_whole [OF _ content(1)] by simp
    then have "a_info acc = info" using content(2) assms(4) by simp
    then show ?thesis
      using do_POST_accepts(1,3) [OF Inr ok, of "Suc (last_seq st)" now] out Inr unfolding stored_ids_def by force
  qed
  then obtain r where r: "out = Replied r" "status r = 200 \<longrightarrow> (\<exists>a. admit cfg ?req = Inr a \<and> a_info a = info \<and> vid info \<in> stored_ids st')" by blast
  have "handle crashed now cfg b \<lparr>hmethod = ''POST'', hurl = relay_url b (lit ''/v1/assertions''), hdata = Some raw\<rparr> st = (answered crashed r, st')"
    using out r(1) by (simp add: handle_def)
  moreover have "a_info a = info \<Longrightarrow> admit cfg ?req = Inr a \<Longrightarrow>
      st' = snd (add (Suc (last_seq st)) now (vid info) (a_canonical a) (a_type a) (a_actor a) (Some (a_channel a)) (a_object a) st)" for a
    unfolding st'_def by (simp add: do_POST_store)
  moreover obtain h where "relay_send r = Inr h" "rp_status h = status r"
    using post_sent [OF assms(1), of "Suc (last_seq st)" now ?req st] out r(1) by auto
  ultimately show thesis using that [of r st' h] st' r(2) by blast
qed

text \<open>One submission: the destination stays a reachable store, and stores the assertion or refuses it.\<close>

definition submits :: "config \<Rightarrow> pystr \<Rightarrow> pystr \<Rightarrow> bool" where
  "submits cfgB a b =
     (\<not> reaches a (relay_url b (lit ''/v1/assertions'')) \<and> 1 \<le> pow_multiplier cfgB)"

lemma post_delivered:
  assumes "submits cfgB a b" "relay_reach cfgB (target_store w)" "Suc (last_seq (target_store w)) < 2 ^ 63"
    "validate_bytes raw = Inr info"
  obtains code v st' where "http_post_json (two_relays crashed now cfgA cfgB a b) (relay_url b (lit ''/v1/assertions'')) raw w =
      ((code, v), w\<lparr>target_store := st'\<rparr>)" "relay_reach cfgB st'" "store_grows (target_store w) st'"
    "last_seq st' \<le> Suc (last_seq (target_store w))" "code = 200 \<longrightarrow> vid info \<in> stored_ids st'"
proof -
  let ?url = "relay_url b (lit ''/v1/assertions'')"
  have route: "\<not> reaches a ?url" "reaches b ?url" "1 \<le> pow_multiplier cfgB"
    using assms(1) reaches_route [of "lit ''/v1/assertions''" b "[]"] by (simp_all add: submits_def route_def lit_def)
  obtain r st' hr where h: "handle crashed now cfgB b \<lparr>hmethod = ''POST'', hurl = ?url, hdata = Some raw\<rparr> (target_store w) =
      (answered crashed r, st')" "relay_reach cfgB st'" "store_grows (target_store w) st'" "last_seq st' \<le> Suc (last_seq (target_store w))"
    "relay_send r = Inr hr" "rp_status hr = status r" "status r = 200 \<longrightarrow> vid info \<in> stored_ids st'"
    by (rule handle_post [OF route(3) assms(2-4), of crashed now b]) (rule that, assumption+, blast)
  have "\<exists>v. http_post_json (two_relays crashed now cfgA cfgB a b) ?url raw w = ((status r, v), w\<lparr>target_store := st'\<rparr>)"
    using route h(1,5,6) by (auto simp: http_post_json_def two_relays_def answered_def split: sum.splits)
  then show thesis using that h(2-4,7) by blast
qed

text \<open>Nothing refused means everything processed is held.\<close>

definition delivered :: "tally \<Rightarrow> relays \<Rightarrow> bool" where
  "delivered t w = (n_rejected t = 0 \<longrightarrow> set (processed t) \<subseteq> stored_ids (target_store w))"

lemma rejected_reply: "n_rejected (record_reply cid aid code v t) = (if code = 200 then n_rejected t else Suc (n_rejected t))"
  by (simp add: record_reply_def Let_def)

lemma item_delivered:
  assumes "submits cfgB a b" "relay_reach cfgB (target_store w)" "Suc (last_seq (target_store w)) < 2 ^ 63"
    "checked env blob" "delivered t w"
  obtains t' w' where "forward_item (two_relays crashed now cfgA cfgB a b) b (cid, env) (t, w) = (t', w')"
    "source_store w' = source_store w" "relay_reach cfgB (target_store w')" "store_grows (target_store w) (target_store w')"
    "last_seq (target_store w') \<le> Suc (last_seq (target_store w))" "n_valid t' = Suc (n_valid t)" "n_invalid t' = n_invalid t"
    "delivered t' w'" "Some ` set (processed t') = insert (id_of_bytes blob) (Some ` set (processed t))"
proof -
  obtain raw info where c: "validate_bytes blob = Inr info" "recheck env = Inr (raw, vid info)" "validate_bytes raw = Inr info"
    using assms(4) by (auto simp: checked_def)
  have i: "id_of_bytes blob = Some (vid info)" by (simp add: id_of_bytes_def c(1))
  have ok: "store_ok (target_store w)" using relay_reach_ok [OF assms(2)] by blast
  show thesis
  proof (cases "vid info \<in> set (processed t)")
    case True
    then show thesis
      by (intro that [of "t\<lparr>n_valid := n_valid t + 1\<rparr>" w]) (use assms c i in \<open>auto simp: forward_item_def delivered_def insert_absorb\<close>)
  next
    case False
    obtain code v st' where p: "http_post_json (two_relays crashed now cfgA cfgB a b) (relay_url b (lit ''/v1/assertions'')) raw w =
        ((code, v), w\<lparr>target_store := st'\<rparr>)" "relay_reach cfgB st'" "store_grows (target_store w) st'"
        "last_seq st' \<le> Suc (last_seq (target_store w))" "code = 200 \<longrightarrow> vid info \<in> stored_ids st'"
      by (rule post_delivered [OF assms(1-3) c(3)])
    define t' where "t' = record_reply cid (vid info) code v (t\<lparr>n_valid := n_valid t + 1, processed := processed t @ [vid info]\<rparr>)"
    have "forward_item (two_relays crashed now cfgA cfgB a b) b (cid, env) (t, w) = (t', w\<lparr>target_store := st'\<rparr>)"
      using False p(1) by (simp add: forward_item_def c(2) Let_def t'_def)
    moreover have "delivered t' (w\<lparr>target_store := st'\<rparr>)"
      using assms(5) p(5) stored_ids_grow [OF p(3) ok] by (auto simp: delivered_def t'_def rejected_reply split: if_splits)
    ultimately show thesis
      using p(2-4) by (intro that [of t' "w\<lparr>target_store := st'\<rparr>"]) (auto simp: t'_def i)
  qed
qed

lemma all_delivered:
  assumes "submits cfgB a b" "relay_reach cfgB (target_store w)"
    "last_seq (target_store w) + length g < 2 ^ 63" "list_all2 (\<lambda>p. checked (snd p)) g blobs" "delivered t w"
  shows "\<exists>t' w'. fold (forward_item (two_relays crashed now cfgA cfgB a b) b) g (t, w) = (t', w') \<and>
    source_store w' = source_store w \<and> relay_reach cfgB (target_store w') \<and> store_grows (target_store w) (target_store w') \<and>
    n_valid t' = n_valid t + length g \<and> n_invalid t' = n_invalid t \<and> delivered t' w' \<and>
    Some ` set (processed t') = Some ` set (processed t) \<union> set (map id_of_bytes blobs)"
  using assms(4,2,3,5)
proof (induction g blobs arbitrary: t w rule: list_all2_induct)
  case (Cons p g blob blobs)
  obtain cid env where p: "p = (cid, env)" by force
  obtain t1 w1 where 1: "forward_item (two_relays crashed now cfgA cfgB a b) b (cid, env) (t, w) = (t1, w1)"
    "source_store w1 = source_store w" "relay_reach cfgB (target_store w1)" "store_grows (target_store w) (target_store w1)"
    "last_seq (target_store w1) \<le> Suc (last_seq (target_store w))" "n_valid t1 = Suc (n_valid t)" "n_invalid t1 = n_invalid t"
    "delivered t1 w1" "Some ` set (processed t1) = insert (id_of_bytes blob) (Some ` set (processed t))"
    by (rule item_delivered [OF assms(1) Cons.prems(1) _ _ Cons.prems(3), where env = env and blob = blob and cid = cid]) (use Cons.prems(2) Cons.hyps(1) p in auto)
  have "last_seq (target_store w1) + length g < 2 ^ 63" using 1(5) Cons.prems(2) by simp
  from Cons.IH [OF 1(3) this 1(8)]
  obtain t2 w2 where 2: "fold (forward_item (two_relays crashed now cfgA cfgB a b) b) g (t1, w1) = (t2, w2)"
    "source_store w2 = source_store w1" "relay_reach cfgB (target_store w2)" "store_grows (target_store w1) (target_store w2)"
    "n_valid t2 = n_valid t1 + length g" "n_invalid t2 = n_invalid t1" "delivered t2 w2"
    "Some ` set (processed t2) = Some ` set (processed t1) \<union> set (map id_of_bytes blobs)" by blast
  have "store_grows (target_store w) (target_store w2)" using rtranclp_trans [OF 1(4) 2(4)] .
  moreover have "Some ` set (processed t2) = Some ` set (processed t) \<union> set (map id_of_bytes (blob # blobs))"
    unfolding 2(8) 1(9) by auto
  ultimately show ?case using 1 2 by (simp add: p)
qed simp

section \<open>The run\<close>

text \<open>The channels a run copies, and the assertions it is offered.\<close>

definition copied_channels :: "pystr option \<Rightarrow> store \<Rightarrow> pystr list" where
  "copied_channels chan st = (case chan of
       None \<Rightarrow> map snd (advertised_rows st)
     | Some c \<Rightarrow> (case channel_hex_of c of Some hex \<Rightarrow> [lit ''sha256:'' @ hex] | None \<Rightarrow> []))"

definition offers :: "pystr option \<Rightarrow> store \<Rightarrow> bytes list" where
  "offers chan st = concat (map (offered (chan = None) st) (copied_channels chan st))"

lemma channel_hex: "channel_hex_of c = Some hex \<Longrightarrow> hex64_match hex"
  by (auto simp: channel_hex_of_def sha256_id_match_def hex64_match_def split: if_splits)

lemma copied_known:
  assumes "relay_reach cfg st"
  shows "list_all (known (chan = None) st) (copied_channels chan st)"
proof (cases chan)
  case None
  note ok = relay_reach_ok [OF assms]
  have "known True st (rid r)" if r: "r \<in> set (assertions st)" for r
  proof -
    obtain hex where hex: "rid r = lit ''sha256:'' @ hex" "hex64_match hex" using row_ident ok r by blast
    then have "get_assertion hex st = Some (envelope r)" using ok r by (auto simp: get_assertion_iff)
    then show ?thesis using hex by (simp add: known_def)
  qed
  then show ?thesis using None ok by (auto simp: copied_channels_def advertised_rows_eq list_all_iff)
next
  case (Some c)
  then show ?thesis using channel_hex [of c] by (auto simp: copied_channels_def known_def split: option.splits)
qed

lemma row_offered:
  assumes "relay_reach cfg st" "r \<in> set (assertions st)" "channel r \<in> Some ` set (copied_channels chan st)"
  shows "Some (rid r) \<in> set (map id_of_bytes (offers chan st))"
proof -
  obtain cid where cid: "cid \<in> set (copied_channels chan st)" "channel r = Some cid" using assms(3) by auto
  then have "known (chan = None) st cid" using copied_known [OF assms(1)] by (auto simp: list_all_iff)
  then have "cid = lit ''sha256:'' @ drop 7 cid" unfolding known_def by (metis append_take_drop_id)
  then have "(seq r, envelope r) \<in> set (channel_rows (drop 7 cid) st)" using assms(2) cid(2) by (auto simp: channel_rows_def)
  then have "envelope r \<in> snd ` set (channel_rows (drop 7 cid) st)" by (metis imageI snd_conv)
  then have "envelope r \<in> set (offered (chan = None) st cid)" unfolding offered_def set_append set_map by (rule UnI1)
  then have "envelope r \<in> set (offers chan st)" using cid(1) unfolding offers_def set_concat set_map by blast
  moreover have "id_of_bytes (envelope r) = Some (rid r)"
    using relay_reach_ok [OF assms(1)] assms(2) by (auto simp: row_ok_def id_of_bytes_def)
  ultimately show ?thesis unfolding set_map by (metis imageI)
qed





end
