(* ===== verification/Relay_Poll.thy ===== *)
theory Relay_Poll
  imports Relay_Copy Agent_Facts
begin

text \<open>
  The agent's poll against a durable relay: whatever the channel lists is read to the end and found
  valid, becomes seen, and the object of every new pointer that one of its locators serves is kept.
\<close>

section \<open>One item\<close>

text \<open>\<open>names b want loc\<close>: the stored envelope is a pointer to the object \<open>want\<close> with the locator \<open>loc\<close>.\<close>

definition names :: "bytes \<Rightarrow> pystr \<Rightarrow> pystr \<Rightarrow> bool" where
  "names b want loc = (\<exists>d r ls. parse_object b = Inr d \<and> dget d (lit ''type'') = Some (PStr (lit ''pointer'')) \<and>
     dget d (lit ''ref'') = Some (PDict r) \<and> dget r (lit ''hash'') = Some (PStr want) \<and>
     dget r (lit ''locators'') = Some (PList ls) \<and> PStr loc \<in> set ls)"

definition obtainable :: "'w net \<Rightarrow> 'w \<Rightarrow> bytes \<Rightarrow> pystr \<Rightarrow> bool" where
  "obtainable net w b want = (\<exists>loc data. names b want loc \<and> fst (fetch_object net loc w) = Inr data \<and> object_id data = want)"

definition quiet_net :: "'w net \<Rightarrow> bool" where
  "quiet_net net = (\<forall>url w. snd (urlopen net \<lparr>hmethod = ''GET'', hurl = url, hdata = None\<rparr> w) = w)"

lemma try_fetch_quiet: "quiet_net net \<Longrightarrow> snd (try_fetch net loc w) = w"
  unfolding quiet_net_def try_fetch_def fetch_object_def Let_def by (auto simp: split_beta split: pyval.split)

lemma fetch_loop_finds:
  assumes "quiet_net net"
  shows "\<exists>f' objects' fs'. fetch_loop net want locs f objects (fs, w) = ((f', objects'), (fs', w)) \<and> set objects \<subseteq> set objects' \<and>
    ((\<exists>loc\<in>set locs. \<exists>data. fst (try_fetch net loc w) = Inr data \<and> object_id data = want) \<longrightarrow> want \<in> set objects')"
proof (induction locs arbitrary: f)
  case (Cons loc locs)
  obtain r where r: "try_fetch net loc w = (r, w)" using try_fetch_quiet [OF assms] by (metis prod.collapse)
  show ?case
  proof (cases "\<exists>data. r = Inr data \<and> object_id data = want")
    case True
    then show ?thesis using r by auto
  next
    case False
    then obtain g where "fetch_loop net want (loc # locs) f objects (fs, w) = fetch_loop net want locs g objects (fs, w)"
      using r by (cases r) (auto simp: Let_def)
    then show ?thesis using Cons.IH [of g] r False by auto
  qed
qed simp

lemma dget_floats: "dget (floats_obj e) k = map_option floats (dget e k)"
  by (induction e) auto

lemma read_member:
  assumes "floats_obj e = d"
  shows "dget d k = Some (PStr s) \<longleftrightarrow> dget e k = Some (PStr s)"
    "dget d k = Some (PDict r) \<Longrightarrow> \<exists>r'. dget e k = Some (PDict r') \<and> floats_obj r' = r"
    "dget d k = Some (PList ls) \<Longrightarrow> \<exists>ls'. dget e k = Some (PList ls') \<and> map floats ls' = ls"
  unfolding assms [symmetric] dget_floats by (auto simp: floats_eq)

text \<open>What a valid pointer says is there to be read.\<close>

lemma pointer_reads:
  assumes "read_as e b" "dget e (lit ''type'') = Some (PStr (lit ''pointer''))"
  obtains r want ls where "getitem e ''ref'' = Inr (PDict r)" "getitem r ''hash'' = Inr (PStr want)"
    "getitem r ''locators'' = Inr (PList ls)"
    "\<And>loc. names b want loc \<longleftrightarrow> PStr loc \<in> set ls" "\<And>want' loc. names b want' loc \<Longrightarrow> want' = want"
proof -
  obtain d info where d: "parse_object b = Inr d" "json_val (PDict d)" "floats_obj e = d" "validate_object d = Inr info"
    using assms(1) unfolding read_as_def by blast
  have t: "dget d (lit ''type'') = Some (PStr (lit ''pointer''))" using assms(2) d(3) read_member(1) by blast
  have "schema_ok (reconstruct_u d)" using valid_schema validate_iff d(2,4) by blast
  then have "pointer_ok (reconstruct_u d)" using t by (auto simp: schema_ok_def channel_ok_def dget_reconstruct lit_def)
  then obtain v where "dget d (lit ''ref'') = Some v" "ref_ok v" by (auto simp: pointer_ok_def dget_reconstruct split: if_splits)
  then obtain q want ls where q: "dget d (lit ''ref'') = Some (PDict q)" "dget q (lit ''hash'') = Some (PStr want)"
      "dget q (lit ''locators'') = Some (PList ls)" by (auto simp: ref_ok_def id_ok_def)
  obtain r where r: "dget e (lit ''ref'') = Some (PDict r)" "floats_obj r = q" using read_member(2) [OF d(3) q(1)] by blast
  obtain ls' where ls: "dget r (lit ''locators'') = Some (PList ls')" "map floats ls' = ls" using read_member(3) [OF r(2) q(3)] by blast
  have s: "PStr loc \<in> set ls \<longleftrightarrow> PStr loc \<in> set ls'" for loc
    unfolding ls(2) [symmetric] by (auto simp: image_iff) (metis floats_eq(3))+
  show thesis
    by (rule that [of r want ls']) (use r ls q s read_member(1) [OF r(2)] d(1) t in \<open>auto simp: getitem_def names_def\<close>)
qed

text \<open>What has been done about the items \<open>bs\<close>, for an agent that had seen \<open>old\<close>.\<close>

definition kept_up :: "'w net \<Rightarrow> 'w \<Rightarrow> pystr set \<Rightarrow> bytes list \<Rightarrow> poll_state \<Rightarrow> bool" where
  "kept_up net w old bs p =
     (Some ` set (p_seen p) = Some ` old \<union> id_of_bytes ` set bs \<and> Some ` set (p_processed p) = id_of_bytes ` set bs \<and>
      p_discovered p = length bs \<and> list_all (\<lambda>r. get_or r ''valid'' PNone = PBool True) (p_results p) \<and>
      (distinct (map id_of_bytes bs) \<longrightarrow>
        (\<forall>b\<in>set bs. \<forall>want. id_of_bytes b \<notin> Some ` old \<and> obtainable net w b want \<longrightarrow> want \<in> set (p_objects p))))"

lemma entries_valid [simp]:
  "get_or (known_entry base env aid) ''valid'' PNone = PBool True"
  "get_or (new_entry base env aid oh f reason) ''valid'' PNone = PBool True"
  by (simp_all add: known_entry_def new_entry_def get_or_def lit_def)

lemma add_result_sel [simp]:
  "p_seen (add_result r p) = p_seen p" "p_processed (add_result r p) = p_processed p" "p_objects (add_result r p) = p_objects p"
  "p_discovered (add_result r p) = p_discovered p" "p_results (add_result r p) = p_results p @ [r]"
  by (simp_all add: add_result_def)

lemma accept_read:
  assumes "quiet_net net" "read_as e b"
  shows "\<exists>p' fs'. accept_new net base e aid p (fs, w) = (Returned p', (fs', w)) \<and> p_seen p' = p_seen p @ [aid] \<and>
    p_processed p' = p_processed p \<and> p_discovered p' = p_discovered p \<and> set (p_objects p) \<subseteq> set (p_objects p') \<and>
    (\<exists>r. p_results p' = p_results p @ [r] \<and> get_or r ''valid'' PNone = PBool True) \<and>
    (\<forall>want. obtainable net w b want \<longrightarrow> want \<in> set (p_objects p'))"
proof (cases "dget e (lit ''type'') = Some (PStr (lit ''pointer''))")
  case True
  obtain r want ls where r: "getitem e ''ref'' = Inr (PDict r)" "getitem r ''hash'' = Inr (PStr want)"
    "getitem r ''locators'' = Inr (PList ls)" "\<And>loc. names b want loc \<longleftrightarrow> PStr loc \<in> set ls" "\<And>want' loc. names b want' loc \<Longrightarrow> want' = want"
    by (rule pointer_reads [OF assms(2) True]) (rule that, assumption+)
  obtain f objects fs' where f: "fetch_loop net want ls no_fetch (p_objects p) (fs, w) = ((f, objects), (fs', w))" "set (p_objects p) \<subseteq> set objects"
    "(\<exists>loc\<in>set ls. \<exists>data. fst (try_fetch net loc w) = Inr data \<and> object_id data = want) \<longrightarrow> want \<in> set objects"
    using fetch_loop_finds [OF assms(1), of want ls no_fetch "p_objects p" fs w] by blast
  have "want' \<in> set objects" if o: "obtainable net w b want'" for want'
  proof -
    obtain loc data where l: "names b want' loc" "fst (fetch_object net loc w) = Inr data" "object_id data = want'"
      using o unfolding obtainable_def by blast
    then have "want' = want" "PStr loc \<in> set ls" using r(4,5) by blast+
    moreover have "fst (try_fetch net (PStr loc) w) = Inr data" using l(2) by (simp add: try_fetch_def)
    ultimately show ?thesis using f(3) l(3) by blast
  qed
  moreover have "get_or e ''type'' PNone = PStr (lit ''pointer'')" using True by (simp add: get_or_def)
  ultimately show ?thesis using r(1-3) f(1,2)
    by (auto simp: accept_new_def Let_def bindw_def liftw_def subscript_def as_text_def py_iter_def)
next
  case False
  have "\<not> names b want loc" for want loc
    using assms(2) False read_member(1) unfolding read_as_def names_def by fastforce
  moreover have "get_or e ''type'' PNone \<noteq> PStr (lit ''pointer'')" using False by (auto simp: get_or_def split: option.splits)
  ultimately show ?thesis by (simp add: accept_new_def Let_def liftw_def obtainable_def)
qed

lemma consider_read:
  assumes "quiet_net net" "read_as e b" "kept_up net w old bs p"
  shows "\<exists>p' fs'. consider_item net base (PDict e) p (fs, w) = (Returned p', (fs', w)) \<and> kept_up net w old (bs @ [b]) p'"
proof -
  obtain raw info where c: "validate_bytes b = Inr info" "recheck e = Inr (raw, vid info)" "validate_bytes raw = Inr info"
    using read_as_rechecks [OF assms(2)] by blast
  have ser: "dumps_bytes (PDict e) = Inr raw" using c(2) by (auto simp: recheck_def split: sum.splits exn.splits)
  have i: "id_of_bytes b = Some (vid info)" by (simp add: id_of_bytes_def c(1))
  let ?p1 = "p\<lparr>p_discovered := p_discovered p + 1\<rparr>"
  let ?p2 = "?p1\<lparr>p_processed := p_processed p @ [vid info]\<rparr>"
  note run = consider_item_def Let_def bindw_def liftw_def as_obj_def ser c(3)
  have sets: "Some ` set (p_seen p) = Some ` old \<union> id_of_bytes ` set bs" "Some ` set (p_processed p) = id_of_bytes ` set bs"
    using assms(3) by (simp_all add: kept_up_def)
  have proc: "vid info \<in> set (p_processed p) \<longleftrightarrow> id_of_bytes b \<in> id_of_bytes ` set bs"
    unfolding sets(2) [symmetric] i by auto
  have seen: "vid info \<in> set (p_seen p) \<longleftrightarrow> vid info \<in> old \<or> id_of_bytes b \<in> id_of_bytes ` set bs"
    using sets(1) unfolding i set_eq_iff by (drule_tac spec [of _ "Some (vid info)"]) auto
  show ?thesis
  proof (cases "vid info \<in> set (p_processed p)")
    case True
    then have "consider_item net base (PDict e) p (fs, w) = (Returned ?p1, (fs, w))" by (simp add: run)
    moreover have "kept_up net w old (bs @ [b]) ?p1"
      using assms(3) True proc by (auto simp: kept_up_def insert_absorb)
    ultimately show ?thesis by blast
  next
    case new: False
    show ?thesis
    proof (cases "vid info \<in> set (p_seen p)")
      case True
      then have "consider_item net base (PDict e) p (fs, w) = (Returned (add_result (known_entry base e (vid info)) ?p2), (fs, w))"
        using new by (simp add: run)
      moreover have "kept_up net w old (bs @ [b]) (add_result (known_entry base e (vid info)) ?p2)"
        using assms(3) True seen new proc i by (auto simp: kept_up_def insert_absorb)
      ultimately show ?thesis by blast
    next
      case False
      obtain p' fs' where p': "accept_new net base e (vid info) ?p2 (fs, w) = (Returned p', (fs', w))" "p_seen p' = p_seen p @ [vid info]"
        "p_processed p' = p_processed p @ [vid info]" "p_discovered p' = p_discovered p + 1" "set (p_objects p) \<subseteq> set (p_objects p')"
        "\<exists>r. p_results p' = p_results p @ [r] \<and> get_or r ''valid'' PNone = PBool True"
        "\<forall>want. obtainable net w b want \<longrightarrow> want \<in> set (p_objects p')"
        using accept_read [OF assms(1,2), of base "vid info" ?p2 fs w] by auto
      have "consider_item net base (PDict e) p (fs, w) = (Returned p', (fs', w))" using new False p'(1) by (simp add: run)
      moreover have "kept_up net w old (bs @ [b]) p'"
        using assms(3) p'(2-7) i by (auto simp: kept_up_def)
      ultimately show ?thesis by blast
    qed
  qed
qed

section \<open>A whole listing\<close>

text \<open>The loop of the poll reads a listing the way the worker's does; what it does with an item is the
  client's part of the contract.\<close>

lemma keep_all: "List.map_filter Some xs = xs"
  by (induction xs) (simp_all add: map_filter_simps)

locale polled_listing = served_listing net base p page inv_of Some showing
  for net :: "'w net" and base p :: pystr and page :: "int \<Rightarrow> 'w \<Rightarrow> exn + ('b list \<times> pystr option)"
    and inv_of :: "'w \<Rightarrow> bool" and showing :: "pyval \<Rightarrow> 'b \<Rightarrow> bool" +
  fixes reached :: "'w \<Rightarrow> 'b list \<Rightarrow> poll_state \<Rightarrow> bool"
  assumes considered: "inv_of w \<Longrightarrow> showing x b \<Longrightarrow> reached w bs ps \<Longrightarrow>
      \<exists>ps' fs'. consider_item net base x ps (fs, w) = (Returned ps', (fs', w)) \<and> reached w (bs @ [b]) ps'"
begin

lemma consider_page:
  assumes "inv_of w" "list_all2 showing xs items" "reached w bs ps"
  shows "\<exists>ps' fs'. consider_all net base xs ps (fs, w) = (Returned ps', (fs', w)) \<and> reached w (bs @ items) ps'"
  using assms(2,3)
proof (induction xs items arbitrary: bs ps fs rule: list_all2_induct)
  case (Cons x xs b items)
  obtain ps1 fs1 where 1: "consider_item net base x ps (fs, w) = (Returned ps1, (fs1, w))" "reached w (bs @ [b]) ps1"
    using considered [OF assms(1) Cons.hyps(1) Cons.prems] by blast
  obtain ps2 fs2 where "consider_all net base xs ps1 (fs1, w) = (Returned ps2, (fs2, w))" "reached w ((bs @ [b]) @ items) ps2"
    using Cons.IH [OF 1(2)] by blast
  then show ?case using 1(1) by (simp add: bindw_def)
qed simp

lemma page_listed:
  assumes "http_get_json net (page_url base p c) w = ((200, v), w)" "v \<noteq> PNone" "cursor_for c after"
  shows "list_page net base p (next_value c) (fs, w) = (Returned (Inr v), (fs, w))"
proof -
  have url: "with_cursor (relay_url base p) (next_value c) = Inr (page_url base p c)"
    using assms(3) encoded_not_empty by (cases c) (auto simp: with_cursor_def next_value_def page_url_def cursor_for_def)
  obtain r w1 where r: "urlopen net \<lparr>hmethod = ''GET'', hurl = page_url base p c, hdata = None\<rparr> w = (r, w1)" by force
  have "w1 = w" "(\<exists>b. (r = Response 200 (Inr b) \<or> r = HTTPError 200 (Inr b)) \<and> loads_bytes b = Inr v)"
    using assms(1,2) r by (auto simp: http_get_json_def read_json_def split: http.splits sum.splits)
  then show ?thesis using r by (auto simp: list_page_def url bindw_def liftw_def on_net_def http_raw_def)
qed

lemma poll_listing:
  assumes "inv_of w" "crawl page after (replicate n w) = Some items" "cursor_for c after" "reached w bs ps"
  shows "\<exists>k ps' fs'. poll_relay n net base p (next_value c) pages ps (fs, w) = (Returned (k, [], ps'), (fs', w)) \<and>
    reached w (bs @ items) ps'"
  using assms(2,3,4)
proof (induction n arbitrary: after c items bs ps fs pages)
  case (Suc n)
  obtain its nxt where pg: "page after w = Inr (its, nxt)" using Suc.prems(1) by (auto split: sum.splits)
  obtain xs where xs: "http_get_json net (page_url base p c) w =
      ((200, PDict [(lit ''items'', PList xs), (lit ''next'', next_value nxt)]), w)" "list_all2 showing xs its"
    using page_read [OF assms(1) pg Suc.prems(2)] by (auto simp: keep_all)
  note lp = page_listed [OF xs(1) _ Suc.prems(2), simplified]
  obtain ps1 fs1 where 1: "consider_all net base xs ps (fs, w) = (Returned ps1, (fs1, w))" "reached w (bs @ its) ps1"
    using consider_page [OF assms(1) xs(2) Suc.prems(3)] by blast
  show ?case
  proof (cases nxt)
    case None
    then have "items = its" using Suc.prems(1) pg by simp
    then show ?thesis using lp 1 None by (simp add: bindw_def liftw_def as_obj_def get_or_def py_iter_def lit_def next_value_def)
  next
    case (Some x)
    obtain k more where k: "decode_cursor x = Inr k" "crawl page k (replicate n w) = Some more" "items = its @ more"
      using Suc.prems(1) pg Some by (auto split: sum.splits)
    have enc: "\<exists>i. x = encode_cursor i" using page_next [OF assms(1)] pg Some by blast
    then have "truthy (next_value (Some x))" by (auto simp: next_value_def encoded_not_empty)
    moreover have "cursor_for (Some x) k" using enc k(1) by (auto simp: cursor_for_def)
    ultimately show ?thesis
      using Suc.IH [OF k(2) _ 1(2), of "Some x" "pages + 1" fs1] lp 1(1) Some k(3)
      by (simp add: bindw_def liftw_def as_obj_def get_or_def py_iter_def lit_def)
  qed
qed simp

end

section \<open>A relay on a network\<close>

text \<open>One durable relay; \<open>others\<close> is what the other addresses answer.\<close>

definition relay_net :: "http \<Rightarrow> int \<Rightarrow> config \<Rightarrow> pystr \<Rightarrow> (http_request \<Rightarrow> http) \<Rightarrow> store net" where
  "relay_net crashed now cfg a others = \<lparr>urlopen = (\<lambda>req st.
     if reaches a (hurl req) then handle crashed now cfg a req st else (others req, st))\<rparr>"

lemma relay_net_quiet: "quiet_net (relay_net crashed now cfg a others)"
  by (simp add: quiet_net_def relay_net_def handle_def split: sum.splits)

lemma base_url [simp]: "relay_url (relay_url a []) p = relay_url a p" "page_url (relay_url a []) p c = page_url a p c"
proof -
  have "dropWhile P (dropWhile P xs) = dropWhile P xs" for P and xs :: pystr by (simp add: dropWhile_idem)
  then show u: "relay_url (relay_url a []) p = relay_url a p" for p by (simp add: relay_url_def)
  show "page_url (relay_url a []) p c = page_url a p c" by (simp add: page_url_def u split: option.splits)
qed

lemma channel_page_listed:
  assumes "relay_reach cfg st" "hex64_match hex" "channel_assertions hex after st = Inr (blobs, nxt)" "cursor_for c after"
  shows "\<exists>xs. http_get_json (relay_net crashed now cfg a others) (page_url (relay_url a []) (channel_path hex) c) st =
          ((200, PDict [(lit ''items'', PList xs), (lit ''next'', next_value nxt)]), st) \<and>
        list_all2 (\<lambda>x b. \<exists>e. x = PDict e \<and> read_as e b) (List.map_filter Some xs) blobs"
proof -
  note p = page_rows [OF assms(1) disjI1 [OF assms(3)]] and rt = routes(1) [OF assms(2)]
  obtain envs where e: "loads_bytes (list_body (bracketed blobs) nxt) =
      Inr (PDict [(lit ''items'', PList (map PDict envs)), (lit ''next'', next_value nxt)])" "list_all2 read_as envs blobs"
    using listing_reads [OF p(1) plain_next [OF p(2)]] by blast
  have "reaches a (page_url a (channel_path hex) c)"
    using reaches_route [OF rt, of a "[]"] reaches_route [OF rt] by (simp add: page_url_def split: option.splits)
  moreover have "do_GET cfg (received a \<lparr>hmethod = ''GET'', hurl = page_url a (channel_path hex) c, hdata = None\<rparr>) st =
      Inr (send 200 (BBytes (list_body (bracketed blobs) nxt)))"
    using received_page [OF rt cursor_nonempty [OF assms(4)]] assms(4) by (intro get_channel [OF assms(2) _ _ assms(3)]) simp_all
  ultimately show ?thesis
    using e by (intro exI [of _ "map PDict envs"])
      (simp add: http_get_json_def relay_net_def handle_def answered_def relay_send_bytes read_json_def keep_all list_all2_map1)
qed

interpretation chan_poll: polled_listing "relay_net crashed now cfg a others" "relay_url a []" "channel_path hex"
    "channel_assertions hex" "\<lambda>st. relay_reach cfg st \<and> hex64_match hex" "\<lambda>x b. \<exists>e. x = PDict e \<and> read_as e b"
    "\<lambda>st. kept_up (relay_net crashed now cfg a others) st old" for crashed now cfg a others hex old
proof unfold_locales
  fix st after items nxt c
  assume "relay_reach cfg st \<and> hex64_match hex" "channel_assertions hex after st = Inr (items, nxt)" "cursor_for c after"
  then show "\<exists>xs. http_get_json (relay_net crashed now cfg a others) (page_url (relay_url a []) (channel_path hex) c) st =
          ((200, PDict [(lit ''items'', PList xs), (lit ''next'', next_value nxt)]), st) \<and>
        list_all2 (\<lambda>x b. \<exists>e. x = PDict e \<and> read_as e b) (List.map_filter Some xs) items"
    using channel_page_listed by blast
next
  fix st after items x
  assume "relay_reach cfg st \<and> hex64_match hex" "channel_assertions hex after st = Inr (items, Some x)"
  then show "\<exists>i. x = encode_cursor i" using page_rows(2) by blast
next
  fix st x b bs ps fs
  assume "\<exists>e. x = PDict e \<and> read_as e b" "kept_up (relay_net crashed now cfg a others) st old bs ps"
  then show "\<exists>ps' fs'. consider_item (relay_net crashed now cfg a others) (relay_url a []) x ps (fs, st) = (Returned ps', (fs', st)) \<and>
      kept_up (relay_net crashed now cfg a others) st old (bs @ [b]) ps'"
    using consider_read [OF relay_net_quiet] by blast
qed

section \<open>The command\<close>

lemma poll_start:
  assumes "hex64_match hex" "relay_url a [] \<noteq> []"
  shows "sha256_id_match (lit ''sha256:'' @ hex)" "after_colon (lit ''sha256:'' @ hex) = Inr hex" "relay_list [] [a] = [relay_url a []]"
  using assms by (simp_all add: sha256_id_match_def hex64_match_def after_colon_id)

lemma channel_blobs:
  assumes "relay_reach cfg st"
  shows "distinct (map id_of_bytes (map snd (channel_rows hex st)))"
    "id_of_bytes ` set (map snd (channel_rows hex st)) = Some ` rid ` {r \<in> set (assertions st). channel r = Some (lit ''sha256:'' @ hex)}"
    "length (channel_rows hex st) = length (filter (\<lambda>r. channel r = Some (lit ''sha256:'' @ hex)) (assertions st))"
proof -
  note ok = relay_reach_ok [OF assms]
  have i: "id_of_bytes (envelope r) = Some (rid r)" if "r \<in> set (assertions st)" for r
    using ok that by (auto simp: id_of_bytes_def row_ok_def)
  have m: "map id_of_bytes (map snd (channel_rows hex st)) = map Some (map rid (filter (\<lambda>r. channel r = Some (lit ''sha256:'' @ hex)) (assertions st)))"
    using i by (simp add: channel_rows_def)
  show "distinct (map id_of_bytes (map snd (channel_rows hex st)))"
    unfolding m using ok by (simp add: distinct_map_filter store_ok_def distinct_map inj_on_def)
  show "id_of_bytes ` set (map snd (channel_rows hex st)) = Some ` rid ` {r \<in> set (assertions st). channel r = Some (lit ''sha256:'' @ hex)}"
    unfolding list.set_map [symmetric] m by (simp add: image_image)
  show "length (channel_rows hex st) = length (filter (\<lambda>r. channel r = Some (lit ''sha256:'' @ hex)) (assertions st))"
    by (simp add: channel_rows_def)
qed

lemma object_kept:
  assumes "agent_ok fs" "state_file fs = Some ag" "want \<in> set (st_objects ag)"
  shows "\<exists>h data. want = lit ''sha256:'' @ h \<and> dget (objects_dir fs) h = Some data \<and> object_id data = want"
proof -
  obtain h data where h: "(h, data) \<in> set (objects_dir fs)" "want = lit ''sha256:'' @ h"
    using assms by (auto simp: agent_ok_def state_ok_def obj_ids_def)
  then obtain d where d: "dget (objects_dir fs) h = Some d" by (metis map_of_eq_None_iff fst_conv image_eqI option.exhaust)
  then have "(h, d) \<in> set (objects_dir fs)" by (rule map_of_SomeD)
  then have "h = bytes_hex (sha256 d)" using assms(1) by (auto simp: agent_ok_def dirs_ok_def)
  then show ?thesis using d h(2) by (auto simp: object_id_def)
qed

lemma poll_outcome:
  assumes "relay_reach cfg st" "length (assertions st) < n" "hex64_match hex" "relay_url a [] \<noteq> []"
    "agent_ok fs" "load_state fs = Inr (ag, key)" "net = relay_net crashed now cfg a others"
  shows "\<exists>k p fs' ag'. cmd_poll n net [a] (lit ''sha256:'' @ hex) (fs, st) =
      (Returned (poll_report (st_actor ag) (lit ''sha256:'' @ hex) [\<lparr>rp_relay = relay_url a [], rp_pages = k, rp_errors = []\<rparr>] p), (fs', st)) \<and>
    p_discovered p = length (filter (\<lambda>r. channel r = Some (lit ''sha256:'' @ hex)) (assertions st)) \<and>
    list_all (\<lambda>r. get_or r ''valid'' PNone = PBool True) (p_results p) \<and>
    agent_ok fs' \<and> state_file fs' = Some ag' \<and>
    set (st_seen ag') = set (st_seen ag) \<union> rid ` {r \<in> set (assertions st). channel r = Some (lit ''sha256:'' @ hex)} \<and>
    (\<forall>r\<in>set (assertions st). \<forall>want. channel r = Some (lit ''sha256:'' @ hex) \<and> rid r \<notin> set (st_seen ag) \<and> obtainable net st (envelope r) want \<longrightarrow>
       want \<in> set (st_objects ag') \<and> (\<exists>h data. want = lit ''sha256:'' @ h \<and> dget (objects_dir fs') h = Some data \<and> object_id data = want))"
proof -
  let ?bs = "map snd (channel_rows hex st)"
  let ?p0 = "\<lparr>p_seen = st_seen ag, p_objects = st_objects ag, p_processed = [], p_discovered = 0, p_results = []\<rparr>"
  have ok: "store_ok st" using relay_reach_ok [OF assms(1)] by blast
  have "kept_up net st (set (st_seen ag)) [] ?p0" by (simp add: kept_up_def)
  from chan_poll.poll_listing [OF conjI [OF assms(1,3)] crawl_still(1) [OF ok assms(2), of hex] first_page(1) this [unfolded assms(7)], of 0 fs]
  obtain k p fs1 where p: "poll_relay n net (relay_url a []) (channel_path hex) PNone 0 ?p0 (fs, st) = (Returned (k, [], p), (fs1, st))"
      "kept_up net st (set (st_seen ag)) ?bs p"
    by (auto simp: assms(7) first_page(2))
  define ag' where "ag' = ag\<lparr>st_seen := p_seen p, st_objects := p_objects p\<rparr>"
  have run: "cmd_poll n net [a] (lit ''sha256:'' @ hex) (fs, st) =
      (Returned (poll_report (st_actor ag) (lit ''sha256:'' @ hex) [\<lparr>rp_relay = relay_url a [], rp_pages = k, rp_errors = []\<rparr>] p), (save_state ag' fs1, st))"
    using p(1) poll_start [OF assms(3,4)] assms(6)
    by (simp add: cmd_poll_def bindw_def liftw_def load_def save_def on_fs_def raise_if_def channel_path_def ag'_def)
  have good: "agent_ok (save_state ag' fs1)"
    using safe_ok [OF safe_poll, of "(fs, st)" n net "[a]" "lit ''sha256:'' @ hex"] run assms(5) by simp
  have "Some ` set (st_seen ag') = Some ` (set (st_seen ag) \<union> rid ` {r \<in> set (assertions st). channel r = Some (lit ''sha256:'' @ hex)})"
    using p(2) channel_blobs(2) [OF assms(1)] by (simp add: kept_up_def ag'_def image_Un)
  then have seen: "set (st_seen ag') = set (st_seen ag) \<union> rid ` {r \<in> set (assertions st). channel r = Some (lit ''sha256:'' @ hex)}"
    by (simp add: inj_image_eq_iff)
  have got: "want \<in> set (st_objects ag')"
    if r: "r \<in> set (assertions st)" "channel r = Some (lit ''sha256:'' @ hex)" "rid r \<notin> set (st_seen ag)" "obtainable net st (envelope r) want" for r want
  proof -
    have "id_of_bytes (envelope r) = Some (rid r)" using r(1) relay_reach_ok [OF assms(1)] by (auto simp: id_of_bytes_def row_ok_def)
    then have new: "id_of_bytes (envelope r) \<notin> Some ` set (st_seen ag)" using r(3) by auto
    have listed: "envelope r \<in> set ?bs" using r(1,2) by (force simp: channel_rows_def)
    have "\<forall>b\<in>set ?bs. \<forall>want. id_of_bytes b \<notin> Some ` set (st_seen ag) \<and> obtainable net st b want \<longrightarrow> want \<in> set (p_objects p)"
      using p(2) channel_blobs(1) [OF assms(1)] unfolding kept_up_def by blast
    from this [rule_format, OF listed conjI [OF new r(4)]] have "want \<in> set (p_objects p)" .
    then show ?thesis by (simp add: ag'_def)
  qed
  have "\<exists>h data. want = lit ''sha256:'' @ h \<and> dget (objects_dir (save_state ag' fs1)) h = Some data \<and> object_id data = want"
    if "want \<in> set (st_objects ag')" for want
    using object_kept [OF good _ that] by (simp add: save_state_def)
  then show ?thesis using run p(2) channel_blobs(3) [OF assms(1)] good seen got
    by (intro exI [of _ k] exI [of _ p] exI [of _ "save_state ag' fs1"] exI [of _ ag']) (auto simp: kept_up_def save_state_def)
qed


definition sample_agent :: agent_state where
  "sample_agent = \<lparr>st_actor = [], st_seen = [lit ''x''], st_published = [], st_objects = []\<rparr>"

definition sample_dir :: agent_fs where
  "sample_dir = new_dir\<lparr>key_file := Some (lit ''00''), state_file := Some sample_agent\<rparr>"

lemma sample_dir: "agent_ok sample_dir" "load_state sample_dir = Inr (sample_agent, [0])"
  by (simp_all add: sample_dir_def sample_agent_def new_dir_def agent_ok_def dirs_ok_def state_ok_def obj_ids_def pub_ids_def load_state_def
      read_key_def lit_def strip_by_def py_space_def hex_val_def)


end
