(* ===== verification/Publication.thy ===== *)
theory Publication
  imports Relay_Poll Mine_Command
begin

text \<open>
  From a publication to a subscriber: what one agent publishes to a durable relay, another one that
  polls the channel later gets, down to the bytes of the object.
\<close>

section \<open>What a publication leaves behind\<close>

lemma returned:
  "bindw m f w = (Returned y, w2) \<longleftrightarrow> (\<exists>x w1. m w = (Returned x, w1) \<and> f x w1 = (Returned y, w2))"
  "liftw e w = (Returned x, w1) \<longleftrightarrow> e = Inr x \<and> w1 = w"
  "on_net g (fs, v) = (Returned z, s1) \<longleftrightarrow> s1 = (fs, snd (g v)) \<and> z = fst (g v)"
  "on_fs h (fs, v) = (Returned q, s1) \<longleftrightarrow> s1 = (snd (h fs), v) \<and> q = fst (h fs)"
  by (auto simp: bindw_def liftw_def on_net_def on_fs_def Let_def split: prod.splits run.splits sum.splits)

lemma submit_one:
  assumes "submit_all net raw [base] (fs, w) = (Returned rs, s1)" "stored_by rs"
  obtains resp w1 where "http_raw net ''POST'' (relay_url base (lit ''/v1/assertions'')) (Some raw) w = (Inr (200, resp), w1)" "s1 = (fs, w1)"
proof -
  obtain r w1 where h: "http_raw net ''POST'' (relay_url base (lit ''/v1/assertions'')) (Some raw) w = (r, w1)" by force
  show thesis
    using assms that by (cases r) (auto simp: returned h stored_by_def bindr_eq_Inr)
qed

lemma publish_run:
  assumes "load_state fs = Inr (ag, key)" "relay_url a [] \<noteq> []"
    "cmd_publish net [a] chan data object_base parents created (fs, w) = (Returned (PDict d), (fs', w'))"
    "dget d (lit ''ok'') = Some (PBool True)" "dget d (lit ''assertion_id'') = Some (PStr ident)"
  obtains x env raw resp where "float_of_int created = Inr x" "sha256_id_match chan"
    "agent_mine (pointer_body (st_actor ag) chan x (object_id data) (relay_url object_base (lit ''/objects/sha256/'' @ bytes_hex (sha256 data))) parents) key = Inr env"
    "canonicalize_bytes (PDict env) = Inr raw" "dget env (lit ''id'') = Some (PStr ident)"
    "http_raw net ''POST'' (relay_url a (lit ''/v1/assertions'')) (Some raw) w = (Inr (200, resp), w')"
    "objects_dir fs' = objects_dir (snd (store_object data fs))"
proof -
  have st: "fst (store_object data fs) = (object_id data, bytes_hex (sha256 data))" by (simp add: store_object_def Let_def object_id_def)
  have rl: "relay_list [] [a] = [relay_url a []]" using assms(2) by simp
  obtain x env raw hex rs s3 where r: "sha256_id_match chan" "float_of_int created = Inr x"
    "agent_mine (pointer_body (st_actor ag) chan x (object_id data) (relay_url object_base (lit ''/objects/sha256/'' @ bytes_hex (sha256 data))) parents) key = Inr env"
    "canonicalize_bytes (PDict env) = Inr raw" "getitem env ''id'' = Inr (PStr ident)"
    "submit_all net raw [relay_url a []] ((snd (store_object data fs))\<lparr>published_dir := dset (published_dir (snd (store_object data fs))) hex raw\<rparr>, w) = (Returned rs, s3)"
    "stored_by rs" "save (ag\<lparr>st_objects := append_new (object_id data) (st_objects ag), st_published := append_new ident (st_published ag)\<rparr>) s3 = (Returned (), (fs', w'))"
    using assms(3-5) unfolding cmd_publish_def Let_def mine_and_keep_def load_def
    by (auto simp: returned assms(1) st rl lit_def raise_if_def as_text_def bindr_eq_Inr simp del: relay_list.simps submit_all.simps split: if_splits pyval.splits)
  obtain resp w1 where s: "http_raw net ''POST'' (relay_url (relay_url a []) (lit ''/v1/assertions'')) (Some raw) w = (Inr (200, resp), w1)"
    "s3 = ((snd (store_object data fs))\<lparr>published_dir := dset (published_dir (snd (store_object data fs))) hex raw\<rparr>, w1)"
    by (rule submit_one [OF r(6,7)])
  have "w' = w1" "objects_dir fs' = objects_dir (snd (store_object data fs))"
    using r(8) by (auto simp: s(2) save_def on_fs_def Let_def save_state_def)
  then show thesis using that r(1-5) s(1) by (simp add: getitem_def split: option.splits)
qed

section \<open>The mined envelope\<close>

lemma mine_width_shape:
  "mine_width base sk template off width target n hi = Inr (Some env) \<Longrightarrow> \<exists>m digest. mined_envelope base sk (nonce_digits width m) digest = Inr env"
proof (induction base sk template off width target n hi rule: mine_width.induct)
  case (1 base sk template off width target n hi)
  note u = mine_width.simps [of base sk template off width target n hi]
  have n: "\<not> hi < n" using 1(2) by (auto simp: u)
  show ?case
  proof (cases "from_be (sha256 (patch template off width (nonce_digits width n))) \<le> target")
    case True
    then show ?thesis using 1(2) n by (auto simp: u Let_def bindr_eq_Inr)
  next
    case False
    then show ?thesis using 1(1) [OF n refl refl False] 1(2) n by (simp add: u Let_def)
  qed
qed

lemma mine_widths_shape: "mine_widths base sk widths = Inr env \<Longrightarrow> \<exists>width m digest. mined_envelope base sk (nonce_digits width m) digest = Inr env"
proof (induction widths)
  case (Cons width widths)
  then show ?case by (auto simp: Let_def bindr_eq_Inr split: if_splits option.splits dest!: mine_width_shape)
qed simp

lemma str_ok_nonce: "str_ok (nonce_digits width n)"
  using str_nat_digits [of n] by (auto simp: nonce_digits_def list_all_iff is_digit_def intro!: ascii_char_ok)

text \<open>Mining adds three text members and keeps the others.\<close>

lemma agent_mine_shape:
  assumes "agent_mine u sk = Inr env" "json_val (PDict u)"
  shows "json_val (PDict env)" "k \<noteq> lit ''nonce'' \<Longrightarrow> k \<noteq> lit ''id'' \<Longrightarrow> k \<noteq> lit ''sig'' \<Longrightarrow> dget env k = dget u k"
proof -
  let ?b = "filter (\<lambda>p. fst p \<noteq> lit ''nonce'') u"
  obtain width m digest where "mined_envelope ?b sk (nonce_digits width m) digest = Inr env"
    using mine_widths_shape assms(1) unfolding agent_mine_def by blast
  then obtain sg where e: "env = dset (dset (dset ?b (lit ''nonce'') (PStr (nonce_digits width m))) (lit ''id'') (PStr (lit ''sha256:'' @ bytes_hex digest)))
      (lit ''sig'') (PStr (bytes_hex sg))" by (auto simp: mined_envelope_def Let_def bindr_eq_Inr)
  have b: "json_val (PDict ?b)" using assms(2) by (auto simp: list_all_iff distinct_map_filter)
  have ok: "str_ok (lit ''nonce'')" "str_ok (lit ''id'')" "str_ok (lit ''sig'')" "str_ok (lit ''sha256:'' @ bytes_hex digest)" "str_ok (bytes_hex sg)"
    using str_ok_hex by (simp_all add: str_ok_lit)
  show "json_val (PDict env)"
    unfolding e using json_dset [OF json_dset [OF json_dset [OF b ok(1)] ok(2)] ok(3)] str_ok_nonce ok(4,5) by simp
  show "dget env k = dget u k" if "k \<noteq> lit ''nonce''" "k \<noteq> lit ''id''" "k \<noteq> lit ''sig''"
    using that by (simp add: e dget_dset dget_filter_key [where Q = "\<lambda>k. k \<noteq> lit ''nonce''"])
qed

text \<open>The canonical bytes of a mined pointer name its object and its locator.\<close>

lemma mined_pointer_names:
  assumes "agent_mine (pointer_body act chan x oid loc parents) key = Inr env" "json_val (PDict (pointer_body act chan x oid loc parents))"
    "canonicalize_bytes (PDict env) = Inr raw"
  shows "parse_object raw = Inr (norm_obj env)" "canonicalize_bytes (PDict (norm_obj env)) = Inr raw" "names raw oid loc"
    "index_columns (reconstruct_u (norm_obj env)) ident = Inr c \<Longrightarrow> fst (snd c) = chan"
proof -
  note j = agent_mine_shape(1) [OF assms(1,2)]
  have wf: "wf_dict env" using j by (simp add: wf_dict_def)
  note g = agent_mine_shape(2) [OF assms(1,2)]
  show p: "parse_object raw = Inr (norm_obj env)"
    using parse_canonical [OF j] assms(3) by (simp add: parse_object_iff norm_PDict del: norm.simps)
  show "canonicalize_bytes (PDict (norm_obj env)) = Inr raw"
    using canonicalize_norm [OF j] assms(3) by (simp add: norm_PDict del: norm.simps json_val.simps)
  have t: "dget (norm_obj env) (lit ''type'') = Some (PStr (lit ''pointer''))" "dget (norm_obj env) (lit ''channel'') = Some (PStr chan)"
    "dget (norm_obj env) (lit ''ref'') = Some (PDict (norm_obj [(lit ''hash'', PStr oid), (lit ''locators'', PList [PStr loc])]))"
    unfolding dget_norm_obj [OF wf]
    by (subst g; simp add: pointer_body_def lit_def norm_PDict norm_obj_def)+
  have "wf_dict [(lit ''hash'', PStr oid), (lit ''locators'', PList [PStr loc])]" by (simp add: wf_dict_def lit_def)
  then have "dget (norm_obj [(lit ''hash'', PStr oid), (lit ''locators'', PList [PStr loc])]) (lit ''hash'') = Some (PStr oid)"
    "dget (norm_obj [(lit ''hash'', PStr oid), (lit ''locators'', PList [PStr loc])]) (lit ''locators'') = Some (PList [PStr loc])"
    by (simp_all add: dget_norm_obj lit_def)
  then show "names raw oid loc" using p t unfolding names_def by (metis list.set_intros(1))
  have k: "lit ''type'' \<noteq> lit ''id''" "lit ''type'' \<noteq> lit ''sig''" "lit ''channel'' \<noteq> lit ''id''" "lit ''channel'' \<noteq> lit ''sig''" "lit ''pointer'' \<noteq> lit ''channel''"
    by (simp_all add: lit_def)
  show "fst (snd c) = chan" if "index_columns (reconstruct_u (norm_obj env)) ident = Inr c"
    using that t k by (auto simp: index_columns_def getitem_def dget_reconstruct as_text_def bindr_eq_Inr)
qed

section \<open>From publication to subscriber\<close>

text \<open>The publisher's object server at \<open>base\<close>, a scheme and an authority: the request's path is what follows it.\<close>

definition object_server :: "agent_fs \<Rightarrow> pystr \<Rightarrow> http_request \<Rightarrow> http" where
  "object_server fs base req =
     (let r = object_get (drop (length (relay_url base [])) (hurl req)) fs in
      if rp_status r < 400 then Response (rp_status r) (Inr (rp_body r)) else HTTPError (rp_status r) (Inr (rp_body r)))"

lemma dhas_store: "dhas (objects_dir (snd (store_object data fs))) (bytes_hex (sha256 data))"
  using set_dset(2) [of "bytes_hex (sha256 data)" data "objects_dir fs"]
  by (force simp: store_object_def Let_def dhas_def image_iff)

lemma object_there:
  assumes "agent_ok fs" "objects_dir fs' = objects_dir (snd (store_object data fs))" "list_all (\<lambda>p. length (snd p) \<le> MAX_FETCH_BYTES) (objects_dir fs)"
    "length data \<le> MAX_FETCH_BYTES"
  obtains found where "dget (objects_dir fs') (bytes_hex (sha256 data)) = Some found" "object_id found = object_id data" "length found \<le> MAX_FETCH_BYTES"
proof -
  let ?fs = "snd (store_object data fs)"
  have "dirs_ok ?fs" using extends_store [of fs data] assms(1) by (simp add: agent_ok_def extends_def)
  moreover obtain found where f: "dget (objects_dir ?fs) (bytes_hex (sha256 data)) = Some found"
    using dhas_store [of data fs] by (auto simp: dhas_iff_dget)
  moreover have "(bytes_hex (sha256 data), found) \<in> set (objects_dir ?fs)" by (rule map_of_SomeD [OF f])
  moreover from this have "length found \<le> MAX_FETCH_BYTES"
    using assms(3,4) by (auto simp: store_object_def Let_def list_all_iff split: if_splits dest!: set_dset(1) [THEN subsetD])
  ultimately show thesis by (intro that [of found]) (auto simp: assms(2) dirs_ok_def object_id_def)
qed

lemma object_fetched:
  assumes "url_scheme loc = lit ''http'' \<or> url_scheme loc = lit ''https''" "\<not> reaches a loc"
    "loc = relay_url base (lit ''/objects/sha256/'' @ bytes_hex (sha256 data))" "dget (objects_dir fs) (bytes_hex (sha256 data)) = Some found"
    "length found \<le> MAX_FETCH_BYTES"
  shows "fst (fetch_object (relay_net crashed now cfg a (object_server fs base)) loc st) = Inr found"
proof -
  have "drop (length (relay_url base [])) loc = lit ''/objects/sha256/'' @ bytes_hex (sha256 data)"
    unfolding assms(3) relay_url_append [of base "lit ''/objects/sha256/'' @ bytes_hex (sha256 data)"] by simp
  moreover have "lit ''/objects/sha256/'' @ xs \<noteq> lit ''/health''" "take 16 (lit ''/objects/sha256/'' @ xs) = lit ''/objects/sha256/''"
    "drop 16 (lit ''/objects/sha256/'' @ xs) = xs" for xs by (simp_all add: lit_def)
  ultimately have "object_server fs base \<lparr>hmethod = ''GET'', hurl = loc, hdata = None\<rparr> = Response 200 (Inr found)"
    using assms(4) hex64_sha by (simp add: object_server_def object_get_def send_object_def)
  moreover have "min (length found) (MAX_FETCH_BYTES + 1) \<le> MAX_FETCH_BYTES" using assms(5) by simp
  ultimately show ?thesis using assms(1,2,5) by (auto simp: fetch_object_def relay_net_def)
qed

text \<open>What the relay holds after an accepted publication that is new to it.\<close>

lemma publication_stored:
  assumes "1 \<le> pow_multiplier cfg" "relay_reach cfg st" "Suc (last_seq st) < 2 ^ 63" "relay_url a [] \<noteq> []"
    "agent_mine (pointer_body act chan x oid loc parents) key = Inr env" "json_val (PDict (pointer_body act chan x oid loc parents))"
    "canonicalize_bytes (PDict env) = Inr raw" "dget env (lit ''id'') = Some (PStr ident)" "ident \<notin> stored_ids st"
    "http_raw (relay_net crashed now cfg a others) ''POST'' (relay_url a (lit ''/v1/assertions'')) (Some raw) st = (Inr (200, resp), st1)"
  shows "relay_reach cfg st1" "store_grows st st1"
    "\<exists>r\<in>set (assertions st1). rid r = ident \<and> envelope r = raw \<and> channel r = Some chan"
proof -
  let ?url = "relay_url a (lit ''/v1/assertions'')"
  obtain raw' info where "canonicalize_bytes (PDict env) = Inr raw'" "validate_bytes raw' = Inr info" "dget env (lit ''id'') = Some (PStr (vid info))"
    using agent_mine_valid [OF assms(5)] by blast
  then have v: "validate_bytes raw = Inr info" "vid info = ident" using assms(7,8) by auto
  obtain r st' hr where h: "handle crashed now cfg a \<lparr>hmethod = ''POST'', hurl = ?url, hdata = Some raw\<rparr> st = (answered crashed r, st')"
    "relay_reach cfg st'" "store_grows st st'" "relay_send r = Inr hr" "rp_status hr = status r"
    "status r = 200 \<longrightarrow> (\<exists>ac. admit cfg (received a \<lparr>hmethod = ''POST'', hurl = ?url, hdata = Some raw\<rparr>) = Inr ac \<and> a_info ac = info \<and> vid info \<in> stored_ids st' \<and>
       st' = snd (add (Suc (last_seq st)) now (vid info) (a_canonical ac) (a_type ac) (a_actor ac) (Some (a_channel ac)) (a_object ac) st))"
    by (rule handle_post [OF assms(1-3) v(1), of crashed now a]) (rule that, assumption+)
  have "reaches a ?url" using reaches_route [of "lit ''/v1/assertions''" a "[]"] by (simp add: route_def lit_def)
  then have c: "status r = 200" "st1 = st'"
    using assms(10) h(1,4,5) by (auto simp: http_raw_def relay_net_def answered_def split: if_splits)
  then show "relay_reach cfg st1" "store_grows st st1" using h(2,3) by simp_all
  obtain ac where ac: "admit cfg (received a \<lparr>hmethod = ''POST'', hurl = ?url, hdata = Some raw\<rparr>) = Inr ac" "a_info ac = info"
    "st' = snd (add (Suc (last_seq st)) now ident (a_canonical ac) (a_type ac) (a_actor ac) (Some (a_channel ac)) (a_object ac) st)"
    using h(6) c(1) v(2) by blast
  obtain content d where ct: "read_body cfg (received a \<lparr>hmethod = ''POST'', hurl = ?url, hdata = Some raw\<rparr>) = Inr content"
    "parse_object content = Inr d" "canonicalize_bytes (PDict d) = Inr (a_canonical ac)"
    "index_columns (reconstruct_u d) (vid (a_info ac)) = Inr (a_type ac, a_channel ac, a_object ac)" using admit_Inr [OF ac(1)] by metis
  have "content = raw" using read_body_whole [OF _ ct(1)] by (simp add: received_def Let_def)
  then have d: "d = norm_obj env" using ct(2) mined_pointer_names(1) [OF assms(5-7)] by simp
  then have "a_canonical ac = raw" "a_channel ac = chan"
    using ct(3) mined_pointer_names(2) [OF assms(5-7)] mined_pointer_names(4) [OF assms(5-7) ct(4) [unfolded d]] by simp_all
  moreover have "ident \<notin> rid ` set (assertions st)" using assms(9) by (simp add: stored_ids_def)
  ultimately show "\<exists>r\<in>set (assertions st1). rid r = ident \<and> envelope r = raw \<and> channel r = Some chan"
    using add_new(2) [of st ident] relay_reach_ok [OF assms(2)] c(2) ac(3) by simp
qed

text \<open>
  An agent with the directory \<open>fsS\<close> that polls the channel of the relay with the store \<open>st\<close>, while the object server
  at \<open>object_base\<close> serves \<open>fsP\<close>, returns, and has the assertion and the object then.
\<close>

definition subscriber_gets :: "'w net \<Rightarrow> nat \<Rightarrow> pystr \<Rightarrow> pystr \<Rightarrow> pystr \<Rightarrow> bytes \<Rightarrow> 'w site \<Rightarrow> bool" where
  "subscriber_gets net n a chan ident data s =
     (\<exists>report fs ag found. cmd_poll n net [a] chan s = (Returned report, (fs, snd s)) \<and> state_file fs = Some ag \<and>
        ident \<in> set (st_seen ag) \<and> object_id data \<in> set (st_objects ag) \<and>
        dget (objects_dir fs) (bytes_hex (sha256 data)) = Some found \<and> object_id found = object_id data)"

text \<open>Every outcome \<open>out\<close> of a publication that ended well under a new identifier is one every later subscriber profits from.\<close>

definition publication_delivers :: "http \<Rightarrow> int \<Rightarrow> config \<Rightarrow> pystr \<Rightarrow> pystr \<Rightarrow> pystr \<Rightarrow> bytes \<Rightarrow> store \<Rightarrow> pyval run \<times> store site \<Rightarrow> bool" where
  "publication_delivers crashed later cfg a object_base chan data st0 out =
     (\<forall>d fsP st1 ident st2 fsS agS keyS n.
        out = (Returned (PDict d), (fsP, st1)) \<and> dget d (lit ''ok'') = Some (PBool True) \<and>
        dget d (lit ''assertion_id'') = Some (PStr ident) \<and> ident \<notin> stored_ids st0 \<and>
        relay_reach cfg st2 \<and> store_grows st1 st2 \<and> length (assertions st2) < n \<and>
        agent_ok fsS \<and> load_state fsS = Inr (agS, keyS) \<and> ident \<notin> set (st_seen agS) \<longrightarrow>
        subscriber_gets (relay_net crashed later cfg a (object_server fsP object_base)) n a chan ident data (fsS, st2))"


lemma http_locator: "url_scheme (lit ''http://p'' @ 47 # t) = lit ''http''" "\<not> reaches (lit ''http://a'') (lit ''http://p'' @ t)"
  by (simp_all add: url_scheme_def reaches_def relay_url_def is_alpha_def scheme_char_def lower_def lit_def)


end
