(* ===== verification/Release.thy ===== *)
theory Release
  imports Sha2 Utf "HOL-Library.Product_Lexorder"
begin

text \<open>
  The release scripts. \<^verbatim>\<open>ci/package_frozen.py\<close>: the repository is a function from paths to file contents, a
  run gives the exit code, the printed lines, the staged package tree and the entries of the archive.
  \<^verbatim>\<open>ci/run_conformance.py\<close>: each gate is a command whose exit code is a parameter.
\<close>

section \<open>The frozen package\<close>

definition FROZEN :: "pystr pydict" where
  "FROZEN =
     [(lit ''spec/SPP-v1-Core-Protocol-Specification.md'', lit ''4c450df9cafdd42c746537a72f6bd88d5dbf86390d6e7e51314b3a0134a71019''),
      (lit ''tests/conformance/vectors/suite.json'', lit ''649a58da077818ab34a2ade7ea6b6a87ed4b05222cdeaaeae7fecb5e594493e3'')]"

definition PACKAGE :: "(pystr \<times> pystr) list" where
  "PACKAGE =
     [(lit ''spec/SPP-v1-Core-Protocol-Specification.md'', lit ''SPP-v1-Core-Protocol-Specification.md''),
      (lit ''spec/SPP-v1-External-Review-Guide.md'', lit ''SPP-v1-External-Review-Guide.md''),
      (lit ''tests/conformance/vectors/suite.json'', lit ''conformance/vectors/suite.json''),
      (lit ''LICENSE'', lit ''LICENSE''),
      (lit ''docs/releases/v1.md'', lit ''RELEASE-NOTES.md'')]"

text \<open>\<^verbatim>\<open>data.replace(b"\r\n", b"\n")\<close>\<close>

fun replace_crlf :: "bytes \<Rightarrow> bytes" where
  "replace_crlf (a # b # s) = (if a = 13 \<and> b = 10 then 10 # replace_crlf s else a # replace_crlf (b # s))"
| "replace_crlf s = s"

type_synonym tree = "pystr \<Rightarrow> bytes option"

definition normalized_bytes :: "tree \<Rightarrow> pystr \<Rightarrow> bytes option" where
  "normalized_bytes repo p = map_option replace_crlf (repo p)"

definition digest :: "bytes \<Rightarrow> pystr" where
  "digest data = bytes_hex (sha256 data)"

definition manifest_line :: "pystr \<times> bytes \<Rightarrow> pystr" where
  "manifest_line f = digest (snd f) @ lit ''  '' @ fst f @ [10]"

definition build_manifest :: "(pystr \<times> bytes) list \<Rightarrow> exn + bytes" where
  "build_manifest files = utf8_encode (concat (map manifest_line (sort files)))"

datatype report_line = Missing pystr | Tampered pystr pystr pystr | Good pystr pystr | Verified

text \<open>The loop over the package: files gathered, whether one failed, and the lines.\<close>

definition check_file :: "tree \<Rightarrow> pystr \<times> pystr \<Rightarrow> (pystr \<times> bytes) list \<times> bool \<times> report_line list
    \<Rightarrow> (pystr \<times> bytes) list \<times> bool \<times> report_line list" where
  "check_file repo entry st =
     (case entry of (repo_rel, archive_rel) \<Rightarrow> case st of (files, failed, out) \<Rightarrow>
        case normalized_bytes repo repo_rel of
          None \<Rightarrow> (files, True, out @ [Missing repo_rel])
        | Some data \<Rightarrow>
            let files' = files @ [(archive_rel, data)]; actual = digest data in
            case dget FROZEN repo_rel of
              Some wanted \<Rightarrow>
                (if wanted \<noteq> actual then (files', True, out @ [Tampered repo_rel wanted actual])
                 else (files', failed, out @ [Good archive_rel actual]))
            | None \<Rightarrow> (files', failed, out @ [Good archive_rel actual]))"

record release =
  exit_code :: int
  printed_lines :: "report_line list"
  staged :: "(pystr \<times> bytes) list option"
  entries :: "(pystr \<times> bytes) list"

text \<open>Files written below \<^verbatim>\<open>v1/\<close>, which was emptied: a later write replaces an earlier one.\<close>

definition write_tree :: "(pystr \<times> bytes) list \<Rightarrow> (pystr \<times> bytes) list" where
  "write_tree fs = fold (\<lambda>f d. dset d (fst f) (snd f)) fs []"

definition package_main :: "tree \<Rightarrow> bool \<Rightarrow> exn + release" where
  "package_main repo check_only =
     (case fold (check_file repo) PACKAGE ([], False, []) of (files, failed, out) \<Rightarrow>
        if failed then Inr \<lparr>exit_code = 1, printed_lines = out, staged = None, entries = []\<rparr>
        else if check_only then Inr \<lparr>exit_code = 0, printed_lines = out @ [Verified], staged = None, entries = []\<rparr>
        else
          bindr (build_manifest files) (\<lambda>manifest.
            let all = files @ [(lit ''MANIFEST.sha256'', manifest)] in
            Inr \<lparr>exit_code = 0, printed_lines = out, staged = Some (write_tree all), entries = sort_key fst all\<rparr>))"

section \<open>The gates\<close>

datatype arg = Word string | Number nat | Python | Tsx | Tsc | Path "string list"

type_synonym gate = "string \<times> arg list \<times> string list"

definition SUITE :: arg where
  "SUITE = Path [''tests'', ''conformance'', ''vectors'', ''suite.json'']"

text \<open>A command run by this interpreter, in the repository root.\<close>

definition py_gate :: "string \<Rightarrow> string list \<Rightarrow> arg list \<Rightarrow> gate" where
  "py_gate label script args = (label, [Python, Path script] @ args, [])"

definition gates :: "nat \<Rightarrow> bool \<Rightarrow> bool \<Rightarrow> gate list" where
  "gates fuzz_arg quick skip_relay =
     (let fuzz_count = (if quick then 20000 else fuzz_arg); ts = [''implementations'', ''typescript''] in
      [py_gate ''frozen package identity'' [''ci'', ''package_frozen.py''] [Word ''--check''],
       py_gate ''generated-vector drift'' [''tests'', ''conformance'', ''build_suite.py''] [Word ''--check''],
       py_gate ''Python conformance'' [''implementations'', ''python'', ''spp_verify.py''] [Word ''--suite'', SUITE],
       (''TypeScript conformance'', [Tsx, Word ''src/cli.ts'', Word ''--suite'', SUITE], ts),
       (''TypeScript typecheck'', [Tsc, Word ''--noEmit''], ts),
       py_gate ''differential suite'' [''tests'', ''conformance'', ''diff_verify.py''] [],
       py_gate ''JCS number tests'' [''tests'', ''conformance'', ''test_jcs_numbers.py''] [],
       py_gate ''permanent regressions'' [''tests'', ''conformance'', ''test_regressions.py''] [],
       py_gate ''property-name hostility'' [''tests'', ''conformance'', ''test_property_names.py''] [],
       py_gate ''nesting-depth totality'' [''tests'', ''conformance'', ''test_nesting_depth.py''] (if quick then [Word ''--quick''] else []),
       py_gate ''differential mutation'' [''tests'', ''conformance'', ''mutate_diff.py''] [],
       py_gate ''binary64 fuzz'' [''tests'', ''conformance'', ''fuzz_binary64.py''] [Word ''--count'', Number fuzz_count]] @
      (if skip_relay then [] else
        [py_gate ''relay interoperability'' [''tests'', ''interoperability'', ''relay-tests'', ''run_tests.py''] [],
         py_gate ''durable relay'' [''implementations'', ''relay'', ''test_relay.py''] [],
         py_gate ''durable two-agent e2e'' [''tests'', ''interoperability'', ''durable-e2e'', ''run_tests.py''] [],
         py_gate ''multi-relay federation e2e'' [''tests'', ''interoperability'', ''multi-relay-e2e'', ''run_tests.py''] []]))"

text \<open>One gate: the process's exit code decides.\<close>

definition run_gate :: "(arg list \<Rightarrow> string list \<Rightarrow> int) \<Rightarrow> gate \<Rightarrow> string \<times> bool" where
  "run_gate proc g = (case g of (label, cmd, cwd) \<Rightarrow> (label, proc cmd cwd = 0))"

definition conformance_main :: "(arg list \<Rightarrow> string list \<Rightarrow> int) \<Rightarrow> nat \<Rightarrow> bool \<Rightarrow> bool \<Rightarrow> (string \<times> bool) list \<times> int" where
  "conformance_main proc fuzz_arg quick skip_relay =
     (let rs = map (run_gate proc) (gates fuzz_arg quick skip_relay); failed = length (filter (\<lambda>r. \<not> snd r) rs) in
      (rs, if failed \<noteq> 0 then 1 else 0))"

section \<open>What a release shows\<close>

definition file_good :: "tree \<Rightarrow> pystr \<times> pystr \<Rightarrow> bool" where
  "file_good repo e = (case repo (fst e) of None \<Rightarrow> False
     | Some b \<Rightarrow> (case dget FROZEN (fst e) of None \<Rightarrow> True | Some h \<Rightarrow> bytes_hex (sha256 (replace_crlf b)) = h))"

lemma check_files:
  "fold (check_file repo) es (files, failed, out) = (files', failed', out') \<Longrightarrow>
     failed' = (failed \<or> \<not> list_all (file_good repo) es) \<and>
     (\<not> failed' \<longrightarrow> files' = files @ map (\<lambda>e. (snd e, replace_crlf (the (repo (fst e))))) es)"
proof (induction es arbitrary: files failed out)
  case (Cons e es)
  obtain f2 b2 o2 where s: "check_file repo e (files, failed, out) = (f2, b2, o2)" by (metis prod_cases3)
  have 1: "b2 = (failed \<or> \<not> file_good repo e)" "file_good repo e \<Longrightarrow> f2 = files @ [(snd e, replace_crlf (the (repo (fst e))))]"
    using s by (auto simp: check_file_def file_good_def normalized_bytes_def digest_def Let_def split: prod.splits option.splits if_splits)
  show ?case using Cons.IH [of f2 b2 o2] Cons.prems 1 by (auto simp: s)
qed simp

text \<open>Writing the line ends of a file another way, as a checkout may.\<close>

fun crlf :: "bytes \<Rightarrow> bytes" where
  "crlf [] = []"
| "crlf (a # s) = (if a = 10 then 13 # 10 # crlf s else a # crlf s)"

lemma replace_crlf_other: "a \<noteq> 13 \<Longrightarrow> replace_crlf (a # s) = a # replace_crlf s"
  by (cases s) auto

lemma replace_crlf_crlf: "list_all (\<lambda>b. b \<noteq> 13) s \<Longrightarrow> replace_crlf (crlf s) = s"
  by (induction s) (auto simp: replace_crlf_other)

lemma replace_crlf_id: "list_all (\<lambda>b. b \<noteq> 13) s \<Longrightarrow> replace_crlf s = s"
  by (induction s) (auto simp: replace_crlf_other)

lemma checked_package:
  "\<exists>out. fold (check_file repo) PACKAGE ([], False, []) =
     (if list_all (file_good repo) PACKAGE
      then (map (\<lambda>e. (snd e, replace_crlf (the (repo (fst e))))) PACKAGE, False, out)
      else (fst (fold (check_file repo) PACKAGE ([], False, [])), True, out))"
proof -
  obtain f b out where f: "fold (check_file repo) PACKAGE ([], False, []) = (f, b, out)" by (metis prod_cases3)
  show ?thesis using check_files [OF f] f by auto
qed

lemma scalar_hex: "list_all scalar (bytes_hex b)"
  using bytes_hex_lower [of b]
  by (auto simp: list_all_iff is_lower_hex_def is_digit_def scalar_def is_surrogate_def)

text \<open>The staged tree of a package: its files normalized, and the manifest.\<close>

definition package_files :: "tree \<Rightarrow> (pystr \<times> bytes) list" where
  "package_files repo = map (\<lambda>e. (snd e, replace_crlf (the (repo (fst e))))) PACKAGE"

lemma manifest_exists: "build_manifest (package_files repo) = Inr (utf8_bytes (concat (map manifest_line (sort (package_files repo)))))"
proof -
  have "list_all scalar (lit ''  '' @ snd e @ [10])" if "e \<in> set PACKAGE" for e
    using that by (auto simp: PACKAGE_def lit_def scalar_def is_surrogate_def)
  then have "list_all scalar (manifest_line f)" if "f \<in> set (package_files repo)" for f
    using that scalar_hex by (auto simp: package_files_def manifest_line_def digest_def)
  then have "list_all scalar (concat (map manifest_line (sort (package_files repo))))" by (auto simp: list_all_iff)
  then show ?thesis by (simp add: build_manifest_def utf8_encode_def)
qed

lemma written:
  "list_all (\<lambda>e. dget (write_tree (package_files repo @ [(lit ''MANIFEST.sha256'', m)])) (snd e) = Some (replace_crlf (the (repo (fst e))))) PACKAGE"
  "dget (write_tree (package_files repo @ [(lit ''MANIFEST.sha256'', m)])) (lit ''MANIFEST.sha256'') = Some m"
  by (simp_all add: write_tree_def package_files_def PACKAGE_def)

text \<open>A checkout with other line ends packages the same.\<close>

lemma line_ends_irrelevant:
  assumes "\<And>p b. repo p = Some b \<Longrightarrow> list_all (\<lambda>x. x \<noteq> 13) b"
  shows "package_main (\<lambda>p. map_option crlf (repo p)) check_only = package_main repo check_only"
proof -
  have "normalized_bytes (\<lambda>p. map_option crlf (repo p)) p = normalized_bytes repo p" for p
    using assms replace_crlf_crlf replace_crlf_id by (cases "repo p") (simp_all add: normalized_bytes_def)
  then have "check_file (\<lambda>p. map_option crlf (repo p)) = check_file repo" by (intro ext) (simp add: check_file_def)
  then show ?thesis by (simp add: package_main_def)
qed

text \<open>The release is open exactly when every gate passes; each runs whatever the others do.\<close>

lemma gates_all_run:
  "map fst (fst (conformance_main proc n quick skip)) = map fst (gates n quick skip)"
  "snd (conformance_main proc n quick skip) = (if list_all (\<lambda>(label, cmd, cwd). proc cmd cwd = 0) (gates n quick skip) then 0 else 1)"
proof -
  show "map fst (fst (conformance_main proc n quick skip)) = map fst (gates n quick skip)"
    by (simp add: conformance_main_def Let_def run_gate_def case_prod_beta o_def)
  have "filter (\<lambda>r. \<not> snd r) (map (run_gate proc) gs) = [] \<longleftrightarrow> list_all (\<lambda>(label, cmd, cwd). proc cmd cwd = 0) gs" for gs
    by (induction gs) (auto simp: run_gate_def case_prod_beta)
  then show "snd (conformance_main proc n quick skip) = (if list_all (\<lambda>(label, cmd, cwd). proc cmd cwd = 0) (gates n quick skip) then 0 else 1)"
    by (simp add: conformance_main_def Let_def)
qed

end
