(* ===== verification/Archive.thy ===== *)
theory Archive
  imports Release "HOL-Library.Multiset"
begin

text \<open>
  The archive of a release, byte by byte: what \<^verbatim>\<open>zipfile.ZipFile(path, "w", ZIP_STORED)\<close> writes for the entries of
  \<^verbatim>\<open>ci/package_frozen.py\<close> on a seekable file, and the archive's digest file. The sizes are below those
  at which \<^verbatim>\<open>zipfile\<close> changes to ZIP64.
\<close>

section \<open>Fields\<close>

text \<open>Little-endian fields of \<open>k\<close> bytes.\<close>

primrec le :: "nat \<Rightarrow> nat \<Rightarrow> bytes" where
  "le 0 n = []"
| "le (Suc k) n = of_nat n # le k (n div 256)"

primrec of_le :: "bytes \<Rightarrow> nat" where
  "of_le [] = 0"
| "of_le (b # bs) = unat b + 256 * of_le bs"

lemma length_le [simp]: "length (le k n) = k"
  by (induction k arbitrary: n) auto

lemma of_le_le: "n < 256 ^ k \<Longrightarrow> of_le (le k n) = n"
proof (induction k arbitrary: n)
  case (Suc k)
  then have "n div 256 < 256 ^ k" by (simp add: less_mult_imp_div_less mult.commute)
  then show ?case using Suc.IH by (simp add: unat_of_nat)
qed simp

text \<open>\<^verbatim>\<open>zlib.crc32\<close>\<close>

definition crc_bit :: "32 word \<Rightarrow> 32 word" where
  "crc_bit c = (if bit c 0 then drop_bit 1 c XOR 0xEDB88320 else drop_bit 1 c)"

definition crc_byte :: "32 word \<Rightarrow> 8 word \<Rightarrow> 32 word" where
  "crc_byte c b = (crc_bit ^^ 8) (c XOR ucast b)"

definition crc32 :: "bytes \<Rightarrow> nat" where
  "crc32 data = unat (foldl crc_byte 0xFFFFFFFF data XOR 0xFFFFFFFF)"


lemma crc32_bound: "crc32 data < 256 ^ 4"
proof -
  have "unat (w :: 32 word) < 2 ^ 32" for w using unsigned_less [of w] by simp
  from this [of "foldl crc_byte 0xFFFFFFFF data XOR 0xFFFFFFFF"] show ?thesis by (simp add: crc32_def)
qed

section \<open>The records of the container\<close>

definition name_bytes :: "pystr \<Rightarrow> bytes" where
  "name_bytes name = utf8_bytes name"

text \<open>Bit 11 marks a name that is not ASCII.\<close>

definition flag_bits :: "pystr \<Rightarrow> nat" where
  "flag_bits name = (if list_all (\<lambda>c. c < 128) name then 0 else 0x800)"

text \<open>\<^verbatim>\<open>ZIP_EPOCH\<close> as a DOS time and date.\<close>

definition dostime :: nat where
  "dostime = 0"

definition dosdate :: nat where
  "dosdate = (1980 - 1980) * 512 + 1 * 32 + 1"

definition common_fields :: "pystr \<times> bytes \<Rightarrow> bytes" where
  "common_fields f = le 2 (flag_bits (fst f)) @ le 2 0 @ le 2 dostime @ le 2 dosdate @
     le 4 (crc32 (snd f)) @ le 4 (length (snd f)) @ le 4 (length (snd f)) @ le 2 (length (name_bytes (fst f))) @ le 2 0"

definition local_entry :: "pystr \<times> bytes \<Rightarrow> bytes" where
  "local_entry f = [0x50, 0x4B, 3, 4, 20, 0] @ common_fields f @ name_bytes (fst f) @ snd f"

definition central_entry :: "nat \<Rightarrow> pystr \<times> bytes \<Rightarrow> bytes" where
  "central_entry off f = [0x50, 0x4B, 1, 2, 20, 0, 20, 0] @ common_fields f @
     le 2 0 @ le 2 0 @ le 2 0 @ le 4 (420 * 2 ^ 16) @ le 4 off @ name_bytes (fst f)"

primrec central_dir :: "nat \<Rightarrow> (pystr \<times> bytes) list \<Rightarrow> bytes" where
  "central_dir off [] = []"
| "central_dir off (f # fs) = central_entry off f @ central_dir (off + length (local_entry f)) fs"

definition end_record :: "nat \<Rightarrow> nat \<Rightarrow> nat \<Rightarrow> bytes" where
  "end_record n dir_size dir_off =
     [0x50, 0x4B, 5, 6] @ le 2 0 @ le 2 0 @ le 2 n @ le 2 n @ le 4 dir_size @ le 4 dir_off @ le 2 0"

definition local_part :: "(pystr \<times> bytes) list \<Rightarrow> bytes" where
  "local_part fs = concat (map local_entry fs)"

text \<open>The limits of the plain format: at larger sizes \<^verbatim>\<open>zipfile\<close> writes ZIP64 records, which is \<open>None\<close> here.\<close>

definition ZIP64_LIMIT :: nat where
  "ZIP64_LIMIT = 2 ^ 31 - 1"

definition plain_zip :: "(pystr \<times> bytes) list \<Rightarrow> bool" where
  "plain_zip fs = (length fs \<le> 65535 \<and> length (local_part fs) \<le> ZIP64_LIMIT \<and> length (central_dir 0 fs) \<le> ZIP64_LIMIT \<and>
     list_all (\<lambda>f. 21 * length (snd f) \<le> 20 * ZIP64_LIMIT \<and> length (name_bytes (fst f)) \<le> 65535) fs)"

definition zip_archive :: "(pystr \<times> bytes) list \<Rightarrow> bytes option" where
  "zip_archive fs =
     (if plain_zip fs then
        Some (local_part fs @ central_dir 0 fs @ end_record (length fs) (length (central_dir 0 fs)) (length (local_part fs)))
      else None)"

text \<open>\<^verbatim>\<open>v1.zip.sha256\<close>\<close>

definition digest_file :: "bytes \<Rightarrow> bytes" where
  "digest_file archive = map of_nat (digest archive @ lit ''  v1.zip'' @ [10])"

definition written_archive :: "release \<Rightarrow> (bytes \<times> bytes) option" where
  "written_archive r = map_option (\<lambda>z. (z, digest_file z)) (zip_archive (entries r))"


section \<open>Reading an archive\<close>

text \<open>A reader that goes by the central directory and checks names and checksums.\<close>

definition field :: "bytes \<Rightarrow> nat \<Rightarrow> nat \<Rightarrow> nat" where
  "field bs pos k = of_le (take k (drop pos bs))"

definition read_local :: "bytes \<Rightarrow> nat \<Rightarrow> bytes \<Rightarrow> nat \<Rightarrow> nat \<Rightarrow> bytes option" where
  "read_local bs off name sz crc =
     (let data = take sz (drop (off + 30 + length name) bs) in
      if take 4 (drop off bs) = [0x50, 0x4B, 3, 4] \<and> field bs (off + 26) 2 = length name \<and> field bs (off + 28) 2 = 0 \<and>
         take (length name) (drop (off + 30) bs) = name \<and> length data = sz \<and> crc32 data = crc
      then Some data else None)"

primrec read_central :: "bytes \<Rightarrow> nat \<Rightarrow> nat \<Rightarrow> (bytes \<times> bytes) list option" where
  "read_central bs pos 0 = Some []"
| "read_central bs pos (Suc n) =
     (let name = take (field bs (pos + 28) 2) (drop (pos + 46) bs) in
      if take 4 (drop pos bs) \<noteq> [0x50, 0x4B, 1, 2] then None
      else case read_local bs (field bs (pos + 42) 4) name (field bs (pos + 24) 4) (field bs (pos + 16) 4) of
          None \<Rightarrow> None
        | Some data \<Rightarrow> map_option (\<lambda>fs. (name, data) # fs) (read_central bs (pos + 46 + length name) n))"

definition unzip_bytes :: "bytes \<Rightarrow> (bytes \<times> bytes) list option" where
  "unzip_bytes bs =
     (let e = length bs - 22 in
      if 22 \<le> length bs \<and> take 4 (drop e bs) = [0x50, 0x4B, 5, 6] then read_central bs (field bs (e + 16) 4) (field bs (e + 10) 2) else None)"

lemma field_at: "bs = P @ le k n @ Q \<Longrightarrow> length P = pos \<Longrightarrow> n < 256 ^ k \<Longrightarrow> field bs pos k = n"
  by (simp add: field_def of_le_le)

lemma flag_small: "flag_bits name < 256 ^ 2"
  by (simp add: flag_bits_def)

lemma length_common [simp]: "length (common_fields f) = 24"
  by (simp add: common_fields_def)

lemma read_local_entry:
  assumes "bs = P @ local_entry f @ Q" "length P = off" "length (name_bytes (fst f)) \<le> 65535"
  shows "read_local bs off (name_bytes (fst f)) (length (snd f)) (crc32 (snd f)) = Some (snd f)"
proof -
  let ?n = "name_bytes (fst f)"
  have b: "bs = (P @ [0x50, 0x4B, 3, 4, 20, 0] @ take 20 (common_fields f)) @ le 2 (length ?n) @ (le 2 0 @ ?n @ snd f @ Q)"
    by (simp add: assms(1) local_entry_def common_fields_def)
  have n: "field bs (off + 26) 2 = length ?n" by (rule field_at [OF b]) (use assms(2,3) in simp_all)
  have b2: "bs = (P @ [0x50, 0x4B, 3, 4, 20, 0] @ take 22 (common_fields f)) @ le 2 0 @ (?n @ snd f @ Q)"
    by (simp add: assms(1) local_entry_def common_fields_def)
  have x: "field bs (off + 28) 2 = 0" by (rule field_at [OF b2]) (use assms(2) in simp_all)
  have "bs = P @ ([0x50, 0x4B, 3, 4, 20, 0] @ common_fields f) @ ?n @ snd f @ Q" by (simp add: assms(1) local_entry_def)
  then have "drop off bs = ([0x50, 0x4B, 3, 4, 20, 0] @ common_fields f) @ ?n @ snd f @ Q" using assms(2) by simp
  then have d: "take 4 (drop off bs) = [0x50, 0x4B, 3, 4]" "drop (off + 30) bs = ?n @ snd f @ Q"
    unfolding drop_drop [of 30 off bs, symmetric, unfolded add.commute [of 30]] by (simp_all del: drop_drop)
  then have "drop (off + 30 + length ?n) bs = snd f @ Q"
    unfolding add.commute [of "off + 30"] drop_drop [symmetric] by (simp del: drop_drop)
  then show ?thesis using n x d by (simp add: read_local_def Let_def)
qed

lemma central_fields:
  assumes "bs = P @ central_entry off f @ Q" "length P = pos" "length (name_bytes (fst f)) \<le> 65535" "off < 256 ^ 4" "length (snd f) < 256 ^ 4"
  shows "take 4 (drop pos bs) = [0x50, 0x4B, 1, 2]" "field bs (pos + 28) 2 = length (name_bytes (fst f))"
    "field bs (pos + 42) 4 = off" "field bs (pos + 24) 4 = length (snd f)" "field bs (pos + 16) 4 = crc32 (snd f)"
    "take (length (name_bytes (fst f))) (drop (pos + 46) bs) = name_bytes (fst f)"
proof -
  let ?n = "name_bytes (fst f)" and ?sig = "[0x50, 0x4B, 1, 2, 20, 0, 20, 0] :: bytes"
  let ?r = "le 2 0 @ le 2 0 @ le 2 0 @ le 4 (420 * 2 ^ 16) @ le 4 off @ ?n @ Q"
  show "take 4 (drop pos bs) = [0x50, 0x4B, 1, 2]" using assms(2) by (simp add: assms(1) central_entry_def)
  note e = central_entry_def common_fields_def
  show "field bs (pos + 28) 2 = length ?n"
    by (rule field_at [where P = "P @ ?sig @ take 20 (common_fields f)" and Q = "le 2 0 @ ?r"]) (use assms(2,3) in \<open>simp_all add: assms(1) e\<close>)
  show "field bs (pos + 42) 4 = off"
    by (rule field_at [where P = "P @ ?sig @ common_fields f @ le 2 0 @ le 2 0 @ le 2 0 @ le 4 (420 * 2 ^ 16)" and Q = "?n @ Q"])
      (use assms(2,4) in \<open>simp_all add: assms(1) central_entry_def\<close>)
  show "field bs (pos + 24) 4 = length (snd f)"
    by (rule field_at [where P = "P @ ?sig @ take 16 (common_fields f)" and Q = "le 2 (length ?n) @ le 2 0 @ ?r"])
      (use assms(2,5) in \<open>simp_all add: assms(1) e\<close>)
  show "field bs (pos + 16) 4 = crc32 (snd f)"
    by (rule field_at [where P = "P @ ?sig @ take 8 (common_fields f)" and
          Q = "le 4 (length (snd f)) @ le 4 (length (snd f)) @ le 2 (length ?n) @ le 2 0 @ ?r"])
      (use assms(2) crc32_bound [of "snd f"] in \<open>simp_all add: assms(1) e\<close>)
  show "take (length ?n) (drop (pos + 46) bs) = ?n" using assms(2) by (simp add: assms(1) central_entry_def)
qed

lemma read_central_dir:
  assumes "bs = P @ central_dir off fs @ Q" "length P = pos" "bs = A @ local_part fs @ B" "length A = off"
    "list_all (\<lambda>f. length (name_bytes (fst f)) \<le> 65535) fs" "off + length (local_part fs) < 256 ^ 4"
  shows "read_central bs pos (length fs) = Some (map (\<lambda>f. (name_bytes (fst f), snd f)) fs)"
  using assms
proof (induction fs arbitrary: P pos A off)
  case (Cons f fs)
  have l: "local_part (f # fs) = local_entry f @ local_part fs" by (simp add: local_part_def)
  have n: "length (name_bytes (fst f)) \<le> 65535" using Cons.prems(5) by simp
  have sz: "off < 256 ^ 4" "length (snd f) < 256 ^ 4" "off + length (local_entry f) + length (local_part fs) < 256 ^ 4"
    using Cons.prems(6) by (simp_all add: l local_entry_def)
  have c: "bs = P @ central_entry off f @ (central_dir (off + length (local_entry f)) fs @ Q)" using Cons.prems(1) by simp
  note fields = central_fields [OF c Cons.prems(2) n sz(1,2)]
  have loc: "read_local bs off (name_bytes (fst f)) (length (snd f)) (crc32 (snd f)) = Some (snd f)"
    by (rule read_local_entry [OF _ Cons.prems(4) n, of _ "local_part fs @ B"]) (use Cons.prems(3) l in simp)
  have "length (central_entry off f) = 46 + length (name_bytes (fst f))" by (simp add: central_entry_def)
  then have "read_central bs (pos + 46 + length (name_bytes (fst f))) (length fs) = Some (map (\<lambda>f. (name_bytes (fst f), snd f)) fs)"
    using Cons.prems(2-5) sz(3) by (intro Cons.IH [of "P @ central_entry off f" _ _ "A @ local_entry f"]) (simp_all add: c l)
  then show ?case using fields loc by (simp add: Let_def)
qed simp

lemma unzip_archive:
  assumes "zip_archive fs = Some z"
  shows "unzip_bytes z = Some (map (\<lambda>f. (name_bytes (fst f), snd f)) fs)"
proof -
  let ?L = "local_part fs" and ?C = "central_dir 0 fs"
  have p: "plain_zip fs" and z: "z = ?L @ ?C @ end_record (length fs) (length ?C) (length ?L)"
    using assms by (auto simp: zip_archive_def split: if_splits)
  have b: "length fs \<le> 65535" "length ?L < 256 ^ 4" "list_all (\<lambda>f. length (name_bytes (fst f)) \<le> 65535) fs"
    using p by (auto simp: plain_zip_def ZIP64_LIMIT_def list_all_iff)
  have len: "length z - 22 = length ?L + length ?C" "22 \<le> length z" by (simp_all add: z end_record_def)
  have "take 4 (drop (length ?L + length ?C) z) = [0x50, 0x4B, 5, 6]" by (simp add: z end_record_def)
  moreover have "field z (length ?L + length ?C + 10) 2 = length fs"
    by (rule field_at [where P = "?L @ ?C @ [0x50, 0x4B, 5, 6] @ le 2 0 @ le 2 0 @ le 2 (length fs)"
          and Q = "le 4 (length ?C) @ le 4 (length ?L) @ le 2 0"]) (use b(1) in \<open>simp_all add: z end_record_def\<close>)
  moreover have "field z (length ?L + length ?C + 16) 4 = length ?L"
    by (rule field_at [where P = "?L @ ?C @ [0x50, 0x4B, 5, 6] @ le 2 0 @ le 2 0 @ le 2 (length fs) @ le 2 (length fs) @ le 4 (length ?C)"
          and Q = "le 2 0"]) (use b(2) in \<open>simp_all add: z end_record_def\<close>)
  moreover have "read_central z (length ?L) (length fs) = Some (map (\<lambda>f. (name_bytes (fst f), snd f)) fs)"
    by (rule read_central_dir [of z ?L 0 fs _ _ "[]"]) (use b(2,3) z in simp_all)
  ultimately show ?thesis using len by (simp add: unzip_bytes_def Let_def)
qed

section \<open>The release as it is shipped\<close>

lemma sum_sorted: "sum_list (map g (sort_key k xs)) = (sum_list (map g xs) :: nat)"
  using mset_sort [of k xs] by (metis mset_map sum_mset_sum_list)

lemma length_utf8_le: "length (utf8_bytes s) \<le> 4 * length s"
  by (induction s) (auto simp: utf8_char_def)

lemma length_central_dir: "length (central_dir off fs) = sum_list (map (\<lambda>f. 46 + length (name_bytes (fst f))) fs)"
  by (induction fs arbitrary: off) (simp_all add: central_entry_def)

lemma length_local_part: "length (local_part fs) = sum_list (map (\<lambda>f. 30 + length (name_bytes (fst f)) + length (snd f)) fs)"
  by (induction fs) (simp_all add: local_part_def local_entry_def)

definition shipped :: "tree \<Rightarrow> (pystr \<times> bytes) list" where
  "shipped repo = package_files repo @ [(lit ''MANIFEST.sha256'', utf8_bytes (concat (map manifest_line (sort (package_files repo)))))]"

lemma manifest_length: "length (utf8_bytes (concat (map manifest_line (sort (package_files repo))))) \<le> 4000"
proof -
  have "length (concat (map manifest_line (sort (package_files repo)))) = sum_list (map (\<lambda>f. length (manifest_line f)) (package_files repo))"
    by (simp add: length_concat o_def sum_sorted)
  also have "\<dots> \<le> 1000" by (simp add: package_files_def PACKAGE_def manifest_line_def digest_def lit_def)
  finally show ?thesis using length_utf8_le [of "concat (map manifest_line (sort (package_files repo)))"] by linarith
qed

lemma archive_fits:
  assumes "list_all (\<lambda>e. case repo (fst e) of None \<Rightarrow> True | Some b \<Rightarrow> length b \<le> 2 ^ 24) PACKAGE" "list_all (file_good repo) PACKAGE"
  shows "plain_zip (sort_key fst (shipped repo))"
proof -
  have data: "length (snd f) \<le> 2 ^ 24" if "f \<in> set (shipped repo)" for f
  proof (cases "f \<in> set (package_files repo)")
    case True
    then obtain e b where e: "e \<in> set PACKAGE" "f = (snd e, replace_crlf b)" "repo (fst e) = Some b"
      using assms(2) by (fastforce simp: package_files_def list_all_iff file_good_def split: option.splits)
    have "length (replace_crlf b) \<le> length b" by (induction b rule: replace_crlf.induct) (auto simp: le_SucI)
    moreover have "length b \<le> 2 ^ 24" using assms(1) e by (auto simp: list_all_iff dest!: bspec)
    ultimately show ?thesis by (simp add: e(2))
  next
    case False
    then show ?thesis using that manifest_length [of repo] by (simp add: shipped_def)
  qed
  have name: "length (name_bytes (fst f)) \<le> 400" if "f \<in> set (shipped repo)" for f
  proof -
    have "length (fst f) \<le> 100" using that by (auto simp: shipped_def package_files_def PACKAGE_def lit_def)
    then show ?thesis using length_utf8_le [of "fst f"] by (simp add: name_bytes_def)
  qed
  have n: "length (shipped repo) = 6" by (simp add: shipped_def package_files_def PACKAGE_def)
  have "sum_list (map (\<lambda>f. 30 + length (name_bytes (fst f)) + length (snd f)) (shipped repo)) \<le> sum_list (map (\<lambda>f. 30 + 400 + 2 ^ 24) (shipped repo))"
    using name data by (intro sum_list_mono add_mono) auto
  then have "length (local_part (sort_key fst (shipped repo))) \<le> 6 * (430 + 2 ^ 24)"
    unfolding length_local_part sum_sorted by (simp add: sum_list_triv n)
  moreover have "sum_list (map (\<lambda>f. 46 + length (name_bytes (fst f))) (shipped repo)) \<le> sum_list (map (\<lambda>f. 46 + 400) (shipped repo))"
    using name by (intro sum_list_mono) auto
  then have "length (central_dir 0 (sort_key fst (shipped repo))) \<le> 6 * 446"
    unfolding length_central_dir sum_sorted by (simp add: sum_list_triv n)
  moreover have "list_all (\<lambda>f. 21 * length (snd f) \<le> 20 * ZIP64_LIMIT \<and> length (name_bytes (fst f)) \<le> 65535) (sort_key fst (shipped repo))"
    using name data by (fastforce simp: list_all_iff ZIP64_LIMIT_def)
  ultimately show ?thesis using n by (simp add: plain_zip_def ZIP64_LIMIT_def)
qed



end
