(* ===== verification/Http_Replies.thy ===== *)
theory Http_Replies
  imports Relay_Sync
begin

text \<open>
  Every reply of the durable relay as its clients read it: what \<^verbatim>\<open>_send\<close> writes for each outcome of the two
  handlers is a JSON text that the protocol's strict parser and \<^verbatim>\<open>json.loads\<close> read alike.
\<close>

section \<open>Settings\<close>

text \<open>An integer of moderate size is a finite float.\<close>

lemma flog2_below:
  assumes "0 < n" "n < 2 ^ k"
  shows "flog2 n 1 < int k"
proof -
  have "2 powi flog2 n 1 \<le> real n" using flog2_bounds(1) [OF assms(1), of 1] by simp
  also have "real n < 2 ^ k" using assms(2) by (metis of_nat_less_iff of_nat_numeral of_nat_power)
  finally have "(2 :: real) powi flog2 n 1 < 2 powi (int k)" by simp
  then show ?thesis by (simp only: powi_less_iff)
qed

lemma int_float:
  assumes "nat \<bar>i\<bar> < 2 ^ k" "k \<le> 1000"
  shows "json_val (floats (PInt i))"
proof -
  let ?n = "nat \<bar>i\<bar>" and ?x = "round64 (i < 0) (nat \<bar>i\<bar>) 1"
  have "isfinite ?x \<and> ?x \<noteq> FFin True 0 (- 1074)"
  proof (cases "i = 0")
    case False
    then have n: "0 < ?n" by simp
    have e: "flog2 ?n 1 < 1000" using flog2_below [OF n assms(1)] assms(2) by simp
    have "0 < ?n * 2 ^ 1074" using n by simp
    then have "0 < round_half_even (?n * 2 ^ 1074) 1" using round_half_even_ge [of 1 1 "?n * 2 ^ 1074"] by linarith
    then show ?thesis
      using n e by (auto simp: round64_def Let_def max_def num2_def den2_def split: if_splits prod.splits)
  qed (simp add: round64_def)
  then show ?thesis using round64_wf [of 1 "i < 0" ?n] by (simp add: float_of_int_def Let_def num_ok_def)
qed

lemma ident_ok: "sha256_id_match s \<Longrightarrow> str_ok s"
proof -
  assume s: "sha256_id_match s"
  then have "str_ok (drop 7 s)"
    by (auto simp: sha256_id_match_def list_all_iff is_lower_hex_def is_digit_def intro!: ascii_char_ok)
  moreover have "take 7 s = lit ''sha256:''" using s by (simp add: sha256_id_match_def)
  ultimately show ?thesis by (metis append_take_drop_id list_all_append str_ok_any_lit)
qed

lemma manifest_json:
  assumes "start_relay env args = Inr (cfg, st)" "pow_multiplier cfg < 2 ^ 1000" "\<bar>max_record_bytes cfg\<bar> < 2 ^ 1000"
  shows "json_val (floats (manifest cfg))"
proof -
  note c = start_relay_limits [OF assms(1)]
  have i: "json_val (floats (PInt i))" if "\<bar>i\<bar> < 2 ^ 1000" for i
    using that int_float [of i 1000] by (simp add: nat_less_iff del: floats.simps json_val.simps)
  have lim: "(1024 :: int) < 2 ^ 1000" "(256 :: int) < 2 ^ 1000" "(8192 :: int) < 2 ^ 1000" "(1 :: int) < 2 ^ 1000"
    using power_strict_increasing [of 13 1000 "2 :: int"] by simp_all
  have "json_val (floats (PInt (pow_multiplier cfg)))" "json_val (floats (PInt (max_record_bytes cfg)))"
    "json_val (floats (PInt (max_locators cfg)))" "json_val (floats (PInt (max_locator_bytes cfg)))"
    "json_val (floats (PInt (max_parents cfg)))" "json_val (floats (PInt 1))"
    by (rule i, use c assms(2,3) lim in linarith)+
  moreover have "json_val (floats (PList (map PStr (bootstrap_channels cfg))))" using c ident_ok by (auto simp: list_all_iff)
  moreover have "distinct (map lit [''v'', ''submit'', ''channels'', ''assertion'', ''channel'', ''object'', ''bootstrap_channels'', ''policy''])"
    "distinct (map lit [''pow_multiplier'', ''max_record_bytes'', ''max_locators'', ''max_locator_bytes'', ''max_parents''])"
    by (simp_all add: lit_def)
  ultimately show ?thesis by (simp add: manifest_def del: floats.simps(1,2))
qed

section \<open>Each reply\<close>

text \<open>An error reply holds its token and message, any other reply a JSON value.\<close>

definition well_replied :: "reply \<Rightarrow> bool" where
  "well_replied r = (status r \<in> {400, 403, 404} \<and> (\<exists>t m. carries r (error_value t m)) \<or> status r = 200 \<and> (\<exists>v. carries r v))"

lemma well_replied_err [simp]: "code \<in> {400, 403, 404} \<Longrightarrow> well_replied (err code t m)"
  unfolding well_replied_def status_err using carries_err by blast

lemma well_replied_not_found [simp]: "well_replied not_found"
  by (simp add: not_found_def)

lemma well_replied_send: "carries (send 200 b) v \<Longrightarrow> well_replied (send 200 b)"
  unfolding well_replied_def by (auto simp: send_def)

lemma carries_bytes: "parse_utf8 b = Inr v \<Longrightarrow> carries (send 200 (BBytes b)) v"
  by (simp add: carries_def send_def)

lemma listing_replied:
  assumes "get_listing hex q = Inr r"
    "\<And>blobs nxt. q hex = Inr (blobs, nxt) \<Longrightarrow> \<exists>v. parse_utf8 (list_body (bracketed blobs) nxt) = Inr v"
  shows "well_replied r"
  using assms(1) assms(2) [THEN exE] well_replied_send [OF carries_bytes]
  by (auto simp: get_listing_def res_simps split: if_splits) blast

lemma page_parses:
  assumes "relay_reach cfg st" "channel_assertions hex after st = Inr (blobs, nxt) \<or> object_assertions hex after st = Inr (blobs, nxt)"
  shows "\<exists>v. parse_utf8 (list_body (bracketed blobs) nxt) = Inr v"
  using listing_parsed [OF page_rows(1) [OF assms] plain_next [OF page_rows(2) [OF assms]]] by blast

lemma stored_parses:
  assumes "relay_reach cfg st" "get_assertion hex st = Some b"
  shows "\<exists>v. parse_utf8 b = Inr v"
proof -
  obtain r where "r \<in> set (assertions st)" "b = envelope r"
    using assms relay_reach_ok by (auto simp: get_assertion_iff)
  then obtain d where "parse_object b = Inr d" using relay_reach_ok [OF assms(1)] by (auto simp: row_ok_def)
  then show ?thesis by (auto simp: parse_object_iff)
qed

lemma route_replied:
  assumes "relay_reach cfg st" "route_GET after p st = Inr r"
  shows "well_replied r"
proof -
  have chan: "get_listing hex (\<lambda>hex. channel_assertions hex after st) = Inr r \<Longrightarrow> well_replied r"
    and obj: "get_listing hex (\<lambda>hex. object_assertions hex after st) = Inr r \<Longrightarrow> well_replied r" for hex
    using listing_replied page_parses [OF assms(1)] by blast+
  have blob: "get_assertion hex st = Some b \<Longrightarrow> well_replied (send 200 (BBytes b))" for hex b
    using stored_parses [OF assms(1)] well_replied_send [OF carries_bytes] by blast
  show ?thesis
    using assms(2) unfolding route_GET_def Let_def
    by (auto split: if_splits option.splits dest: chan obj intro: blob)
qed

lemma get_replied:
  assumes "relay_reach cfg st" "json_val (floats (manifest cfg))" "do_GET cfg req st = Inr r"
  shows "well_replied r"
proof -
  have man: "well_replied (send 200 (BJson (manifest cfg)))"
    using assms(2) by (intro well_replied_send) (simp add: carries_def send_def)
  have dir: "well_replied (send 200 (BBytes (list_body (bracketed (map dumps_str ids)) nxt)))"
    if "advertised_channels after st = Inr (ids, nxt)" for after ids nxt
    by (rule well_replied_send [OF carries_bytes [OF directory_parsed [OF assms(1) that]]])
  show ?thesis
    using assms(3) man dir route_replied [OF assms(1)]
    by (auto simp: do_GET_def res_simps split: option.splits sum.splits exn.splits if_splits)
qed

lemma post_replied:
  assumes "1 \<le> pow_multiplier cfg" "snd (do_POST cfg n t req st) = Replied r"
  shows "well_replied r"
  using post_carries [OF assms] unfolding well_replied_def by blast

section \<open>Property\<close>



end
